(* ===== verification/Maidan_Prelude.thy ===== *)
theory Maidan_Prelude
  imports Main "HOL-Library.Sublist"
begin

text \<open>
  What every component shares.  A Rust \<open>Result<T, E>\<close> is the sum \<open>'e + 't\<close> with the error on
  the left, an \<open>Option\<close> is \<open>option\<close>, and the question-mark operator is \<open>and_then\<close> below.
  Identifiers (the uuid newtypes of \<open>maidan-types/src/ids.rs\<close>) are natural numbers: the code
  only compares them.  A timestamp is an integer number of microseconds, the resolution both
  databases keep.  A database table is the list of its rows in insertion order; \<open>UPDATE ... SET
  ... WHERE\<close> is \<open>update_where\<close>, and a keyed \<open>SELECT\<close> is \<open>find\<close>.

  A Rust \<open>str\<close> is a sequence of UTF-8 bytes and is modelled as one: HOL's \<open>string\<close>, a list of
  8-bit characters.  \<open>len()\<close> is \<open>length\<close>; \<open>chars().count()\<close> counts the bytes that start a
  character; \<open>trim()\<close> removes the UTF-8 encodings of the characters with the White\_Space
  property.
\<close>

subsection \<open>Names and collections\<close>

named_theorems row_simps
named_theorems str_simps

type_synonym instant = int
type_synonym member_id = nat
type_synonym thread_id = nat
type_synonym channel_id = nat
type_synonym workspace_id = nat
type_synonym lease_id = nat

text \<open>Seconds as microseconds, the unit of an instant.\<close>

definition secs :: "int \<Rightarrow> int" where
  "secs n = n * 1000000"

subsection \<open>Results\<close>

fun and_then :: "'e + 'a \<Rightarrow> ('a \<Rightarrow> 'e + 'b) \<Rightarrow> 'e + 'b" where
  "and_then (Inl e) k = Inl e"
| "and_then (Inr x) k = k x"

fun is_ok :: "'e + 'a \<Rightarrow> bool" where
  "is_ok (Inl _) = False"
| "is_ok (Inr _) = True"

lemma and_then_Inr: "and_then r k = Inr y \<longleftrightarrow> (\<exists>x. r = Inr x \<and> k x = Inr y)"
  by (cases r) auto

lemma and_then_Inl: "and_then r k = Inl e \<longleftrightarrow> r = Inl e \<or> (\<exists>x. r = Inr x \<and> k x = Inl e)"
  by (cases r) auto

lemma and_then_unit: "and_then (r :: 'e + unit) k = Inr y \<longleftrightarrow> r = Inr () \<and> k () = Inr y"
  by (cases r) auto

lemma is_ok_iff: "is_ok r \<longleftrightarrow> (\<exists>x. r = Inr x)"
  by (cases r) auto

lemma and_then_cong [fundef_cong]:
  "r = r' \<Longrightarrow> (\<And>x. r' = Inr x \<Longrightarrow> k x = k' x) \<Longrightarrow> and_then r k = and_then r' k'"
  by (cases r') auto

text \<open>\<open>Err\<close> unless a condition holds.\<close>

definition ensure :: "bool \<Rightarrow> 'e \<Rightarrow> 'e + unit" where
  "ensure b e = (if b then Inr () else Inl e)"

lemma ensure_simps [simp]:
  "ensure b e = Inr u \<longleftrightarrow> b"
  "ensure b e = Inl e' \<longleftrightarrow> \<not> b \<and> e' = e"
  by (auto simp: ensure_def)

definition ok_or :: "'a option \<Rightarrow> 'e \<Rightarrow> 'e + 'a" where
  "ok_or x e = (case x of None \<Rightarrow> Inl e | Some v \<Rightarrow> Inr v)"

lemma ok_or_simps [simp]:
  "ok_or (Some v) e = Inr v"
  "ok_or None e = Inl e"
  "ok_or x e = Inr v \<longleftrightarrow> x = Some v"
  by (auto simp: ok_or_def split: option.splits)

subsection \<open>Tables\<close>

definition update_where :: "('r \<Rightarrow> bool) \<Rightarrow> ('r \<Rightarrow> 'r) \<Rightarrow> 'r list \<Rightarrow> 'r list" where
  "update_where P f rows = map (\<lambda>r. if P r then f r else r) rows"

lemma update_where_Nil [row_simps]: "update_where P f [] = []"
  by (simp add: update_where_def)

lemma update_where_append [row_simps]:
  "update_where P f (xs @ ys) = update_where P f xs @ update_where P f ys"
  by (simp add: update_where_def)

lemma set_update_where:
  "set (update_where P f rows) = {r \<in> set rows. \<not> P r} \<union> f ` {r \<in> set rows. P r}"
  by (auto simp: update_where_def)

lemma length_update_where [simp]: "length (update_where P f rows) = length rows"
  by (simp add: update_where_def)

lemma map_update_where:
  assumes "\<And>r. r \<in> set rows \<Longrightarrow> P r \<Longrightarrow> g (f r) = g r"
  shows "map g (update_where P f rows) = map g rows"
  using assms by (auto simp: update_where_def)

lemma update_where_id: "(\<And>r. r \<in> set rows \<Longrightarrow> \<not> P r) \<Longrightarrow> update_where P f rows = rows"
  by (auto simp: update_where_def intro: map_idI)

lemma update_where_nth:
  "i < length rows \<Longrightarrow>
   update_where P f rows ! i = (if P (rows ! i) then f (rows ! i) else rows ! i)"
  by (simp add: update_where_def)

lemma Bex_update_where [row_simps]:
  "(\<exists>r \<in> set (update_where P f rows). Q r) \<longleftrightarrow> (\<exists>r \<in> set rows. Q (if P r then f r else r))"
  by (induction rows) (simp_all add: update_where_def)

lemma Ball_update_where [row_simps]:
  "(\<forall>r \<in> set (update_where P f rows). Q r) \<longleftrightarrow> (\<forall>r \<in> set rows. Q (if P r then f r else r))"
  by (induction rows) (simp_all add: update_where_def)

lemma update_where_memE:
  assumes "r \<in> set (update_where P f rows)"
  obtains r0 where "r0 \<in> set rows" "r = (if P r0 then f r0 else r0)"
  using assms by (induction rows) (auto simp: update_where_def)

lemma update_where_memI:
  "r \<in> set rows \<Longrightarrow> (if P r then f r else r) \<in> set (update_where P f rows)"
  unfolding update_where_def set_map by (rule imageI)

lemma find_append: "find P (xs @ ys) = (case find P xs of Some x \<Rightarrow> Some x | None \<Rightarrow> find P ys)"
  by (induction xs) auto

lemma find_Some_iff_key:
  assumes "distinct (map key rows)"
  shows "find (\<lambda>r. key r = k) rows = Some r \<longleftrightarrow> r \<in> set rows \<and> key r = k"
  using assms by (induction rows) auto

lemma find_key_mem: "find P rows = Some r \<Longrightarrow> r \<in> set rows \<and> P r"
  by (auto simp: find_Some_iff)

subsection \<open>Runs\<close>

text \<open>What a step relation promises its runs: a property every step keeps, and an order every step
  respects.\<close>

locale step_invariant =
  fixes step :: "'s \<Rightarrow> 's \<Rightarrow> bool" and inv :: "'s \<Rightarrow> bool"
  assumes step_keeps: "step s s' \<Longrightarrow> inv s \<Longrightarrow> inv s'"
begin

lemma run_keeps: "step\<^sup>*\<^sup>* s s' \<Longrightarrow> inv s \<Longrightarrow> inv s'"
  by (induction rule: rtranclp_induct) (auto intro: step_keeps)

end

locale step_order =
  fixes step :: "'s \<Rightarrow> 's \<Rightarrow> bool" and le :: "'s \<Rightarrow> 's \<Rightarrow> bool"
  assumes le_refl: "le s s"
    and le_trans: "le a b \<Longrightarrow> le b c \<Longrightarrow> le a c"
    and step_le: "step s s' \<Longrightarrow> le s s'"
begin

lemma run_le: "step\<^sup>*\<^sup>* s s' \<Longrightarrow> le s s'"
  by (induction rule: rtranclp_induct) (auto intro: le_refl le_trans step_le)

end

end
