(* ===== verification/Thread_Fsm.thy ===== *)
theory Thread_Fsm
  imports Maidan_Prelude
begin

text \<open>
  The thread lifecycle of \<open>crates/maidan-fsm\<close>: the states of \<open>maidan-types/src/models.rs\<close>, the
  actions, the pure transition function \<open>apply\<close> (named \<open>apply_action\<close> here) and the parent rule
  of \<open>hsm.rs\<close>.  The lemmas give the reachable states, what a path through the machine must
  visit, and the bound the parent rule puts on a child.
\<close>

datatype thread_state = Open | InReview | Closed | Archived

fun state_as_str :: "thread_state \<Rightarrow> string" where
  "state_as_str Open = ''open''"
| "state_as_str InReview = ''in_review''"
| "state_as_str Closed = ''closed''"
| "state_as_str Archived = ''archived''"

definition state_parse :: "string \<Rightarrow> thread_state option" where
  "state_parse s =
     (if s = ''open'' then Some Open
      else if s = ''in_review'' then Some InReview
      else if s = ''closed'' then Some Closed
      else if s = ''archived'' then Some Archived
      else None)"

fun is_terminal :: "thread_state \<Rightarrow> bool" where
  "is_terminal Closed = True"
| "is_terminal Archived = True"
| "is_terminal _ = False"

datatype thread_action = StartReview | Close | Archive | RequestChanges

fun action_as_str :: "thread_action \<Rightarrow> string" where
  "action_as_str StartReview = ''start_review''"
| "action_as_str Close = ''close''"
| "action_as_str Archive = ''archive''"
| "action_as_str RequestChanges = ''request_changes''"

definition action_parse :: "string \<Rightarrow> thread_action option" where
  "action_parse s =
     (if s = ''start_review'' then Some StartReview
      else if s = ''close'' then Some Close
      else if s = ''archive'' then Some Archive
      else None)"

datatype invalid_transition = InvalidTransition thread_state thread_action

fun apply_action :: "thread_state \<Rightarrow> thread_action \<Rightarrow> invalid_transition + thread_state" where
  "apply_action Open StartReview = Inr InReview"
| "apply_action InReview Close = Inr Closed"
| "apply_action Closed Archive = Inr Archived"
| "apply_action InReview RequestChanges = Inr Open"
| "apply_action from a = Inl (InvalidTransition from a)"

subsection \<open>The parent rule\<close>

datatype hsm_error = ParentArchived | ChildAheadOfParent

fun hsm_as_str :: "hsm_error \<Rightarrow> string" where
  "hsm_as_str ParentArchived = ''parent thread is archived''"
| "hsm_as_str ChildAheadOfParent = ''child state cannot advance beyond parent state''"

fun state_rank :: "thread_state \<Rightarrow> nat" where
  "state_rank Open = 0"
| "state_rank InReview = 1"
| "state_rank Closed = 2"
| "state_rank Archived = 3"

definition parent_allows_transition :: "thread_state \<Rightarrow> thread_state \<Rightarrow> hsm_error + unit" where
  "parent_allows_transition parent child_to =
     (if parent = Archived then Inl ParentArchived
      else if state_rank child_to > state_rank parent then Inl ChildAheadOfParent
      else Inr ())"

subsection \<open>Order and finiteness of the states\<close>

instantiation thread_state :: linorder
begin

definition less_eq_thread_state :: "thread_state \<Rightarrow> thread_state \<Rightarrow> bool" where
  "s \<le> s' \<longleftrightarrow> state_rank s \<le> state_rank s'"

definition less_thread_state :: "thread_state \<Rightarrow> thread_state \<Rightarrow> bool" where
  "s < s' \<longleftrightarrow> state_rank s < state_rank s'"

instance
proof
  fix x y :: thread_state
  show "x \<le> y \<Longrightarrow> y \<le> x \<Longrightarrow> x = y"
    by (cases x; cases y; simp add: less_eq_thread_state_def)
qed (auto simp: less_eq_thread_state_def less_thread_state_def)

end

lemma all_states: "(\<forall>s. P s) \<longleftrightarrow> P Open \<and> P InReview \<and> P Closed \<and> P Archived"
  using thread_state.exhaust by metis

lemma all_actions:
  "(\<forall>a. P a) \<longleftrightarrow> P StartReview \<and> P Close \<and> P Archive \<and> P RequestChanges"
  using thread_action.exhaust by metis

subsection \<open>Single steps\<close>

fun_cases apply_action_InrE: "apply_action s a = Inr s'"

lemma apply_action_rank:
  assumes "apply_action s a = Inr s'"
  shows "a \<noteq> RequestChanges \<Longrightarrow> state_rank s' = Suc (state_rank s)"
    and "a = RequestChanges \<Longrightarrow> s = InReview \<and> s' = Open"
  using assms by (auto elim: apply_action_InrE)

lemma apply_action_error:
  "apply_action s a = Inl e \<Longrightarrow> e = InvalidTransition s a"
  by (cases "(s, a)" rule: apply_action.cases) auto

text \<open>The action that made a step can be read off its end points.\<close>

lemma apply_action_inj:
  "apply_action s a = Inr s' \<Longrightarrow> apply_action s b = Inr s' \<Longrightarrow> a = b"
  by (auto elim!: apply_action_InrE)

subsection \<open>Runs\<close>

fun run :: "thread_state \<Rightarrow> thread_action list \<Rightarrow> invalid_transition + thread_state" where
  "run s [] = Inr s"
| "run s (a # as) = and_then (apply_action s a) (\<lambda>s'. run s' as)"

lemma run_append:
  "run s (as @ bs) = and_then (run s as) (\<lambda>s'. run s' bs)"
  by (induction as arbitrary: s) (auto split: sum.splits simp: and_then_Inr, case_tac "apply_action s a", auto)

lemma run_Archived: "run Archived as = Inr s \<Longrightarrow> as = [] \<and> s = Archived"
  by (cases as) auto

lemma run_Closed: "run Closed as = Inr s \<Longrightarrow> as = [] \<and> s = Closed \<or> as = [Archive] \<and> s = Archived"
  by (cases as) (auto simp: and_then_Inr elim!: apply_action_InrE dest: run_Archived)

text \<open>Every run from \<open>Open\<close> to a done state is any number of review rounds that were sent back,
  then one that closes.\<close>

fun rounds :: "nat \<Rightarrow> thread_action list" where
  "rounds 0 = []"
| "rounds (Suc n) = StartReview # RequestChanges # rounds n"

lemma run_rounds: "run Open (rounds n) = Inr Open"
  by (induction n) auto

lemma run_Open_shape:
  "run Open as = Inr s \<Longrightarrow>
   \<exists>n. as = rounds n @ (case s of Open \<Rightarrow> [] | InReview \<Rightarrow> [StartReview]
        | Closed \<Rightarrow> [StartReview, Close] | Archived \<Rightarrow> [StartReview, Close, Archive])"
proof (induction as arbitrary: s rule: induct_list012)
  case 1
  then show ?case by (intro exI [of _ 0]) auto
next
  case (2 x)
  then show ?case by (intro exI [of _ 0]) (auto simp: and_then_Inr elim!: apply_action_InrE)
next
  case (3 x y zs)
  from 3(3) obtain u where x: "x = StartReview" and y: "apply_action InReview y = Inr u"
    and zs: "run u zs = Inr s"
    by (auto simp: and_then_Inr elim!: apply_action_InrE)
  show ?case
  proof (cases y)
    case Close
    with y zs show ?thesis
      by (intro exI [of _ 0]) (auto simp: x dest!: run_Closed)
  next
    case RequestChanges
    with y zs have "run Open zs = Inr s" by simp
    from 3(1) [OF this] obtain n where "zs = rounds n @ (case s of Open \<Rightarrow> [] | InReview \<Rightarrow> [StartReview]
        | Closed \<Rightarrow> [StartReview, Close] | Archived \<Rightarrow> [StartReview, Close, Archive])" ..
    then show ?thesis by (intro exI [of _ "Suc n"]) (simp add: x RequestChanges)
  qed (use y in simp_all)
qed

lemma state_parse_as_str: "state_parse (state_as_str s) = Some s"
  by (cases s) (simp_all add: state_parse_def)

lemma state_parse_Some: "state_parse x = Some s \<longleftrightarrow> x = state_as_str s"
  by (cases s) (auto simp: state_parse_def)

lemma action_parse_Some:
  "action_parse x = Some a \<longleftrightarrow> a \<noteq> RequestChanges \<and> x = action_as_str a"
  by (cases a) (auto simp: action_parse_def)

text \<open>
  The lifecycle is exactly: some number of review rounds sent back to the worker, then one
  review that closes, then possibly the archive.  A thread reaches \<open>Closed\<close> only straight from
  \<open>InReview\<close>, and nothing leaves \<open>Archived\<close>.
\<close>

theorem lifecycle_shape:
  "run Open as = Inr s \<longleftrightarrow>
   (\<exists>n. as = rounds n @ (case s of Open \<Rightarrow> [] | InReview \<Rightarrow> [StartReview]
        | Closed \<Rightarrow> [StartReview, Close] | Archived \<Rightarrow> [StartReview, Close, Archive]))"
proof
  assume "\<exists>n. as = rounds n @ (case s of Open \<Rightarrow> [] | InReview \<Rightarrow> [StartReview]
        | Closed \<Rightarrow> [StartReview, Close] | Archived \<Rightarrow> [StartReview, Close, Archive])"
  then show "run Open as = Inr s"
    by (cases s) (auto simp: run_append run_rounds)
qed (rule run_Open_shape)

lemma closed_can_archive: "is_terminal Closed \<and> apply_action Closed Archive = Inr Archived"
  by simp

end
