(* ===== verification/Rust_Str.thy ===== *)
theory Rust_Str
  imports Maidan_Prelude
begin

text \<open>
  The part of Rust's \<open>str\<close> and \<open>char\<close> API the modelled code calls, on UTF-8 byte strings.
  Multi-byte characters matter in three places only: the White\_Space characters \<open>trim\<close> removes,
  the second block of control characters, and counting characters instead of bytes.  UTF-8 is
  self-synchronising, so a byte sequence that spells one of those characters is that character.
\<close>

abbreviation code :: "char \<Rightarrow> nat" where
  "code c \<equiv> of_char c"

subsection \<open>Prefixes, suffixes, splitting\<close>

definition starts_with :: "string \<Rightarrow> string \<Rightarrow> bool" where
  "starts_with s p \<longleftrightarrow> take (length p) s = p"

definition strip_prefix :: "string \<Rightarrow> string \<Rightarrow> string option" where
  "strip_prefix p s = (if starts_with s p then Some (drop (length p) s) else None)"

definition ends_with :: "string \<Rightarrow> string \<Rightarrow> bool" where
  "ends_with s p \<longleftrightarrow> starts_with (rev s) (rev p)"

definition strip_suffix :: "string \<Rightarrow> string \<Rightarrow> string option" where
  "strip_suffix p s = (if ends_with s p then Some (take (length s - length p) s) else None)"

definition trim_end_matches :: "char \<Rightarrow> string \<Rightarrow> string" where
  "trim_end_matches c s = rev (dropWhile (\<lambda>x. x = c) (rev s))"

definition split_once :: "char \<Rightarrow> string \<Rightarrow> (string \<times> string) option" where
  "split_once c s =
     (if c \<in> set s then Some (takeWhile (\<lambda>x. x \<noteq> c) s, tl (dropWhile (\<lambda>x. x \<noteq> c) s)) else None)"

fun split_on :: "char \<Rightarrow> string \<Rightarrow> string list" where
  "split_on c [] = [[]]"
| "split_on c (x # xs) =
     (if x = c then [] # split_on c xs
      else (case split_on c xs of y # ys \<Rightarrow> (x # y) # ys | [] \<Rightarrow> [[x]]))"

lemma starts_with_prefix [str_simps]: "starts_with s p \<longleftrightarrow> prefix p s"
  unfolding starts_with_def by (metis append_eq_conv_conj append_take_drop_id prefix_def)

lemma strip_prefix_Some [str_simps]: "strip_prefix p s = Some r \<longleftrightarrow> s = p @ r"
  by (auto simp: strip_prefix_def starts_with_prefix prefix_def)

lemma strip_prefix_None: "strip_prefix p s = None \<longleftrightarrow> \<not> prefix p s"
  by (auto simp: strip_prefix_def starts_with_prefix)

lemma ends_with_suffix [str_simps]: "ends_with s p \<longleftrightarrow> suffix p s"
  by (simp add: ends_with_def starts_with_prefix suffix_to_prefix)

lemma strip_suffix_Some [str_simps]: "strip_suffix p s = Some r \<longleftrightarrow> s = r @ p"
  by (auto simp: strip_suffix_def ends_with_suffix suffix_def)

lemma split_once_Some [str_simps]:
  "split_once c s = Some (a, b) \<longleftrightarrow> s = a @ c # b \<and> c \<notin> set a"
proof
  assume "split_once c s = Some (a, b)"
  then have c: "c \<in> set s" and a: "a = takeWhile (\<lambda>x. x \<noteq> c) s"
    and b: "b = tl (dropWhile (\<lambda>x. x \<noteq> c) s)"
    by (auto simp: split_once_def split: if_splits)
  have ne: "dropWhile (\<lambda>x. x \<noteq> c) s \<noteq> []" using c by (simp add: dropWhile_eq_Nil_conv)
  then have "dropWhile (\<lambda>x. x \<noteq> c) s = c # b"
    using b hd_dropWhile [OF ne] by (metis (mono_tags, lifting) list.collapse)
  then show "s = a @ c # b \<and> c \<notin> set a"
    using a by (metis (mono_tags, lifting) takeWhile_dropWhile_id set_takeWhileD)
next
  assume "s = a @ c # b \<and> c \<notin> set a"
  then show "split_once c s = Some (a, b)"
    by (auto simp: split_once_def takeWhile_append dropWhile_append)
qed

lemma split_once_None: "split_once c s = None \<longleftrightarrow> c \<notin> set s"
  by (simp add: split_once_def)

lemma split_on_nonempty [simp]: "split_on c s \<noteq> []"
  by (induction s) (auto split: list.splits)

lemma split_on_no_sep: "c \<notin> set s \<Longrightarrow> split_on c s = [s]"
  by (induction s) auto

lemma split_on_sep: "c \<notin> set a \<Longrightarrow> split_on c (a @ c # b) = a # split_on c b"
  by (induction a) auto

lemma split_on_parts: "p \<in> set (split_on c s) \<Longrightarrow> c \<notin> set p \<and> set p \<subseteq> set s"
proof (induction s arbitrary: p)
  case (Cons x xs)
  obtain y ys where ys: "split_on c xs = y # ys"
    by (meson neq_Nil_conv split_on_nonempty)
  then have y: "c \<notin> set y \<and> set y \<subseteq> set xs" using Cons.IH by simp
  show ?case
  proof (cases "p \<in> set (split_on c xs)")
    case True
    then show ?thesis using Cons.IH by auto
  next
    case False
    then show ?thesis using Cons.prems ys y by (auto split: if_splits)
  qed
qed simp

lemma set_trim_end_matches: "set (trim_end_matches c s) \<subseteq> set s"
  by (auto simp: trim_end_matches_def dest: set_dropWhileD)

lemma trim_end_matches_prefix: "prefix (trim_end_matches c s) s"
  unfolding trim_end_matches_def
  by (metis suffix_dropWhile suffix_to_prefix rev_rev_ident)

subsection \<open>ASCII case\<close>

definition ascii_lower :: "char \<Rightarrow> char" where
  "ascii_lower c = (if 65 \<le> code c \<and> code c \<le> 90 then char_of (code c + 32) else c)"

definition to_ascii_lowercase :: "string \<Rightarrow> string" where
  "to_ascii_lowercase s = map ascii_lower s"

definition is_ascii_upper :: "char \<Rightarrow> bool" where
  "is_ascii_upper c \<longleftrightarrow> 65 \<le> code c \<and> code c \<le> 90"

lemma code_less: "code c < 256"
  by (cases c) (simp add: of_char_def)

lemma ascii_lower_not_upper: "\<not> is_ascii_upper (ascii_lower c)"
  by (auto simp: is_ascii_upper_def ascii_lower_def)

lemma ascii_lower_idem [simp]: "ascii_lower (ascii_lower c) = ascii_lower c"
  using ascii_lower_not_upper [of c] by (simp add: is_ascii_upper_def ascii_lower_def)

lemma to_ascii_lowercase_idem [simp]:
  "to_ascii_lowercase (to_ascii_lowercase s) = to_ascii_lowercase s"
  by (simp add: to_ascii_lowercase_def)

lemma to_ascii_lowercase_no_upper: "c \<in> set (to_ascii_lowercase s) \<Longrightarrow> \<not> is_ascii_upper c"
  by (auto simp: to_ascii_lowercase_def ascii_lower_not_upper)

subsection \<open>Characters encoded in more than one byte\<close>

definition ascii_ws :: "char \<Rightarrow> bool" where
  "ascii_ws c \<longleftrightarrow> (9 \<le> code c \<and> code c \<le> 13) \<or> code c = 32"

definition ws2 :: "char \<Rightarrow> char \<Rightarrow> bool" where
  "ws2 a b \<longleftrightarrow> code a = 194 \<and> (code b = 133 \<or> code b = 160)"

definition ws3 :: "char \<Rightarrow> char \<Rightarrow> char \<Rightarrow> bool" where
  "ws3 a b c \<longleftrightarrow>
     code a = 225 \<and> code b = 154 \<and> code c = 128
   \<or> code a = 226 \<and> code b = 128 \<and> (128 \<le> code c \<and> code c \<le> 138 \<or> code c \<in> {168, 169, 175})
   \<or> code a = 226 \<and> code b = 129 \<and> code c = 159
   \<or> code a = 227 \<and> code b = 128 \<and> code c = 128"

text \<open>Bytes of the whitespace character a string starts with; 0 when it starts with another.\<close>

fun ws_len :: "(char \<Rightarrow> char \<Rightarrow> bool) \<Rightarrow> (char \<Rightarrow> char \<Rightarrow> char \<Rightarrow> bool) \<Rightarrow> string \<Rightarrow> nat" where
  "ws_len w2 w3 [] = 0"
| "ws_len w2 w3 [a] = (if ascii_ws a then 1 else 0)"
| "ws_len w2 w3 [a, b] = (if ascii_ws a then 1 else if w2 a b then 2 else 0)"
| "ws_len w2 w3 (a # b # c # s) =
     (if ascii_ws a then 1 else if w2 a b then 2 else if w3 a b c then 3 else 0)"

lemma ws_len_le: "ws_len w2 w3 s \<le> length s"
  by (cases "(w2, w3, s)" rule: ws_len.cases) auto

lemma ws_len_append: "ws_len w2 w3 s \<noteq> 0 \<Longrightarrow> ws_len w2 w3 (s @ t) \<noteq> 0"
  by (cases "(w2, w3, s)" rule: ws_len.cases; cases t; cases "tl t")
    (auto split: if_splits)

function trim_by :: "(char \<Rightarrow> char \<Rightarrow> bool) \<Rightarrow> (char \<Rightarrow> char \<Rightarrow> char \<Rightarrow> bool) \<Rightarrow> string \<Rightarrow> string" where
  "trim_by w2 w3 s =
     (if ws_len w2 w3 s = 0 then s else trim_by w2 w3 (drop (ws_len w2 w3 s) s))"
  by auto
termination
proof (relation "measure (\<lambda>(w2, w3, s). length s)")
  fix w2 w3 and s :: string
  assume "ws_len w2 w3 s \<noteq> 0"
  then show "((w2, w3, drop (ws_len w2 w3 s) s), w2, w3, s) \<in> measure (\<lambda>(w2, w3, s). length s)"
    using ws_len_le [of w2 w3 s] by (cases s) auto
qed simp

declare trim_by.simps [simp del]

definition trim_start :: "string \<Rightarrow> string" where
  "trim_start s = trim_by ws2 ws3 s"

definition trim_end :: "string \<Rightarrow> string" where
  "trim_end s = rev (trim_by (\<lambda>a b. ws2 b a) (\<lambda>a b c. ws3 c b a) (rev s))"

definition trim :: "string \<Rightarrow> string" where
  "trim s = trim_end (trim_start s)"

lemma trim_by_suffix: "suffix (trim_by w2 w3 s) s"
proof (induction w2 w3 s rule: trim_by.induct)
  case (1 w2 w3 s)
  then show ?case
    by (subst trim_by.simps) (auto intro: suffix_order.trans [OF _ suffix_drop])
qed

lemma trim_by_stop: "ws_len w2 w3 (trim_by w2 w3 s) = 0"
proof (induction w2 w3 s rule: trim_by.induct)
  case (1 w2 w3 s)
  then show ?case
    by (subst trim_by.simps) auto
qed

lemma trim_by_fix: "ws_len w2 w3 s = 0 \<Longrightarrow> trim_by w2 w3 s = s"
  by (subst trim_by.simps) simp

lemma set_trim_by: "set (trim_by w2 w3 s) \<subseteq> set s"
  by (rule set_mono_suffix [OF trim_by_suffix])

lemma set_trim: "set (trim s) \<subseteq> set s"
  unfolding trim_def trim_end_def trim_start_def set_rev
  by (rule subset_trans [OF set_trim_by]) (simp add: set_trim_by)

lemma trim_end_prefix: "prefix (trim_end s) s"
  unfolding trim_end_def using trim_by_suffix
  by (metis rev_rev_ident suffix_to_prefix)

lemma trim_ws_len_start: "ws_len ws2 ws3 (trim s) = 0"
proof -
  obtain t where "trim_start s = trim s @ t"
    using trim_end_prefix [of "trim_start s"] by (auto simp: prefix_def trim_def)
  then show ?thesis
    using ws_len_append [of ws2 ws3 "trim s" t] trim_by_stop [of ws2 ws3 s]
    by (auto simp: trim_start_def)
qed

lemma trim_idem [simp]: "trim (trim s) = trim s"
proof -
  have "trim_start (trim s) = trim s"
    by (simp add: trim_start_def trim_by_fix trim_ws_len_start)
  moreover have "trim_end (trim s) = trim s"
    by (simp add: trim_def trim_end_def trim_by_fix trim_by_stop)
  ultimately show ?thesis
    by (simp add: trim_def [of "trim s"])
qed

text \<open>\<open>chars().count()\<close>, \<open>chars().any(char::is_whitespace)\<close>, \<open>chars().any(char::is_control)\<close>.\<close>

definition chars_count :: "string \<Rightarrow> nat" where
  "chars_count s = length (filter (\<lambda>c. \<not> (128 \<le> code c \<and> code c < 192)) s)"

fun any_whitespace :: "string \<Rightarrow> bool" where
  "any_whitespace [] = False"
| "any_whitespace (a # s) = (ws_len ws2 ws3 (a # s) \<noteq> 0 \<or> any_whitespace s)"

fun any_control :: "string \<Rightarrow> bool" where
  "any_control [] = False"
| "any_control (a # s) =
     (code a < 32 \<or> code a = 127
      \<or> code a = 194 \<and> (case s of b # _ \<Rightarrow> 128 \<le> code b \<and> code b < 160 | [] \<Rightarrow> False)
      \<or> any_control s)"

lemma chars_count_le: "chars_count s \<le> length s"
  by (simp add: chars_count_def)

lemma any_whitespace_ascii: "c \<in> set s \<Longrightarrow> ascii_ws c \<Longrightarrow> any_whitespace s"
proof (induction s)
  case (Cons a s)
  then show ?case
    by (cases "(ws2, ws3, a # s)" rule: ws_len.cases) auto
qed simp

lemma any_control_ascii: "c \<in> set s \<Longrightarrow> code c < 32 \<or> code c = 127 \<Longrightarrow> any_control s"
  by (induction s) auto

text \<open>ASCII lower-casing moves no byte into or out of the classes above.\<close>

lemma ascii_lower_keeps:
  "ascii_ws (ascii_lower c) = ascii_ws c"
  "128 \<le> code c \<Longrightarrow> ascii_lower c = c"
  "128 \<le> code (ascii_lower c) \<longleftrightarrow> 128 \<le> code c"
  by (auto simp: ascii_lower_def ascii_ws_def)

lemma ws2_lower [simp]: "ws2 (ascii_lower a) (ascii_lower b) = ws2 a b"
  by (auto simp: ws2_def ascii_lower_def)

lemma ws3_lower [simp]: "ws3 (ascii_lower a) (ascii_lower b) (ascii_lower c) = ws3 a b c"
  by (simp add: ws3_def ascii_lower_def)

lemma ws_len_lower:
  assumes "\<And>a b. w2 (ascii_lower a) (ascii_lower b) = w2 a b"
    and "\<And>a b c. w3 (ascii_lower a) (ascii_lower b) (ascii_lower c) = w3 a b c"
  shows "ws_len w2 w3 (map ascii_lower s) = ws_len w2 w3 s"
  by (cases "(w2, w3, s)" rule: ws_len.cases) (auto simp: assms ascii_lower_keeps)

lemma trim_by_lower:
  assumes "\<And>a b. w2 (ascii_lower a) (ascii_lower b) = w2 a b"
    and "\<And>a b c. w3 (ascii_lower a) (ascii_lower b) (ascii_lower c) = w3 a b c"
  shows "trim_by w2 w3 (map ascii_lower s) = map ascii_lower (trim_by w2 w3 s)"
  using assms
proof (induction w2 w3 s rule: trim_by.induct)
  case (1 w2 w3 s)
  have len: "ws_len w2 w3 (map ascii_lower s) = ws_len w2 w3 s"
    using 1(2,3) by (rule ws_len_lower)
  show ?case
    by (subst (1 2) trim_by.simps) (simp add: len 1 drop_map)
qed

lemma trim_lower: "trim (to_ascii_lowercase s) = to_ascii_lowercase (trim s)"
  unfolding trim_def trim_start_def trim_end_def to_ascii_lowercase_def
  by (simp add: trim_by_lower rev_map)

text \<open>A string without whitespace is its own trim.\<close>

lemma any_whitespace_append:
  "any_whitespace v \<Longrightarrow> any_whitespace (u @ v)"
  by (induction u) auto

lemma ws_len_any: "ws_len ws2 ws3 s \<noteq> 0 \<Longrightarrow> any_whitespace s"
  by (cases s) auto

lemma ws_len_rev_any:
  assumes "ws_len (\<lambda>a b. ws2 b a) (\<lambda>a b c. ws3 c b a) (rev s) \<noteq> 0"
  shows "any_whitespace s"
proof -
  have "any_whitespace (rev t)" if "ws_len (\<lambda>a b. ws2 b a) (\<lambda>a b c. ws3 c b a) t \<noteq> 0" for t
    using that
    by (cases "(\<lambda>a b. ws2 b a, \<lambda>a b c. ws3 c b a, t)" rule: ws_len.cases)
      (auto split: if_splits intro!: any_whitespace_append)
  from this [OF assms] show ?thesis by simp
qed

lemma trim_no_whitespace: "\<not> any_whitespace s \<Longrightarrow> trim s = s"
  using ws_len_any [of s] ws_len_rev_any [of s]
    trim_by_fix [of ws2 ws3 s] trim_by_fix [of "\<lambda>a b. ws2 b a" "\<lambda>a b c. ws3 c b a" "rev s"]
  unfolding trim_def trim_start_def trim_end_def by fastforce

text \<open>Whitespace of a concatenation with an ASCII string.\<close>

abbreviation ascii :: "string \<Rightarrow> bool" where
  "ascii s \<equiv> \<forall>c \<in> set s. code c < 128"

lemma ws_len_ascii_head:
  "code a < 128 \<Longrightarrow> ws_len ws2 ws3 (a # s) = (if ascii_ws a then 1 else 0)"
  by (cases "(ws2, ws3, a # s)" rule: ws_len.cases) (auto simp: ws2_def ws3_def)

lemma any_whitespace_ascii_append:
  "ascii u \<Longrightarrow> any_whitespace (u @ v) \<longleftrightarrow> any_whitespace u \<or> any_whitespace v"
  by (induction u) (auto simp: ws_len_ascii_head)

lemma any_whitespace_ascii_iff: "ascii s \<Longrightarrow> any_whitespace s \<longleftrightarrow> (\<exists>c \<in> set s. ascii_ws c)"
  by (induction s) (auto simp: ws_len_ascii_head)

lemma ws_len_append_ascii:
  "ascii v \<Longrightarrow> s \<noteq> [] \<Longrightarrow> ws_len ws2 ws3 (s @ v) \<noteq> 0 \<longleftrightarrow> ws_len ws2 ws3 s \<noteq> 0"
  by (cases "(ws2, ws3, s)" rule: ws_len.cases; cases v; cases "tl v")
    (auto simp: ws2_def ws3_def)

lemma any_whitespace_append_ascii:
  assumes "ascii v"
  shows "any_whitespace (u @ v) \<longleftrightarrow> any_whitespace u \<or> any_whitespace v"
proof (induction u)
  case (Cons a u)
  have "ws_len ws2 ws3 (a # u @ v) \<noteq> 0 \<longleftrightarrow> ws_len ws2 ws3 (a # u) \<noteq> 0"
    using ws_len_append_ascii [OF assms, of "a # u"] by simp
  with Cons show ?case by auto
qed simp

lemma any_whitespace_lower: "any_whitespace (to_ascii_lowercase s) = any_whitespace s"
proof (induction s)
  case (Cons a s)
  have "ws_len ws2 ws3 (map ascii_lower (a # s)) = ws_len ws2 ws3 (a # s)"
    by (rule ws_len_lower) simp_all
  with Cons show ?case by (simp add: to_ascii_lowercase_def)
qed (simp add: to_ascii_lowercase_def)

end
