(* ===== verification/Footprint_Types.thy ===== *)
theory Footprint_Types
  imports Rust_Str
begin

text \<open>
  \<open>crates/maidan-types/src/footprint.rs\<close>: what a thread declares it will touch, and the
  normalisation that makes two declarations comparable.  The messages of the \<open>Err(String)\<close>
  returns are the constructors of \<open>footprint_error\<close>.
\<close>

definition FOOTPRINT_MAX_ITEMS :: nat where
  "FOOTPRINT_MAX_ITEMS = 200"

definition VALUE_MAX_CHARS :: nat where
  "VALUE_MAX_CHARS = 512"

definition REPO_MAX_CHARS :: nat where
  "REPO_MAX_CHARS = 200"

datatype footprint_mode = Exclusive | Shared

fun mode_as_str :: "footprint_mode \<Rightarrow> string" where
  "mode_as_str Exclusive = ''exclusive''"
| "mode_as_str Shared = ''shared''"

definition mode_parse :: "string \<Rightarrow> footprint_mode option" where
  "mode_parse s =
     (if s = ''exclusive'' then Some Exclusive
      else if s = ''shared'' then Some Shared
      else None)"

datatype footprint_kind = Path | Glob | Crate | Lane | Branch | Slot

fun kind_as_str :: "footprint_kind \<Rightarrow> string" where
  "kind_as_str Path = ''path''"
| "kind_as_str Glob = ''glob''"
| "kind_as_str Crate = ''crate''"
| "kind_as_str Lane = ''lane''"
| "kind_as_str Branch = ''branch''"
| "kind_as_str Slot = ''slot''"

definition kind_parse :: "string \<Rightarrow> footprint_kind option" where
  "kind_parse s =
     (if s = ''path'' then Some Path
      else if s = ''glob'' then Some Glob
      else if s = ''crate'' then Some Crate
      else if s = ''lane'' then Some Lane
      else if s = ''branch'' then Some Branch
      else if s = ''slot'' then Some Slot
      else None)"

fun kind_namespace :: "footprint_kind \<Rightarrow> string" where
  "kind_namespace Path = ''path''"
| "kind_namespace Glob = ''path''"
| "kind_namespace other = kind_as_str other"

record footprint_item =
  fi_kind :: footprint_kind
  fi_value :: string

fun strip_root :: "string \<Rightarrow> string" where
  "strip_root [] = []"
| "strip_root (a # s) =
     (if a = CHR ''.'' \<and> starts_with s ''/'' then strip_root (drop 1 s)
      else if a = CHR ''/'' then strip_root s
      else a # s)"

definition item_key :: "footprint_item \<Rightarrow> string" where
  "item_key it =
     (case fi_kind it of
        Path \<Rightarrow> strip_root (fi_value it)
      | Glob \<Rightarrow> takeWhile (\<lambda>c. c \<notin> set ''*?[{'') (strip_root (fi_value it))
      | _ \<Rightarrow> fi_value it)"

datatype footprint_error =
    BadRepo
  | TooManyItems
  | ValueTooLong
  | ValueHasControl
  | NeedsValue footprint_kind
  | LeavesRepository
  | SlotNeedsName
  | BadSlotName

subsection \<open>Repositories\<close>

definition repo_prefixes :: "string list" where
  "repo_prefixes =
     [''https://github.com/'', ''http://github.com/'', ''ssh://git@github.com/'',
      ''git@github.com:'', ''github.com/'']"

text \<open>The loop that strips the first prefix that matches and breaks.\<close>

fun strip_first_prefix :: "string list \<Rightarrow> string \<Rightarrow> string" where
  "strip_first_prefix [] repo = repo"
| "strip_first_prefix (p # ps) repo =
     (case strip_prefix p repo of Some rest \<Rightarrow> rest | None \<Rightarrow> strip_first_prefix ps repo)"

definition repo_valid :: "string \<Rightarrow> bool" where
  "repo_valid repo \<longleftrightarrow>
     repo \<noteq> []
   \<and> chars_count repo \<le> REPO_MAX_CHARS
   \<and> (case split_once (CHR ''/'') repo of
        None \<Rightarrow> False
      | Some (owner, name) \<Rightarrow> owner \<noteq> [] \<and> name \<noteq> [] \<and> CHR ''/'' \<notin> set name)
   \<and> \<not> any_whitespace repo \<and> \<not> any_control repo
   \<and> (\<forall>c \<in> set repo. c \<notin> set ''?#:'')"

definition normalize_repo :: "string \<Rightarrow> footprint_error + string" where
  "normalize_repo raw =
     (let repo = to_ascii_lowercase (trim raw);
          repo = strip_first_prefix repo_prefixes repo;
          repo = trim_end_matches (CHR ''/'') repo;
          repo = (case strip_suffix ''.git'' repo of Some r \<Rightarrow> r | None \<Rightarrow> repo)
      in if repo_valid repo then Inr repo else Inl BadRepo)"

subsection \<open>Footprints\<close>

record footprint =
  fp_repo :: string
  fp_mode :: footprint_mode
  fp_items :: "footprint_item list"

definition check_item :: "footprint_item \<Rightarrow> footprint_error + footprint_item" where
  "check_item it0 =
     (let it1 = it0\<lparr>fi_value := trim (fi_value it0)\<rparr>;
          it = (if fi_kind it1 = Slot then it1\<lparr>fi_value := to_ascii_lowercase (fi_value it1)\<rparr> else it1)
      in if chars_count (fi_value it) > VALUE_MAX_CHARS then Inl ValueTooLong
         else if any_control (fi_value it) then Inl ValueHasControl
         else if fi_value it = [] \<or> (fi_kind it \<noteq> Glob \<and> item_key it = [])
           then Inl (NeedsValue (fi_kind it))
         else if fi_kind it \<in> {Path, Glob} \<and> ''..'' \<in> set (split_on (CHR ''/'') (fi_value it))
           then Inl LeavesRepository
         else Inr it)"

fun check_items :: "footprint_item list \<Rightarrow> footprint_error + footprint_item list" where
  "check_items [] = Inr []"
| "check_items (it # its) =
     and_then (check_item it) (\<lambda>it'. and_then (check_items its) (\<lambda>its'. Inr (it' # its')))"

text \<open>\<open>retain(|item| seen.insert(item.clone()))\<close>: the first of each item stays.\<close>

fun retain_new :: "'a list \<Rightarrow> 'a list \<Rightarrow> 'a list" where
  "retain_new seen [] = []"
| "retain_new seen (x # xs) =
     (if x \<in> set seen then retain_new seen xs else x # retain_new (x # seen) xs)"

definition footprint_validated :: "footprint \<Rightarrow> footprint_error + footprint" where
  "footprint_validated fp =
     and_then (normalize_repo (fp_repo fp)) (\<lambda>repo.
     if length (fp_items fp) > FOOTPRINT_MAX_ITEMS then Inl TooManyItems
     else and_then (check_items (fp_items fp)) (\<lambda>its.
       Inr (fp\<lparr>fp_repo := repo, fp_items := retain_new [] its\<rparr>)))"

definition normalize_slot :: "string \<Rightarrow> footprint_error + string" where
  "normalize_slot raw =
     (let slot = to_ascii_lowercase (trim raw)
      in if slot = [] then Inl SlotNeedsName
         else if chars_count slot > VALUE_MAX_CHARS \<or> any_control slot then Inl BadSlotName
         else Inr slot)"

datatype deferral_reason = Overlap | RepoPaused | SlotFull

subsection \<open>Names\<close>

lemma mode_parse_Some: "mode_parse s = Some m \<longleftrightarrow> s = mode_as_str m"
  by (cases m) (auto simp: mode_parse_def)

lemma kind_parse_Some: "kind_parse s = Some k \<longleftrightarrow> s = kind_as_str k"
  by (cases k) (auto simp: kind_parse_def)

lemma kind_namespace_slot [simp]: "kind_namespace k = ''slot'' \<longleftrightarrow> k = Slot"
  by (cases k) auto

subsection \<open>Items\<close>

lemma strip_root_suffix: "suffix (strip_root s) s"
proof (induction s rule: strip_root.induct)
  case (2 a s)
  show ?case
  proof (cases "a = CHR ''.'' \<and> starts_with s ''/''")
    case True
    then have "suffix (strip_root (drop 1 s)) (drop 1 s)" by (rule 2(1))
    then have "suffix (strip_root (drop 1 s)) (a # s)"
      by (meson suffix_ConsI suffix_drop suffix_order.trans)
    with True show ?thesis by simp
  next
    case False
    with 2(2) show ?thesis by (auto intro: suffix_ConsI)
  qed
qed simp

lemma strip_root_stop:
  "\<not> prefix ''/'' (strip_root s) \<and> \<not> prefix ''./'' (strip_root s)"
  by (induction s rule: strip_root.induct) (auto simp: starts_with_prefix)

lemma strip_root_fix:
  "\<not> prefix ''/'' s \<Longrightarrow> \<not> prefix ''./'' s \<Longrightarrow> strip_root s = s"
  by (cases s) (auto simp: starts_with_prefix)

lemma strip_root_idem [simp]: "strip_root (strip_root s) = strip_root s"
  using strip_root_stop strip_root_fix by blast

text \<open>What a stored item satisfies.\<close>

definition item_ok :: "footprint_item \<Rightarrow> bool" where
  "item_ok it \<longleftrightarrow>
     fi_value it \<noteq> [] \<and> trim (fi_value it) = fi_value it
   \<and> chars_count (fi_value it) \<le> VALUE_MAX_CHARS \<and> \<not> any_control (fi_value it)
   \<and> (fi_kind it \<noteq> Glob \<longrightarrow> item_key it \<noteq> [])
   \<and> (fi_kind it = Slot \<longrightarrow> to_ascii_lowercase (fi_value it) = fi_value it)
   \<and> (fi_kind it \<in> {Path, Glob} \<longrightarrow> ''..'' \<notin> set (split_on (CHR ''/'') (fi_value it)))"

lemma check_item_ok: "check_item it = Inr it' \<Longrightarrow> item_ok it'"
  by (auto simp: check_item_def item_ok_def Let_def trim_lower split: if_splits)

lemma check_item_fix: "item_ok it \<Longrightarrow> check_item it = Inr it"
  by (auto simp: check_item_def item_ok_def Let_def)

lemma check_items_iff:
  "check_items its = Inr its' \<longleftrightarrow> list_all2 (\<lambda>a b. check_item a = Inr b) its its'"
  by (induction its arbitrary: its') (auto simp: and_then_Inr list_all2_Cons1)

lemma check_items_ok: "check_items its = Inr its' \<Longrightarrow> list_all item_ok its'"
  by (auto simp: check_items_iff list_all2_conv_all_nth list_all_length intro: check_item_ok)

lemma set_retain_new: "set (retain_new seen xs) = set xs - set seen"
  by (induction xs arbitrary: seen) auto

lemma distinct_retain_new: "distinct (retain_new seen xs)"
  by (induction xs arbitrary: seen) (auto simp: set_retain_new)

lemma length_retain_new: "length (retain_new seen xs) \<le> length xs"
  by (induction xs arbitrary: seen) (auto intro: le_SucI)

lemma retain_new_fix: "distinct xs \<Longrightarrow> set xs \<inter> set seen = {} \<Longrightarrow> retain_new seen xs = xs"
  by (induction xs arbitrary: seen) auto

subsection \<open>Repository spellings\<close>

lemma set_strip_first_prefix: "set (strip_first_prefix ps s) \<subseteq> set s"
  by (induction ps) (auto simp: strip_prefix_def split: option.splits if_splits dest: in_set_dropD)

lemma set_strip_suffix: "strip_suffix p s = Some r \<Longrightarrow> set r \<subseteq> set s"
  by (auto simp: strip_suffix_Some)

lemma normalize_repo_sound:
  assumes "normalize_repo raw = Inr r"
  shows "repo_valid r" and "\<forall>c \<in> set r. \<not> is_ascii_upper c"
proof -
  define a where "a = strip_first_prefix repo_prefixes (to_ascii_lowercase (trim raw))"
  define b where "b = trim_end_matches (CHR ''/'') a"
  have r: "r = (case strip_suffix ''.git'' b of Some r \<Rightarrow> r | None \<Rightarrow> b)" and "repo_valid r"
    using assms unfolding normalize_repo_def Let_def a_def [symmetric] b_def [symmetric]
    by (simp_all split: if_splits)
  then show "repo_valid r" by simp
  have "set r \<subseteq> set b" using r set_strip_suffix by (auto split: option.splits)
  also have "\<dots> \<subseteq> set a" unfolding b_def by (rule set_trim_end_matches)
  also have "\<dots> \<subseteq> set (to_ascii_lowercase (trim raw))" unfolding a_def by (rule set_strip_first_prefix)
  finally show "\<forall>c \<in> set r. \<not> is_ascii_upper c"
    using to_ascii_lowercase_no_upper by blast
qed

lemma repo_valid_shape:
  assumes "repo_valid r"
  obtains owner name where "r = owner @ ''/'' @ name" "owner \<noteq> []" "name \<noteq> []"
    "CHR ''/'' \<notin> set owner" "CHR ''/'' \<notin> set name"
proof -
  obtain owner name where "split_once (CHR ''/'') r = Some (owner, name)"
    and "owner \<noteq> []" "name \<noteq> []" "CHR ''/'' \<notin> set name"
    using assms by (cases "split_once (CHR ''/'') r") (auto simp: repo_valid_def)
  then show thesis using that by (simp add: split_once_Some)
qed

text \<open>Every accepted spelling of one repository: a prefix, the name, perhaps \<open>.git\<close>, perhaps
  slashes at the end.\<close>

lemma strip_first_prefix_hit:
  assumes "p \<in> set ps" and "\<forall>q \<in> set ps. q \<noteq> p \<longrightarrow> \<not> prefix q p \<and> \<not> prefix p q"
  shows "strip_first_prefix ps (p @ r) = r"
  using assms
proof (induction ps)
  case (Cons q ps)
  show ?case
  proof (cases "q = p")
    case True
    then show ?thesis by (simp add: strip_prefix_def starts_with_prefix)
  next
    case False
    then have "\<not> prefix q (p @ r)"
      using Cons.prems(2) by (auto simp: prefix_append)
    then have "strip_prefix q (p @ r) = None" by (simp add: strip_prefix_None)
    with False Cons show ?thesis by auto
  qed
qed simp

lemma strip_first_prefix_miss:
  "\<forall>q \<in> set ps. \<not> prefix q r \<Longrightarrow> strip_first_prefix ps r = r"
  by (induction ps) (auto simp: strip_prefix_None [THEN iffD2])

lemma repo_prefixes_apart:
  "\<forall>p \<in> set repo_prefixes. \<forall>q \<in> set repo_prefixes. q \<noteq> p \<longrightarrow> \<not> prefix q p \<and> \<not> prefix p q"
  by (simp add: repo_prefixes_def)

lemma trim_end_matches_replicate:
  assumes "s \<noteq> []" "last s \<noteq> c"
  shows "trim_end_matches c (s @ replicate n c) = s"
proof -
  have "dropWhile (\<lambda>x. x = c) (replicate n c @ rev s) = dropWhile (\<lambda>x. x = c) (rev s)"
    by (induction n) auto
  also have "\<dots> = rev s"
    using assms by (cases s rule: rev_cases) auto
  finally show ?thesis by (simp add: trim_end_matches_def)
qed

lemma repo_valid_last: "repo_valid r \<Longrightarrow> r \<noteq> [] \<and> last r \<noteq> CHR ''/''"
  by (erule repo_valid_shape) (use last_in_set in fastforce)

lemma repo_tail:
  assumes "repo_valid r" "\<not> suffix ''.git'' r" "g = [] \<or> g = ''.git''"
  shows "(let b = trim_end_matches (CHR ''/'') (r @ g @ replicate n (CHR ''/''))
          in case strip_suffix ''.git'' b of Some q \<Rightarrow> q | None \<Rightarrow> b) = r"
proof -
  have b: "trim_end_matches (CHR ''/'') ((r @ g) @ replicate n (CHR ''/'')) = r @ g"
    using assms repo_valid_last [of r] by (intro trim_end_matches_replicate) auto
  have "strip_suffix ''.git'' r = None"
    using assms(2) by (simp add: strip_suffix_def ends_with_suffix)
  moreover have "strip_suffix ''.git'' (r @ ''.git'') = Some r"
    by (simp only: strip_suffix_Some)
  ultimately show ?thesis
    using assms(3) b by (auto simp: Let_def)
qed

lemma repo_prefixes_plain: "\<forall>p \<in> set repo_prefixes. ascii p \<and> \<not> any_whitespace p"
  by code_simp

lemma repo_not_in_prefix:
  "q \<in> set repo_prefixes \<Longrightarrow> repo_valid r \<Longrightarrow> \<not> prefix r q"
proof -
  have "\<forall>q \<in> set repo_prefixes. \<forall>r \<in> set (prefixes q). \<not> repo_valid r"
    by code_simp
  then show "q \<in> set repo_prefixes \<Longrightarrow> repo_valid r \<Longrightarrow> \<not> prefix r q"
    by auto
qed

text \<open>
  C35: A footprint that passes validation names a repository as lower-case \<open>owner/name\<close> with no
  whitespace, lists at most 200 items, none twice, and every item is trimmed, non-empty, free of
  control characters, inside the repository, and compared by a non-empty key unless it is a
  glob.  Checking the stored items again changes nothing.
\<close>

theorem footprint_validated_wf:
  assumes "footprint_validated fp = Inr fp'"
  shows "repo_valid (fp_repo fp') \<and> (\<forall>c \<in> set (fp_repo fp'). \<not> is_ascii_upper c)
    \<and> fp_mode fp' = fp_mode fp
    \<and> length (fp_items fp') \<le> FOOTPRINT_MAX_ITEMS \<and> distinct (fp_items fp')
    \<and> list_all item_ok (fp_items fp')
    \<and> check_items (fp_items fp') = Inr (fp_items fp')"
proof -
  obtain repo its where repo: "normalize_repo (fp_repo fp) = Inr repo"
    and len: "length (fp_items fp) \<le> FOOTPRINT_MAX_ITEMS"
    and its: "check_items (fp_items fp) = Inr its"
    and fp': "fp' = fp\<lparr>fp_repo := repo, fp_items := retain_new [] its\<rparr>"
    using assms by (auto simp: footprint_validated_def and_then_Inr split: if_splits)
  have "length its = length (fp_items fp)"
    using its by (simp add: check_items_iff list_all2_lengthD)
  then have "length (retain_new [] its) \<le> FOOTPRINT_MAX_ITEMS"
    using length_retain_new [of "[]" its] len by simp
  moreover have ok: "list_all item_ok (retain_new [] its)"
    using check_items_ok [OF its] by (simp add: list_all_iff set_retain_new)
  moreover have "check_items (retain_new [] its) = Inr (retain_new [] its)"
    using ok by (auto simp: check_items_iff list_all2_conv_all_nth list_all_length check_item_fix)
  ultimately show ?thesis
    using normalize_repo_sound [OF repo] by (simp add: fp' distinct_retain_new)
qed

theorem footprint_validated_wf_witness:
  "\<exists>fp'. footprint_validated \<lparr>fp_repo = ''git@github.com:Acme/Api.git'', fp_mode = Exclusive,
      fp_items = [\<lparr>fi_kind = Path, fi_value = '' ./src/lib.rs''\<rparr>, \<lparr>fi_kind = Slot, fi_value = ''Rust-Build''\<rparr>]\<rparr>
    = Inr fp' \<and> fp_repo fp' = ''acme/api'' \<and> list_all item_ok (fp_items fp')"
proof -
  let ?fp = "\<lparr>fp_repo = ''git@github.com:Acme/Api.git'', fp_mode = Exclusive,
      fp_items = [\<lparr>fi_kind = Path, fi_value = '' ./src/lib.rs''\<rparr>, \<lparr>fi_kind = Slot, fi_value = ''Rust-Build''\<rparr>]\<rparr>"
  let ?fp' = "\<lparr>fp_repo = ''acme/api'', fp_mode = Exclusive,
      fp_items = [\<lparr>fi_kind = Path, fi_value = ''./src/lib.rs''\<rparr>, \<lparr>fi_kind = Slot, fi_value = ''rust-build''\<rparr>]\<rparr>"
  have "footprint_validated ?fp = Inr ?fp'"
    by code_simp
  from this footprint_validated_wf [OF this] show ?thesis by auto
qed

text \<open>
  Every way a producer writes one repository normalises to the same \<open>owner/name\<close>: bare, or
  behind any of the GitHub prefixes, in any letter case, with or without \<open>.git\<close> and trailing
  slashes.  The name itself must not end in \<open>.git\<close> nor start like one of the prefixes.
\<close>

theorem normalize_repo_spellings:
  assumes r: "repo_valid r" "\<not> suffix ''.git'' r" "\<forall>q \<in> set repo_prefixes. \<not> prefix q r"
    and p: "p = [] \<or> p \<in> set repo_prefixes"
    and g: "g = [] \<or> g = ''.git''"
    and raw: "to_ascii_lowercase raw = p @ r @ g @ replicate n (CHR ''/'')"
  shows "normalize_repo raw = Inr r"
proof -
  let ?tail = "r @ g @ replicate n (CHR ''/'')"
  have pre: "ascii p" "\<not> any_whitespace p"
    using p repo_prefixes_plain by auto
  have post: "ascii (g @ replicate n (CHR ''/''))" using g by auto
  then have post': "\<not> any_whitespace (g @ replicate n (CHR ''/''))"
    using g by (subst any_whitespace_ascii_iff) (auto simp: ascii_ws_def)
  have "\<not> any_whitespace (p @ r @ g @ replicate n (CHR ''/''))"
    using pre post post' r(1) by (simp add: any_whitespace_ascii_append any_whitespace_append_ascii repo_valid_def)
  then have trim: "trim raw = raw"
    using any_whitespace_lower [of raw] raw by (simp add: trim_no_whitespace)
  have strip: "strip_first_prefix repo_prefixes (p @ ?tail) = ?tail"
  proof (cases "p = []")
    case True
    have "\<not> prefix q ?tail" if "q \<in> set repo_prefixes" for q
      using that r(3) repo_not_in_prefix [OF that r(1)] by (auto simp: prefix_append)
    with True show ?thesis by (simp add: strip_first_prefix_miss)
  next
    case False
    with p repo_prefixes_apart show ?thesis by (intro strip_first_prefix_hit) auto
  qed
  show ?thesis
    using repo_tail [OF r(1,2) g, of n] r(1)
    unfolding normalize_repo_def trim raw Let_def strip by simp
qed

theorem normalize_repo_spellings_witness:
  "normalize_repo ''SSH://git@GitHub.com/Acme/api.git//'' = Inr ''acme/api''"
proof -
  have "repo_valid ''acme/api''" by code_simp
  moreover have "\<not> suffix ''.git'' ''acme/api''" by (simp add: suffix_def append_eq_Cons_conv)
  moreover have "\<forall>q \<in> set repo_prefixes. \<not> prefix q ''acme/api''" by (simp add: repo_prefixes_def)
  moreover have "''ssh://git@github.com/'' = [] \<or> ''ssh://git@github.com/'' \<in> set repo_prefixes"
    by (simp add: repo_prefixes_def)
  moreover have "to_ascii_lowercase ''SSH://git@GitHub.com/Acme/api.git//''
    = ''ssh://git@github.com/'' @ ''acme/api'' @ ''.git'' @ replicate 2 (CHR ''/'')"
    by code_simp
  ultimately show ?thesis
    by (intro normalize_repo_spellings [where p = "''ssh://git@github.com/''" and g = "''.git''" and n = 2])
      simp_all
qed

end
