(* ===== verification/Rust_Num.thy ===== *)
theory Rust_Num
  imports Rust_Str "HOL-Library.Word"
begin

text \<open>
  Rust's integer formatting and parsing as the modelled code uses it: \<open>to_string\<close> of an \<open>i64\<close>,
  \<open>{:X}\<close> of a \<open>u64\<close> (\<open>to_radix\<close>), and \<open>u64::from_str_radix\<close>, which accepts one leading
  plus sign, refuses the empty string and refuses a value past the width.
\<close>

subsection \<open>Printing\<close>

definition upper_digit :: "nat \<Rightarrow> char" where
  "upper_digit k = ''0123456789ABCDEF'' ! k"

function to_radix :: "nat \<Rightarrow> nat \<Rightarrow> string" where
  "to_radix b n =
     (if b < 2 \<or> n < b then [upper_digit n] else to_radix b (n div b) @ [upper_digit (n mod b)])"
  by auto
termination
  by (relation "measure snd") auto

declare to_radix.simps [simp del]

definition i64_to_string :: "int \<Rightarrow> string" where
  "i64_to_string i = (if i < 0 then CHR ''-'' # to_radix 10 (nat (- i)) else to_radix 10 (nat i))"

subsection \<open>Parsing\<close>

text \<open>\<open>char::to_digit\<close> for a radix of at most 16.\<close>

definition to_digit :: "nat \<Rightarrow> char \<Rightarrow> nat option" where
  "to_digit b c =
     (let d = (if 48 \<le> code c \<and> code c \<le> 57 then code c - 48
               else if 97 \<le> code c \<and> code c \<le> 102 then code c - 87
               else if 65 \<le> code c \<and> code c \<le> 70 then code c - 55 else b)
      in if d < b then Some d else None)"

fun radix_loop :: "nat \<Rightarrow> nat \<Rightarrow> nat \<Rightarrow> string \<Rightarrow> nat option" where
  "radix_loop lim b acc [] = Some acc"
| "radix_loop lim b acc (c # cs) =
     (case to_digit b c of
        None \<Rightarrow> None
      | Some d \<Rightarrow> if lim \<le> acc * b + d then None else radix_loop lim b (acc * b + d) cs)"

definition u64_from_str_radix :: "nat \<Rightarrow> string \<Rightarrow> 64 word option" where
  "u64_from_str_radix b s =
     (let ds = (case s of c # cs \<Rightarrow> if c = CHR ''+'' then cs else s | [] \<Rightarrow> [])
      in if ds = [] then None else map_option of_nat (radix_loop (2 ^ 64) b 0 ds))"

subsection \<open>Printing then parsing\<close>

lemma less_16_cases:
  assumes "k < (16 :: nat)"
  shows "k \<in> {0, 1, 2, 3, 4, 5, 6, 7, 8, 9, 10, 11, 12, 13, 14, 15}"
  unfolding insert_iff empty_iff using assms by presburger

lemma to_digit_upper:
  assumes "b \<le> 16" "k < b"
  shows "to_digit b (upper_digit k) = Some k"
proof -
  have "k < 16" using assms by simp
  then show ?thesis
    using assms(2) less_16_cases [of k] by (auto simp: to_digit_def upper_digit_def)
qed

lemma to_radix_nonempty [simp]: "to_radix b n \<noteq> []"
  by (subst to_radix.simps) simp

lemma radix_loop_append:
  "radix_loop lim b acc (xs @ ys) =
     (case radix_loop lim b acc xs of None \<Rightarrow> None | Some m \<Rightarrow> radix_loop lim b m ys)"
  by (induction lim b acc xs rule: radix_loop.induct) (auto split: option.splits)

lemma radix_loop_to_radix:
  assumes "2 \<le> b" "b \<le> 16" "n < lim"
  shows "radix_loop lim b 0 (to_radix b n) = Some n"
  using assms
proof (induction b n rule: to_radix.induct)
  case (1 b n)
  show ?case
  proof (cases "n < b")
    case True
    then show ?thesis using 1 by (subst to_radix.simps) (simp add: to_digit_upper)
  next
    case False
    then have "n div b < lim" using 1 div_le_dividend [of n b] by linarith
    then have IH: "radix_loop lim b 0 (to_radix b (n div b)) = Some (n div b)"
      using 1 False by simp
    have "n mod b < b" using 1 by simp
    then have "to_digit b (upper_digit (n mod b)) = Some (n mod b)"
      using 1 by (simp add: to_digit_upper)
    then show ?thesis
      using 1 False by (subst to_radix.simps) (simp add: radix_loop_append IH)
  qed
qed

lemma to_radix_digits:
  assumes "2 \<le> b" "b \<le> 16" "c \<in> set (to_radix b n)"
  shows "\<exists>k < b. c = upper_digit k"
  using assms
proof (induction b n rule: to_radix.induct)
  case (1 b n)
  then show ?case
    using to_radix.simps [of b n] by (cases "n < b") (auto intro: exI [of _ "n mod b"])
qed

lemma upper_digit_code:
  assumes "k < 16"
  shows "48 \<le> code (upper_digit k) \<and> code (upper_digit k) \<le> 70"
  using less_16_cases [OF assms] by (auto simp: upper_digit_def)

lemma to_radix_codes:
  assumes "2 \<le> b" "b \<le> 16" "c \<in> set (to_radix b n)"
  shows "48 \<le> code c \<and> code c \<le> 70"
proof -
  obtain k where "k < b" "c = upper_digit k" using to_radix_digits [OF assms] by blast
  then show ?thesis using upper_digit_code [of k] assms(2) by simp
qed

lemma to_radix_inj:
  assumes "2 \<le> b" "b \<le> 16" "to_radix b m = to_radix b n"
  shows "m = n"
proof -
  have "radix_loop (m + n + 1) b 0 (to_radix b m) = Some m"
    "radix_loop (m + n + 1) b 0 (to_radix b n) = Some n"
    by (rule radix_loop_to_radix, use assms(1,2) in simp_all)+
  then show ?thesis using assms(3) by simp
qed

lemma i64_to_string_inj: "i64_to_string i = i64_to_string j \<Longrightarrow> i = j"
proof -
  have minus: "to_radix 10 n \<noteq> CHR ''-'' # s" for n s
    using to_radix_codes [of 10 "CHR ''-''" n] by force
  show "i64_to_string i = i64_to_string j \<Longrightarrow> i = j"
    using minus minus [symmetric] to_radix_inj [of 10]
    by (force simp: i64_to_string_def split: if_splits)
qed

lemma u64_from_str_radix_to_radix:
  assumes "2 \<le> b" "b \<le> 16" "n < 2 ^ 64"
  shows "u64_from_str_radix b (to_radix b n) = Some (of_nat n)"
proof -
  have "to_radix b n \<noteq> CHR ''+'' # s" for s
    using to_radix_codes [OF assms(1,2), of "CHR ''+''" n] by force
  then have "(case to_radix b n of c # cs \<Rightarrow> if c = CHR ''+'' then cs else to_radix b n | [] \<Rightarrow> [])
      = to_radix b n"
    by (auto split: list.splits)
  then show ?thesis
    using radix_loop_to_radix [OF assms(1,2), of n "2 ^ 64"] assms(3)
    by (simp add: u64_from_str_radix_def Let_def)
qed

end
