(* ===== verification/Hex_Codec.thy ===== *)
theory Hex_Codec
  imports Rust_Num
begin

text \<open>
  The hexadecimal codec of \<open>maidan-types/src/signed_export.rs\<close>, which digests, keys and signatures
  are written in.  A byte is an \<open>8 word\<close>, so the shifts and masks of the source stay shifts and
  masks.  Encoding then decoding is the identity; decoding accepts surrounding whitespace and
  either case.
\<close>

unbundle bit_operations_syntax

type_synonym byte = "8 word"

datatype export_error =
    JsonError string
  | InvalidHex
  | ForbiddenField string

definition hex_char :: "8 word \<Rightarrow> char" where
  "hex_char k = ''0123456789abcdef'' ! unat k"

fun hex_encode :: "byte list \<Rightarrow> string" where
  "hex_encode [] = []"
| "hex_encode (b # bs) = hex_char (drop_bit 4 b) # hex_char (b AND 15) # hex_encode bs"

definition hex_nibble :: "char \<Rightarrow> export_error + byte" where
  "hex_nibble c =
     (let b = (of_nat (code c) :: 8 word) in
      if 48 \<le> b \<and> b \<le> 57 then Inr (b - 48)
      else if 97 \<le> b \<and> b \<le> 102 then Inr (b - 97 + 10)
      else if 65 \<le> b \<and> b \<le> 70 then Inr (b - 65 + 10)
      else Inl InvalidHex)"

definition is_ascii_hexdigit :: "char \<Rightarrow> bool" where
  "is_ascii_hexdigit c \<longleftrightarrow>
     (48 \<le> code c \<and> code c \<le> 57) \<or> (97 \<le> code c \<and> code c \<le> 102) \<or> (65 \<le> code c \<and> code c \<le> 70)"

fun hex_pairs :: "string \<Rightarrow> export_error + byte list" where
  "hex_pairs (c # d # s) =
     and_then (hex_nibble c) (\<lambda>hi. and_then (hex_nibble d) (\<lambda>lo.
     and_then (hex_pairs s) (\<lambda>out. Inr ((push_bit 4 hi OR lo) # out))))"
| "hex_pairs _ = Inr []"

definition hex_decode :: "string \<Rightarrow> export_error + byte list" where
  "hex_decode s =
     (let trimmed = trim s in
      if odd (length trimmed) \<or> trimmed = [] then Inl InvalidHex
      else if \<not> list_all is_ascii_hexdigit trimmed then Inl InvalidHex
      else hex_pairs trimmed)"

subsection \<open>Encoding then decoding\<close>

lemma nibble_cases:
  assumes "(k :: 8 word) < 16"
  shows "k \<in> {0, 1, 2, 3, 4, 5, 6, 7, 8, 9, 10, 11, 12, 13, 14, 15}"
proof -
  have "unat k < 16" using assms by (simp add: word_less_nat_alt)
  then have "(of_nat (unat k) :: 8 word) \<in> of_nat ` {0, 1, 2, 3, 4, 5, 6, 7, 8, 9, 10, 11, 12, 13, 14, 15}"
    using less_16_cases by (intro imageI) blast
  then show ?thesis by simp
qed

lemma hex_nibble_char:
  assumes "k < 16"
  shows "hex_nibble (hex_char k) = Inr k"
  using nibble_cases [OF assms] unfolding insert_iff empty_iff
  by (elim disjE FalseE) (simp_all add: hex_nibble_def hex_char_def)

lemma hex_char_hexdigit:
  assumes "k < 16"
  shows "is_ascii_hexdigit (hex_char k)"
  using nibble_cases [OF assms] unfolding insert_iff empty_iff
  by (elim disjE FalseE) (simp_all add: is_ascii_hexdigit_def hex_char_def)

lemma high_nibble_less: "drop_bit 4 (b :: 8 word) < 16"
proof -
  have "unat b < 256" using unsigned_less [of b, where 'a = nat] by simp
  then show ?thesis
    unfolding word_less_nat_alt unat_drop_bit_eq drop_bit_nat_def
    by (simp add: less_mult_imp_div_less)
qed

lemma low_nibble_less: "(b :: 8 word) AND 15 < 16"
  using word_and_le1 [of b 15] by (simp add: word_le_nat_alt word_less_nat_alt)

lemma nibbles_join: "push_bit 4 (drop_bit 4 (b :: 8 word)) OR (b AND 15) = b"
proof -
  have mask: "b AND 15 = b AND mask 4" by (simp add: mask_eq_exp_minus_1)
  show ?thesis
    unfolding mask by (rule bit_eqI) (auto simp: bit_simps)
qed

lemma hex_pairs_encode: "hex_pairs (hex_encode bs) = Inr bs"
  by (induction bs)
    (simp_all add: hex_nibble_char high_nibble_less low_nibble_less nibbles_join)

lemma length_hex_encode [simp]: "length (hex_encode bs) = 2 * length bs"
  by (induction bs) simp_all

lemma hex_encode_hexdigits: "list_all is_ascii_hexdigit (hex_encode bs)"
  by (induction bs) (simp_all add: hex_char_hexdigit high_nibble_less low_nibble_less)

lemma hexdigit_ascii: "is_ascii_hexdigit c \<Longrightarrow> code c < 128 \<and> \<not> ascii_ws c"
  by (auto simp: is_ascii_hexdigit_def ascii_ws_def)

lemma trim_hexdigits:
  assumes "list_all is_ascii_hexdigit s"
  shows "trim s = s"
proof -
  have "\<forall>c \<in> set s. code c < 128" "\<forall>c \<in> set s. \<not> ascii_ws c"
    using assms hexdigit_ascii by (auto simp: list_all_iff)
  then show ?thesis by (simp add: trim_no_whitespace any_whitespace_ascii_iff)
qed

lemma hex_encode_Nil [simp]: "hex_encode bs = [] \<longleftrightarrow> bs = []"
  by (cases bs) simp_all

lemma hex_decode_encode: "bs \<noteq> [] \<Longrightarrow> hex_decode (hex_encode bs) = Inr bs"
  by (simp add: hex_decode_def trim_hexdigits hex_encode_hexdigits hex_pairs_encode Let_def)

lemma hex_encode_inj: "hex_encode as = hex_encode bs \<Longrightarrow> as = bs"
  using hex_pairs_encode by (metis sum.inject(2))

text \<open>Decoding fails on nothing else than the conditions it tests.\<close>

lemma hex_nibble_ok:
  assumes "is_ascii_hexdigit c"
  shows "is_ok (hex_nibble c)"
  using assms code_less [of c]
  by (auto simp: hex_nibble_def is_ascii_hexdigit_def word_le_nat_alt unat_of_nat Let_def)

lemma hex_pairs_ok: "list_all is_ascii_hexdigit s \<Longrightarrow> is_ok (hex_pairs s)"
proof (induction s rule: hex_pairs.induct)
  case (1 c d s)
  obtain hi lo out where "hex_nibble c = Inr hi" "hex_nibble d = Inr lo" "hex_pairs s = Inr out"
    using 1 hex_nibble_ok [of c] hex_nibble_ok [of d]
    by (fastforce simp: is_ok_iff)
  then show ?case by simp
qed simp_all

lemma hex_decode_ok:
  "is_ok (hex_decode s) \<longleftrightarrow> even (length (trim s)) \<and> trim s \<noteq> [] \<and> list_all is_ascii_hexdigit (trim s)"
  using hex_pairs_ok [of "trim s"] by (auto simp: hex_decode_def Let_def)

end
