(* ===== verification/Usage_Types.thy ===== *)
theory Usage_Types
  imports Hex_Codec
begin

text \<open>
  The economic side of a usage report: \<open>maidan-types/src/usage_ledger.rs\<close> and the per-row charge
  that \<open>maidan-store/src/usage_sql.rs\<close> writes as SQL.  Token counts, rates and charges are 64-bit
  integers; a charge is summed in 128 bits.  They are modelled as \<open>int\<close> with the checked operations
  written out, so that every overflow the code tests for is a branch here.  An error is the string
  the code returns.
\<close>

subsection \<open>Checked arithmetic\<close>

definition I64_MAX :: int where
  "I64_MAX = 9223372036854775807"

definition I128_MAX :: int where
  "I128_MAX = 170141183460469231731687303715884105727"

definition checked :: "int \<Rightarrow> int \<Rightarrow> int option" where
  "checked mx n = (if - mx - 1 \<le> n \<and> n \<le> mx then Some n else None)"

abbreviation checked_i64 :: "int \<Rightarrow> int option" where
  "checked_i64 \<equiv> checked I64_MAX"

abbreviation checked_i128 :: "int \<Rightarrow> int option" where
  "checked_i128 \<equiv> checked I128_MAX"

text \<open>\<open>try_fold(0, checked_add)\<close>.\<close>

fun try_sum :: "int \<Rightarrow> int \<Rightarrow> int list \<Rightarrow> int option" where
  "try_sum mx acc [] = Some acc"
| "try_sum mx acc (x # xs) = Option.bind (checked mx (acc + x)) (\<lambda>a. try_sum mx a xs)"

lemma checked_Some [simp]: "checked mx n = Some m \<longleftrightarrow> m = n \<and> - mx - 1 \<le> n \<and> n \<le> mx"
  by (auto simp: checked_def)

lemma try_sum_nonneg:
  assumes "\<forall>x \<in> set xs. 0 \<le> x" "0 \<le> acc" "acc \<le> mx"
  shows "try_sum mx acc xs = (if acc + sum_list xs \<le> mx then Some (acc + sum_list xs) else None)"
  using assms
proof (induction xs arbitrary: acc)
  case (Cons x xs)
  have nonneg: "0 \<le> sum_list xs" using Cons.prems(1) by (simp add: sum_list_nonneg)
  show ?case
  proof (cases "acc + x \<le> mx")
    case True
    then have c: "checked mx (acc + x) = Some (acc + x)" using Cons.prems by simp
    show ?thesis using Cons.IH [of "acc + x"] Cons.prems True by (simp add: c add.assoc)
  next
    case False
    then have "checked mx (acc + x) = None" by (simp add: checked_def)
    then show ?thesis using False nonneg by simp
  qed
qed simp

subsection \<open>Tokens and prices\<close>

record token_usage =
  tu_input :: int
  tu_output :: int
  tu_cache_read :: int
  tu_cache_write_5m :: int
  tu_cache_write_1h :: int

definition default_usage :: token_usage where
  "default_usage = \<lparr>tu_input = 0, tu_output = 0, tu_cache_read = 0, tu_cache_write_5m = 0, tu_cache_write_1h = 0\<rparr>"

definition quantities :: "token_usage \<Rightarrow> int list" where
  "quantities u =
     [tu_input u, tu_output u, tu_cache_read u, tu_cache_write_5m u, tu_cache_write_1h u]"

definition usage_checked :: "token_usage \<Rightarrow> string + unit" where
  "usage_checked u =
     (if list_ex (\<lambda>v. v < 0) (quantities u) then Inl ''token counts must be non-negative'' else Inr ())"

definition usage_fresh :: "token_usage \<Rightarrow> string + int" where
  "usage_fresh u =
     and_then (usage_checked u) (\<lambda>_.
     ok_or (try_sum I64_MAX 0 [tu_input u, tu_output u, tu_cache_write_5m u, tu_cache_write_1h u])
       ''token total overflow'')"

definition usage_prompt :: "token_usage \<Rightarrow> string + int" where
  "usage_prompt u =
     and_then (usage_checked u) (\<lambda>_.
     ok_or (try_sum I64_MAX 0 [tu_input u, tu_cache_read u, tu_cache_write_5m u, tu_cache_write_1h u])
       ''token total overflow'')"

record price_snapshot =
  pr_input :: int
  pr_output :: int
  pr_cache_read :: int
  pr_cache_write_5m :: int
  pr_cache_write_1h :: int

definition rates :: "price_snapshot \<Rightarrow> int list" where
  "rates p = [pr_input p, pr_output p, pr_cache_read p, pr_cache_write_5m p, pr_cache_write_1h p]"

text \<open>The numerator's fold: each line is a checked product, each step a checked sum.\<close>

fun charge_lines :: "int \<Rightarrow> (int \<times> int) list \<Rightarrow> int option" where
  "charge_lines tot [] = Some tot"
| "charge_lines tot ((q, r) # ls) =
     Option.bind (checked_i128 (q * r)) (\<lambda>line.
     Option.bind (checked_i128 (tot + line)) (\<lambda>t. charge_lines t ls))"

definition charge :: "int list \<Rightarrow> int list \<Rightarrow> string + int" where
  "charge qs rs =
     and_then (ok_or (charge_lines 0 (zip qs rs)) ''price calculation overflow'') (\<lambda>numerator.
     and_then (ok_or (checked_i128 (numerator + 999999)) ''price calculation overflow'') (\<lambda>n.
     ok_or (checked_i64 (n div 1000000)) ''USD charge overflow''))"

definition charge_usd_micros :: "price_snapshot \<Rightarrow> token_usage \<Rightarrow> string + int" where
  "charge_usd_micros p u =
     (if list_ex (\<lambda>r. r < 0) (rates p) then Inl ''price snapshot rates must be non-negative''
      else and_then (usage_checked u) (\<lambda>_. charge (quantities u) (rates p)))"

definition uncached_charge_usd_micros :: "price_snapshot \<Rightarrow> token_usage \<Rightarrow> string + int" where
  "uncached_charge_usd_micros p u =
     and_then (usage_prompt u) (\<lambda>input.
     charge_usd_micros p (default_usage\<lparr>tu_input := input, tu_output := tu_output u\<rparr>))"

text \<open>
  The same charge as the rollup's SQL computes it: \<open>ceil_micros\<close> over pairs of a quantity and a
  rate.  SQL's integer division and remainder truncate; on the non-negative columns they are
  \<open>div\<close> and \<open>mod\<close>.
\<close>

definition ceil_whole :: "(int \<times> int) list \<Rightarrow> int" where
  "ceil_whole terms =
     sum_list (map (\<lambda>(q, r). q * (r div 1000000) + (q div 1000000) * (r mod 1000000)) terms)"

definition ceil_rest :: "(int \<times> int) list \<Rightarrow> int" where
  "ceil_rest terms = sum_list (map (\<lambda>(q, r). (q mod 1000000) * (r mod 1000000)) terms)"

definition ceil_micros :: "(int \<times> int) list \<Rightarrow> int" where
  "ceil_micros terms = ceil_whole terms + (ceil_rest terms + 999999) div 1000000"

definition uncached_row :: "price_snapshot \<Rightarrow> token_usage \<Rightarrow> int" where
  "uncached_row p u =
     ceil_micros
       [(tu_input u + tu_cache_read u + tu_cache_write_5m u + tu_cache_write_1h u, pr_input p),
        (tu_output u, pr_output p)]"

definition lane_standard_row :: "price_snapshot \<Rightarrow> token_usage \<Rightarrow> int" where
  "lane_standard_row standard u =
     ceil_micros
       [(tu_input u, pr_input standard), (tu_output u, pr_output standard),
        (tu_cache_read u, pr_cache_read standard), (tu_cache_write_5m u, pr_cache_write_5m standard),
        (tu_cache_write_1h u, pr_cache_write_1h standard)]"

subsection \<open>Evidence\<close>

record usage_evidence =
  ev_provider :: "string option"
  ev_service_tier :: "string option"
  ev_batch :: bool
  ev_harness :: "string option"
  ev_harness_version :: "string option"
  ev_effort :: "string option"
  ev_cache_key :: "string option"
  ev_cache_miss_reason :: "string option"
  ev_pack_sha256 :: "string list"
  ev_standard_price :: "price_snapshot option"

definition check_len :: "string \<Rightarrow> string option \<Rightarrow> nat \<Rightarrow> string + unit" where
  "check_len name val mx =
     (case val of
        None \<Rightarrow> Inr ()
      | Some text \<Rightarrow>
          if mx < length text \<or> trim text = []
          then Inl (name @ '' must be 1..='' @ to_radix 10 mx @ '' bytes when set'') else Inr ())"

definition in_lane :: "usage_evidence \<Rightarrow> bool" where
  "in_lane e \<longleftrightarrow>
     ev_batch e
     \<or> (case ev_service_tier e of
          None \<Rightarrow> False
        | Some tier \<Rightarrow> to_ascii_lowercase (trim tier) \<in> {''batch'', ''flex''})"

definition evidence_validate :: "usage_evidence \<Rightarrow> string + unit" where
  "evidence_validate e =
     and_then (check_len ''provider'' (ev_provider e) 64) (\<lambda>_.
     and_then (check_len ''service_tier'' (ev_service_tier e) 64) (\<lambda>_.
     and_then (check_len ''harness'' (ev_harness e) 64) (\<lambda>_.
     and_then (check_len ''harness_version'' (ev_harness_version e) 64) (\<lambda>_.
     and_then (check_len ''effort'' (ev_effort e) 32) (\<lambda>_.
     and_then (check_len ''cache_key'' (ev_cache_key e) 256) (\<lambda>_.
     and_then (check_len ''cache_miss_reason'' (ev_cache_miss_reason e) 512) (\<lambda>_.
     if 32 < length (ev_pack_sha256 e) then Inl ''at most 32 pack sha256 values''
     else if list_ex (\<lambda>sha. length sha \<noteq> 64 \<or> \<not> list_all is_ascii_hexdigit sha) (ev_pack_sha256 e)
       then Inl ''pack_sha256 entries must be 64 hex characters''
     else (case ev_standard_price e of
             None \<Rightarrow> Inr ()
           | Some standard \<Rightarrow>
               if \<not> in_lane e
               then Inl ''standard_price is for a call in a cheaper lane: set batch, or a batch or flex service_tier''
               else and_then (charge_usd_micros standard default_usage) (\<lambda>_. Inr ())))))))))"

text \<open>\<open>overlay\<close>: an explicit field wins over an inferred one.\<close>

definition overlay :: "usage_evidence \<Rightarrow> usage_evidence \<Rightarrow> usage_evidence" where
  "overlay e x =
     (let pick = (\<lambda>f. if f x \<noteq> None then f x else f e) in
      \<lparr>ev_provider = pick ev_provider,
       ev_service_tier = pick ev_service_tier,
       ev_batch = (if ev_batch x then True else ev_batch e),
       ev_harness = pick ev_harness,
       ev_harness_version = pick ev_harness_version,
       ev_effort = pick ev_effort,
       ev_cache_key = pick ev_cache_key,
       ev_cache_miss_reason = pick ev_cache_miss_reason,
       ev_pack_sha256 = (if ev_pack_sha256 x \<noteq> [] then ev_pack_sha256 x else ev_pack_sha256 e),
       ev_standard_price = (if ev_standard_price x \<noteq> None then ev_standard_price x else ev_standard_price e)\<rparr>)"

subsection \<open>Reports\<close>

record payer_stamp =
  ps_payer :: workspace_id
  ps_reporter :: member_id
  ps_lease :: lease_id
  ps_model :: string
  ps_tokens :: token_usage
  ps_usd_micros :: int
  ps_price :: price_snapshot

record new_usage_entry =
  nu_report :: nat
  nu_thread :: thread_id
  nu_reporter :: member_id
  nu_lease :: lease_id
  nu_model :: string
  nu_tokens :: token_usage
  nu_usd_micros :: int
  nu_price :: price_snapshot
  nu_turns :: int
  nu_evidence :: usage_evidence

definition entry_validate :: "new_usage_entry \<Rightarrow> string + unit" where
  "entry_validate n =
     (let model = trim (nu_model n) in
      if model = [] \<or> 255 < length model then Inl ''model must contain 1..=255 bytes after trimming''
      else if nu_turns n < 0 then Inl ''turns must be non-negative''
      else if nu_usd_micros n < 0 then Inl ''usd_micros must be non-negative''
      else and_then (evidence_validate (nu_evidence n)) (\<lambda>_.
           and_then (charge_usd_micros (nu_price n) (nu_tokens n)) (\<lambda>computed.
           if computed \<noteq> nu_usd_micros n
           then Inl (''usd_micros '' @ i64_to_string (nu_usd_micros n)
                     @ '' does not match price snapshot calculation '' @ i64_to_string computed)
           else (case ev_standard_price (nu_evidence n) of
                   None \<Rightarrow> Inr ()
                 | Some standard \<Rightarrow>
                     (case charge_usd_micros standard (nu_tokens n) of
                        Inl err \<Rightarrow> Inl (''standard_price: '' @ err)
                      | Inr at_standard \<Rightarrow>
                          if at_standard < nu_usd_micros n
                          then Inl (''standard_price charge '' @ i64_to_string at_standard
                                    @ '' is below usd_micros '' @ i64_to_string (nu_usd_micros n)
                                    @ '': a cheaper lane cannot cost more than standard'')
                          else Inr ())))))"

subsection \<open>The exact charge\<close>

text \<open>The charge without any width: the sum of the lines, rounded up to a whole micro-dollar.\<close>

definition line_total :: "(int \<times> int) list \<Rightarrow> int" where
  "line_total ls = sum_list (map (\<lambda>(q, r). q * r) ls)"

definition ceil_charge :: "(int \<times> int) list \<Rightarrow> int" where
  "ceil_charge ls = (line_total ls + 999999) div 1000000"

definition nonneg_lines :: "(int \<times> int) list \<Rightarrow> bool" where
  "nonneg_lines ls \<longleftrightarrow> (\<forall>(q, r) \<in> set ls. 0 \<le> q \<and> 0 \<le> r)"

lemma nonneg_linesD: "nonneg_lines ls \<Longrightarrow> l \<in> set ls \<Longrightarrow> 0 \<le> fst l \<and> 0 \<le> snd l"
  by (auto simp: nonneg_lines_def)

lemma line_total_nonneg: "nonneg_lines ls \<Longrightarrow> 0 \<le> line_total ls"
  unfolding line_total_def split_def
  by (rule sum_list_nonneg) (auto dest: nonneg_linesD)

lemma charge_lines_exact:
  assumes "nonneg_lines ls" "0 \<le> t" "t \<le> I128_MAX"
  shows "charge_lines t ls = (if t + line_total ls \<le> I128_MAX then Some (t + line_total ls) else None)"
  using assms
proof (induction ls arbitrary: t)
  case Nil
  then show ?case by (simp add: line_total_def)
next
  case (Cons l ls)
  obtain q r where l: "l = (q, r)" by (cases l)
  have tot: "line_total (l # ls) = q * r + line_total ls" by (simp add: line_total_def l)
  have nn: "0 \<le> q * r" "nonneg_lines ls" "0 \<le> line_total ls"
    using Cons.prems(1) line_total_nonneg [of ls] by (auto simp: nonneg_lines_def l)
  show ?case
  proof (cases "t + q * r \<le> I128_MAX")
    case True
    then have c: "checked I128_MAX (q * r) = Some (q * r)"
      "checked I128_MAX (t + q * r) = Some (t + q * r)" using nn(1) Cons.prems by auto
    have "charge_lines (t + q * r) ls =
        (if t + q * r + line_total ls \<le> I128_MAX then Some (t + q * r + line_total ls) else None)"
      using nn Cons.prems True by (intro Cons.IH) auto
    then show ?thesis by (simp add: l [symmetric] tot) (simp add: l c add.assoc)
  next
    case False
    then have "charge_lines t (l # ls) = None" by (auto simp: l checked_def)
    then show ?thesis using False nn(3) tot by simp
  qed
qed

lemma charge_exact:
  assumes "nonneg_lines (zip qs rs)"
  shows "is_ok (charge qs rs) \<longleftrightarrow> ceil_charge (zip qs rs) \<le> I64_MAX"
    and "charge qs rs = Inr c \<longleftrightarrow> c = ceil_charge (zip qs rs) \<and> c \<le> I64_MAX"
proof -
  let ?t = "line_total (zip qs rs)"
  have nn: "0 \<le> ?t" using line_total_nonneg [OF assms] .
  have lines: "charge_lines 0 (zip qs rs) = (if ?t \<le> I128_MAX then Some ?t else None)"
    using charge_lines_exact [OF assms, of 0] by (simp add: I128_MAX_def)
  have big: "ceil_charge (zip qs rs) \<le> I64_MAX \<Longrightarrow> ?t + 999999 \<le> I128_MAX"
    unfolding ceil_charge_def I128_MAX_def I64_MAX_def by linarith
  have low: "0 \<le> ceil_charge (zip qs rs)" using nn by (simp add: ceil_charge_def)
  have main: "charge qs rs = Inr c \<longleftrightarrow> c = ceil_charge (zip qs rs) \<and> c \<le> I64_MAX" for c
    using big low nn
    by (auto simp: charge_def lines and_then_Inr ceil_charge_def [symmetric] I64_MAX_def I128_MAX_def
        split: if_splits)
  then show "charge qs rs = Inr c \<longleftrightarrow> c = ceil_charge (zip qs rs) \<and> c \<le> I64_MAX" .
  show "is_ok (charge qs rs) \<longleftrightarrow> ceil_charge (zip qs rs) \<le> I64_MAX" by (auto simp: is_ok_iff main)
qed

lemma usage_checked_ok [simp]: "usage_checked u = Inr x \<longleftrightarrow> (\<forall>q \<in> set (quantities u). 0 \<le> q)"
  by (auto simp: usage_checked_def list_ex_iff not_le [symmetric])

lemma zip_nonneg:
  assumes "\<forall>q \<in> set qs. 0 \<le> q" "\<forall>r \<in> set rs. 0 \<le> r"
  shows "nonneg_lines (zip qs rs)"
  using assms by (auto simp: nonneg_lines_def dest: set_zip_leftD set_zip_rightD)

lemma charge_usd_exact:
  "charge_usd_micros p u = Inr c \<longleftrightarrow>
     (\<forall>q \<in> set (quantities u). 0 \<le> q) \<and> (\<forall>r \<in> set (rates p). 0 \<le> r)
     \<and> c = ceil_charge (zip (quantities u) (rates p)) \<and> c \<le> I64_MAX"
  by (auto simp: charge_usd_micros_def and_then_Inr charge_exact zip_nonneg list_ex_iff not_le [symmetric])

text \<open>The SQL expression is the same number, and none of its parts exceeds it.\<close>

lemma split_product:
  fixes q r :: int
  shows "q * r = 1000000 * (q * (r div 1000000) + (q div 1000000) * (r mod 1000000))
           + (q mod 1000000) * (r mod 1000000)"
proof -
  have "q * r = q * (1000000 * (r div 1000000) + r mod 1000000)" by simp
  also have "\<dots> = 1000000 * (q * (r div 1000000)) + q * (r mod 1000000)" by (simp only: algebra_simps)
  also have "q * (r mod 1000000) = (1000000 * (q div 1000000) + q mod 1000000) * (r mod 1000000)" by simp
  finally show ?thesis by (simp only: algebra_simps)
qed

lemma line_total_split: "line_total ls = 1000000 * ceil_whole ls + ceil_rest ls"
proof (induction ls)
  case (Cons l ls)
  then show ?case
    using split_product [of "fst l" "snd l"]
    by (simp add: line_total_def ceil_whole_def ceil_rest_def split_def)
qed (simp add: line_total_def ceil_whole_def ceil_rest_def)

lemma ceil_micros_exact: "ceil_micros ls = ceil_charge ls"
  unfolding ceil_micros_def ceil_charge_def line_total_split add.assoc
  by (subst div_mult_self4) simp_all

lemma ceil_parts_nonneg:
  assumes "nonneg_lines ls"
  shows "0 \<le> ceil_whole ls" "0 \<le> ceil_rest ls" "ceil_rest ls < 10 ^ 12 * (1 + int (length ls))"
proof -
  show "0 \<le> ceil_whole ls" "0 \<le> ceil_rest ls"
    unfolding ceil_whole_def ceil_rest_def split_def
    by (rule sum_list_nonneg, auto dest!: nonneg_linesD [OF assms] simp: pos_imp_zdiv_nonneg_iff)+
  show "ceil_rest ls < 10 ^ 12 * (1 + int (length ls))"
  proof (induction ls)
    case (Cons l ls)
    have "(fst l mod 1000000) * (snd l mod 1000000) \<le> 1000000 * 1000000"
      by (rule mult_mono) (simp_all add: less_imp_le pos_mod_bound)
    then show ?case using Cons by (simp add: ceil_rest_def split_def)
  qed (simp add: ceil_rest_def)
qed

end
