(* ===== verification/Store_Tables.thy ===== *)
theory Store_Tables
  imports Thread_Fsm Footprint_Types Usage_Types
begin

text \<open>
  The rows of the database tables the modelled store operations read and write, and the
  database as a record of tables.  A row type has the columns the modelled statements name; the
  struct it is read into is in \<open>maidan-types/src/models.rs\<close>.  The database grows in three
  steps, so each component is stated over the tables it uses and keeps its lemmas on a larger
  database: \<open>claim_db\<close> (claims, budgets, workers, the event log), \<open>queue_db\<close> (what
  \<open>claim_next\<close> looks at) and \<open>review_db\<close> (reviews, evidence and the land gate).

  Table order is insertion order.  Keys the schema declares unique (a thread's id, one budget per
  thread) are stated as invariants where a lemma needs them.
\<close>

subsection \<open>Errors\<close>

datatype conflict =
    SameFamily string
  | RoundCapHeld
  | DuplicateTask
  | BadTransition thread_state thread_action
  | SeparationOfDuties
  | ReviewNotMet int int
  | Refuted
  | NoResultPosted
  | LandGatePending
  | LandGateNotGreen
  | ParentConflict hsm_error
  | NothingHandedOver
  | StaleEvidence
  | EvidenceChanged
  | UnverifiedHead
  | StaleHead
  | UsageNotHolder
  | UsageReportReused
  | UsageReportUnreadable
  | UsageReportPending
  | NotAbandonable thread_state
  | MayNotAbandon

datatype store_error =
    NotFound
  | Conflict conflict
  | InvalidInput string
  | InvalidFootprint footprint_error
  | ClaimLost lease_id
  | Database string
  | CursorTooOld int int

subsection \<open>Threads and their scope\<close>

record thread_row =
  t_id :: thread_id
  t_channel :: channel_id
  t_parent :: "thread_id option"
  t_title :: "string option"
  t_description :: "string option"
  t_state :: thread_state
  t_created_at :: instant
  t_updated_at :: instant
  t_tombstoned_at :: "instant option"
  t_assignee :: "member_id option"
  t_expires_at :: "instant option"
  t_lease :: "lease_id option"
  t_claimed_at :: "instant option"
  t_work_started_at :: "instant option"
  t_owner :: "member_id option"
  t_created_by :: "member_id option"
  t_unack_lease :: "lease_id option"
  t_stall_lease :: "lease_id option"
  t_lapse_lease :: "lease_id option"

record channel_row =
  c_id :: channel_id
  c_workspace :: workspace_id
  c_name :: string
  c_private :: bool

record member_row =
  m_id :: member_id
  m_workspace :: workspace_id
  m_tombstoned_at :: "instant option"

text \<open>\<open>DM_CHANNEL_NAME\<close>: the shared channel every direct message's thread lives in.\<close>

definition DM_CHANNEL_NAME :: string where
  "DM_CHANNEL_NAME = ''__dm__''"

subsection \<open>Claims\<close>

record worker_row =
  w_thread :: thread_id
  w_member :: member_id
  w_seq :: "int option"

record budget_row =
  b_thread :: thread_id
  b_max_tokens :: "int option"
  b_max_usd :: "int option"
  b_max_turns :: "int option"
  b_max_wall :: "int option"
  b_used_tokens :: int
  b_used_usd :: int
  b_used_turns :: int
  b_used_wall :: int
  b_used_input :: int
  b_used_output :: int
  b_used_cache_read :: int
  b_used_cache_write_5m :: int
  b_used_cache_write_1h :: int

datatype budget_reason = Tokens | Usd | Turns | Wall

record dlq_row =
  d_workspace :: workspace_id
  d_channel :: channel_id
  d_thread :: thread_id
  d_member :: member_id
  d_reason :: budget_reason
  d_used_tokens :: int
  d_used_usd :: int
  d_used_turns :: int

datatype declared_status = Working | NeedsInput | NeedsReview | Blocked | Done

record status_row =
  s_thread :: thread_id
  s_status :: declared_status
  s_note :: string
  s_declared_by :: member_id
  s_declared_at :: instant

record post_row =
  p_thread :: thread_id
  p_author :: member_id
  p_posted_at :: instant

datatype gate_kind = Request | ReviewRoundCap

datatype gate_state = Pending | Accepted | Declined | Cancelled

record gate_row =
  g_id :: nat
  g_thread :: "thread_id option"
  g_kind :: gate_kind
  g_state :: gate_state
  g_requested_by :: member_id
  g_requested_actor :: "member_id option"
  g_resolved_at :: "instant option"

record unclaimable_row =
  u_thread :: thread_id
  u_reason :: string

text \<open>\<open>REVIEW_ROUND_HELD_REASON\<close>, the reason a declined round cap parks a thread with.\<close>

definition REVIEW_ROUND_HELD_REASON :: string where
  "REVIEW_ROUND_HELD_REASON = ''A person declined another round of review, so this task stays off the queue.''"

record attribute_row =
  a_thread :: thread_id
  a_kind :: string
  a_engine :: "string option"
  a_lane :: "string option"
  a_linear_issue :: "string option"
  a_author_family :: "string option"
  a_review_family :: "string option"

record usage_row =
  ul_thread :: thread_id
  ul_workspace :: workspace_id
  ul_reporter :: member_id
  ul_lease :: lease_id
  ul_provider :: "string option"
  ul_model :: string
  ul_accepted_at :: instant
  ul_report :: nat
  ul_tokens :: token_usage
  ul_price :: price_snapshot
  ul_usd_micros :: int
  ul_turns :: int
  ul_service_tier :: "string option"
  ul_batch :: bool
  ul_harness :: "string option"
  ul_harness_version :: "string option"
  ul_effort :: "string option"
  ul_cache_key :: "string option"
  ul_cache_miss_reason :: "string option"
  ul_pack_sha256 :: "string list"
  ul_standard_price :: "price_snapshot option"
  ul_budget :: "budget_row option"
  ul_stopped :: "bool option"
  ul_reason :: "budget_reason option"
  ul_usage_event :: "nat option"
  ul_claim_failed_event :: "nat option"

record fingerprint_row =
  fp_thread :: thread_id
  fp_workspace :: workspace_id
  fp_print :: string
  fp_duplicate_of :: "thread_id option"
  fp_cleared_at :: "instant option"

datatype stall_reason = NoProgress | LeaseLapsing

datatype review_decision = Approve | RequestChangesReview

subsection \<open>Events\<close>

text \<open>
  The events the modelled operations append (\<open>Event\<close> in \<open>maidan-types/src/events.rs\<close>), with the
  thread snapshot they carry.
\<close>

datatype relation_kind =
    Supports | Refutes | Defines | Depends | Duplicates | Grounds | Supersedes | SeededFrom
  | OtherRelation string

text \<open>The system messages of \<open>plan_notices.rs\<close>, by what their metadata names; the wording is left
  out.\<close>

datatype notice =
    PlanChildUnlanded thread_id
  | DependencyUnlanded thread_id
  | PlanLanded
  | PlanCloseRefused conflict
  | DependencyRepointed thread_id thread_id
  | DependencyRepointRefused thread_id thread_id

datatype event =
    ThreadAssignmentChanged instant workspace_id channel_id thread_id member_id
      "member_id option" "member_id option" "string option" thread_row
  | ClaimExpired instant workspace_id channel_id thread_id member_id thread_row
  | ClaimFailed instant workspace_id channel_id thread_id member_id budget_reason thread_row
  | ClaimUnacknowledged instant workspace_id channel_id thread_id member_id instant thread_row
  | ClaimStalled instant workspace_id channel_id thread_id member_id stall_reason
      "instant option" instant thread_row
  | WaitTimedOut instant workspace_id channel_id thread_id string "string option"
  | ThreadStateChanged instant workspace_id channel_id thread_id member_id
      thread_state thread_state thread_row
  | ReviewSubmitted instant workspace_id channel_id thread_id member_id "member_id option"
      review_decision bool "member_id option"
  | ApprovalRequested instant workspace_id channel_id thread_id nat member_id
  | ThreadCreated instant workspace_id channel_id thread_row
  | ThreadAttributesSet instant workspace_id channel_id thread_id attribute_row "string option" member_id
  | ThreadLanded instant workspace_id channel_id thread_id string int
  | ThreadBlocked instant workspace_id channel_id thread_id member_id thread_id
  | MessagePosted instant workspace_id channel_id thread_id member_id notice
  | ReferenceAdded instant thread_id thread_id relation_kind
  | UsageReported instant workspace_id channel_id thread_id nat payer_stamp int budget_row

subsection \<open>The claim tables\<close>

record claim_db =
  threads :: "thread_row list"
  channels :: "channel_row list"
  members :: "member_row list"
  workers :: "worker_row list"
  budgets :: "budget_row list"
  dlq :: "dlq_row list"
  log :: "event list"
  statuses :: "status_row list"
  posts :: "post_row list"
  gates :: "gate_row list"
  unclaimable :: "unclaimable_row list"
  attributes :: "attribute_row list"
  usage :: "usage_row list"
  fingerprints :: "fingerprint_row list"

text \<open>The request's principal: \<open>Attribution\<close>, or \<open>None\<close> for work outside a request.\<close>

record attribution =
  at_actor :: member_id
  at_subject :: member_id
  at_grant :: "nat option"

definition delegate_acting_for :: "attribution option \<Rightarrow> member_id \<Rightarrow> member_id option" where
  "delegate_acting_for scope subject =
     (case scope of
        None \<Rightarrow> None
      | Some a \<Rightarrow> if at_subject a = subject \<and> at_actor a \<noteq> subject then Some (at_actor a) else None)"

definition find_thread :: "('z) claim_db_scheme \<Rightarrow> thread_id \<Rightarrow> thread_row option" where
  "find_thread db tid = find (\<lambda>t. t_id t = tid) (threads db)"

definition find_channel :: "('z) claim_db_scheme \<Rightarrow> channel_id \<Rightarrow> channel_row option" where
  "find_channel db cid = find (\<lambda>c. c_id c = cid) (channels db)"

text \<open>\<open>events::thread_scope_in_tx\<close>: the workspace and channel of a thread.\<close>

definition thread_scope :: "('z) claim_db_scheme \<Rightarrow> thread_id \<Rightarrow> store_error + workspace_id \<times> channel_id" where
  "thread_scope db tid =
     (case find_thread db tid of
        None \<Rightarrow> Inl NotFound
      | Some t \<Rightarrow>
          (case find_channel db (t_channel t) of
             None \<Rightarrow> Inl NotFound
           | Some c \<Rightarrow> Inr (c_workspace c, c_id c)))"

definition append_event :: "event \<Rightarrow> ('z) claim_db_scheme \<Rightarrow> ('z) claim_db_scheme" where
  "append_event e db = db\<lparr>log := log db @ [e]\<rparr>"

subsection \<open>The queue tables\<close>

record footprint_row =
  fr_thread :: thread_id
  fr_workspace :: workspace_id
  fr_repo :: string
  fr_mode :: footprint_mode
  fr_kind :: footprint_kind
  fr_value :: string
  fr_namespace :: string
  fr_key :: string

record slot_capacity_row =
  sc_workspace :: workspace_id
  sc_slot :: string
  sc_capacity :: int

record repo_pause_row =
  rp_workspace :: workspace_id
  rp_repo :: string

record dependency_row =
  dep_thread :: thread_id
  dep_on :: thread_id

record priority_row =
  pr_thread :: thread_id
  pr_priority :: int

record skill_row =
  sk_owner :: nat
  sk_skill :: string

record result_row =
  r_thread :: thread_id
  r_result :: string
  r_produced_by :: member_id
  r_produced_actor :: "member_id option"
  r_produced_at :: instant

record transition_row =
  tr_thread :: thread_id
  tr_from :: thread_state
  tr_to :: thread_state
  tr_actor :: member_id
  tr_occurred_at :: instant

record recipe_child_row =
  rc_run :: nat
  rc_thread :: thread_id

record dm_row =
  dm_thread :: thread_id
  dm_low :: member_id
  dm_high :: member_id

record group_dm_row =
  gd_id :: nat
  gd_thread :: thread_id

record queue_db = claim_db +
  footprints :: "footprint_row list"
  slot_capacities :: "slot_capacity_row list"
  repo_pauses :: "repo_pause_row list"
  blocks :: "thread_id list"
  deps :: "dependency_row list"
  unlanded :: "thread_id list"
  priorities :: "priority_row list"
  required_skills :: "skill_row list"
  member_skills :: "skill_row list"
  freezes :: "member_id list"
  results :: "result_row list"
  transitions :: "transition_row list"
  recipe_children :: "recipe_child_row list"
  channel_members :: "(channel_id \<times> member_id) list"
  dms :: "dm_row list"
  group_dms :: "group_dm_row list"
  group_dm_members :: "(nat \<times> member_id) list"

subsection \<open>Shared facts\<close>

lemma append_event_simps [simp]:
  "threads (append_event e db) = threads db"
  "channels (append_event e db) = channels db"
  "members (append_event e db) = members db"
  "workers (append_event e db) = workers db"
  "budgets (append_event e db) = budgets db"
  "dlq (append_event e db) = dlq db"
  "log (append_event e db) = log db @ [e]"
  "statuses (append_event e db) = statuses db"
  "gates (append_event e db) = gates db"
  "usage (append_event e db) = usage db"
  by (simp_all add: append_event_def)

lemma delegate_acting_for_not_self: "delegate_acting_for scope m \<noteq> Some m"
  by (auto simp: delegate_acting_for_def split: option.splits)

lemma find_thread_Some: "find_thread db tid = Some t \<Longrightarrow> t \<in> set (threads db) \<and> t_id t = tid"
  by (auto simp: find_thread_def dest: find_key_mem)

lemma find_thread_cong: "threads db = threads db' \<Longrightarrow> find_thread db = find_thread db'"
  by (simp add: find_thread_def fun_eq_iff)

end
