(* ===== verification/Budgets.thy ===== *)
theory Budgets
  imports Store_Tables
begin

text \<open>
  Budgets and the worker ledger: \<open>ThreadBudget\<close> of \<open>maidan-types/src/models.rs\<close>, the SQL of
  \<open>maidan-store/src/sqlite/budget.rs\<close> that accumulates usage, and
  \<open>sqlite/thread_workers.rs\<close>, the append-only record of who has held a thread.  Counters are
  64-bit in the code; the saturating addition of \<open>exceeded\<close> is written out, and SQLite's own
  integer addition is over the same range.
\<close>

definition saturating_add :: "int \<Rightarrow> int \<Rightarrow> int" where
  "saturating_add a b = max (- I64_MAX - 1) (min I64_MAX (a + b))"

subsection \<open>Limits\<close>

definition bound :: "int \<Rightarrow> int option \<Rightarrow> bool" where
  "bound used mx = (case mx of None \<Rightarrow> False | Some m \<Rightarrow> m > 0 \<and> used \<ge> m)"

definition exceeded :: "budget_row \<Rightarrow> int option \<Rightarrow> budget_reason option" where
  "exceeded b wall =
     (if bound (b_used_tokens b) (b_max_tokens b) then Some Tokens
      else if bound (b_used_usd b) (b_max_usd b) then Some Usd
      else if bound (b_used_turns b) (b_max_turns b) then Some Turns
      else if bound (saturating_add (b_used_wall b) (max 0 (case wall of Some w \<Rightarrow> w | None \<Rightarrow> 0)))
                (b_max_wall b)
        then Some Wall
      else None)"

record budget_limits =
  l_max_tokens :: "int option"
  l_max_usd :: "int option"
  l_max_turns :: "int option"
  l_max_wall :: "int option"

text \<open>A patch distinguishes absent (\<open>None\<close>), explicitly null (\<open>Some None\<close>) and a value.\<close>

record budget_patch =
  bp_max_tokens :: "int option option"
  bp_max_usd :: "int option option"
  bp_max_turns :: "int option option"
  bp_max_wall :: "int option option"

definition unwrap_or :: "'a option \<Rightarrow> 'a \<Rightarrow> 'a" where
  "unwrap_or x d = (case x of Some v \<Rightarrow> v | None \<Rightarrow> d)"

definition patch_apply :: "budget_patch \<Rightarrow> budget_limits \<Rightarrow> budget_limits" where
  "patch_apply p cur =
     \<lparr>l_max_tokens = unwrap_or (bp_max_tokens p) (l_max_tokens cur),
      l_max_usd = unwrap_or (bp_max_usd p) (l_max_usd cur),
      l_max_turns = unwrap_or (bp_max_turns p) (l_max_turns cur),
      l_max_wall = unwrap_or (bp_max_wall p) (l_max_wall cur)\<rparr>"

definition missing_dimensions :: "budget_patch \<Rightarrow> string list" where
  "missing_dimensions p =
     (if bp_max_tokens p = None then [''max_tokens''] else [])
   @ (if bp_max_usd p = None then [''max_usd_micros''] else [])
   @ (if bp_max_turns p = None then [''max_turns''] else [])
   @ (if bp_max_wall p = None then [''max_wall_secs''] else [])"

definition patch_is_empty :: "budget_patch \<Rightarrow> bool" where
  "patch_is_empty p \<longleftrightarrow> length (missing_dimensions p) = 4"

subsection \<open>Rows\<close>

definition fresh_budget :: "thread_id \<Rightarrow> budget_row" where
  "fresh_budget tid =
     \<lparr>b_thread = tid, b_max_tokens = None, b_max_usd = None, b_max_turns = None, b_max_wall = None,
      b_used_tokens = 0, b_used_usd = 0, b_used_turns = 0, b_used_wall = 0, b_used_input = 0,
      b_used_output = 0, b_used_cache_read = 0, b_used_cache_write_5m = 0, b_used_cache_write_1h = 0\<rparr>"

definition get_budget :: "('z) claim_db_scheme \<Rightarrow> thread_id \<Rightarrow> budget_row option" where
  "get_budget db tid = find (\<lambda>b. b_thread b = tid) (budgets db)"

text \<open>\<open>INSERT ... ON CONFLICT (thread_id) DO UPDATE\<close>: the row a conflict updates, or the fresh
  row the same columns are written to.\<close>

definition upsert_budget ::
  "(budget_row \<Rightarrow> budget_row) \<Rightarrow> thread_id \<Rightarrow> ('z) claim_db_scheme \<Rightarrow> ('z) claim_db_scheme" where
  "upsert_budget f tid db =
     (if \<exists>b \<in> set (budgets db). b_thread b = tid
      then db\<lparr>budgets := update_where (\<lambda>b. b_thread b = tid) f (budgets db)\<rparr>
      else db\<lparr>budgets := budgets db @ [f (fresh_budget tid)]\<rparr>)"

definition set_limits :: "budget_limits \<Rightarrow> budget_row \<Rightarrow> budget_row" where
  "set_limits l b = b\<lparr>b_max_tokens := l_max_tokens l, b_max_usd := l_max_usd l,
     b_max_turns := l_max_turns l, b_max_wall := l_max_wall l\<rparr>"

definition set_budget :: "thread_id \<Rightarrow> budget_limits \<Rightarrow> ('z) claim_db_scheme \<Rightarrow> ('z) claim_db_scheme" where
  "set_budget tid limits db = upsert_budget (set_limits limits) tid db"

definition limits_of :: "budget_row \<Rightarrow> budget_limits" where
  "limits_of b = \<lparr>l_max_tokens = b_max_tokens b, l_max_usd = b_max_usd b,
     l_max_turns = b_max_turns b, l_max_wall = b_max_wall b\<rparr>"

definition patch_budget :: "thread_id \<Rightarrow> budget_patch \<Rightarrow> ('z) claim_db_scheme \<Rightarrow> ('z) claim_db_scheme" where
  "patch_budget tid p db =
     (let base = (case get_budget db tid of
                    Some b \<Rightarrow> limits_of b
                  | None \<Rightarrow> \<lparr>l_max_tokens = None, l_max_usd = None, l_max_turns = None, l_max_wall = None\<rparr>)
      in upsert_budget (set_limits (patch_apply p base)) tid db)"

record usage_delta =
  ud_tokens :: int
  ud_usd :: int
  ud_turns :: int

definition add_usage :: "thread_id \<Rightarrow> usage_delta \<Rightarrow> ('z) claim_db_scheme \<Rightarrow> ('z) claim_db_scheme" where
  "add_usage tid d db =
     upsert_budget (\<lambda>b. b\<lparr>b_used_tokens := b_used_tokens b + ud_tokens d,
                           b_used_usd := b_used_usd b + ud_usd d,
                           b_used_turns := b_used_turns b + ud_turns d\<rparr>) tid db"

definition add_accounted_usage ::
  "new_usage_entry \<Rightarrow> ('z) claim_db_scheme \<Rightarrow> store_error + ('z) claim_db_scheme" where
  "add_accounted_usage new db =
     (let u = nu_tokens new in
      case usage_fresh u of
        Inl err \<Rightarrow> Inl (InvalidInput err)
      | Inr fresh \<Rightarrow>
          Inr (upsert_budget (\<lambda>b. b\<lparr>b_used_tokens := b_used_tokens b + fresh,
                 b_used_usd := b_used_usd b + nu_usd_micros new,
                 b_used_turns := b_used_turns b + nu_turns new,
                 b_used_input := b_used_input b + tu_input u,
                 b_used_output := b_used_output b + tu_output u,
                 b_used_cache_read := b_used_cache_read b + tu_cache_read u,
                 b_used_cache_write_5m := b_used_cache_write_5m b + tu_cache_write_5m u,
                 b_used_cache_write_1h := b_used_cache_write_1h b + tu_cache_write_1h u\<rparr>)
               (nu_thread new) db))"

text \<open>\<open>charge_wall_in_tx\<close>: with a number of seconds it adds them, without one it only reads.\<close>

definition charge_wall :: "thread_id \<Rightarrow> int option \<Rightarrow> ('z) claim_db_scheme \<Rightarrow> ('z) claim_db_scheme" where
  "charge_wall tid worked db =
     (case worked of
        Some s \<Rightarrow> upsert_budget (\<lambda>b. b\<lparr>b_used_wall := b_used_wall b + s\<rparr>) tid db
      | None \<Rightarrow> db)"

text \<open>Seconds between two instants, \<open>num_seconds\<close> of a duration: it truncates toward zero.\<close>

definition num_seconds :: "int \<Rightarrow> int" where
  "num_seconds d = (if d \<ge> 0 then d div 1000000 else - ((- d) div 1000000))"

definition worked_secs :: "instant option \<Rightarrow> instant \<Rightarrow> int option" where
  "worked_secs started ended = map_option (\<lambda>s. max 0 (num_seconds (ended - s))) started"

subsection \<open>The worker ledger\<close>

definition insert_worker :: "thread_id \<Rightarrow> member_id \<Rightarrow> worker_row list \<Rightarrow> worker_row list" where
  "insert_worker tid m ws =
     (if \<exists>w \<in> set ws. w_thread w = tid \<and> w_member w = m then ws
      else ws @ [\<lparr>w_thread = tid, w_member = m, w_seq = None\<rparr>])"

definition max_seq :: "thread_id \<Rightarrow> worker_row list \<Rightarrow> int" where
  "max_seq tid ws =
     (let seqs = List.map_filter (\<lambda>w. if w_thread w = tid then w_seq w else None) ws
      in case seqs of [] \<Rightarrow> 0 | s # ss \<Rightarrow> fold max ss s)"

definition record_worker ::
  "attribution option \<Rightarrow> thread_id \<Rightarrow> member_id \<Rightarrow> ('z) claim_db_scheme \<Rightarrow> ('z) claim_db_scheme" where
  "record_worker scope tid m db =
     (let ws = insert_worker tid m (workers db);
          ws = (case delegate_acting_for scope m of Some a \<Rightarrow> insert_worker tid a ws | None \<Rightarrow> ws);
          next = max_seq tid ws + 1
      in db\<lparr>workers := update_where (\<lambda>w. w_thread w = tid \<and> w_member w = m)
                         (\<lambda>w. w\<lparr>w_seq := Some next\<rparr>) ws\<rparr>)"

definition has_worked :: "('z) claim_db_scheme \<Rightarrow> thread_id \<Rightarrow> member_id \<Rightarrow> bool" where
  "has_worked db tid m \<longleftrightarrow> (\<exists>w \<in> set (workers db). w_thread w = tid \<and> w_member w = m)"

text \<open>\<open>ORDER BY last_held_seq DESC LIMIT 1\<close> over the rows that have a place.\<close>

definition last_worker :: "('z) claim_db_scheme \<Rightarrow> thread_id \<Rightarrow> member_id option" where
  "last_worker db tid =
     (let held = filter (\<lambda>w. w_thread w = tid \<and> w_seq w \<noteq> None) (workers db)
      in map_option w_member
           (find (\<lambda>w. \<forall>w' \<in> set held. the (w_seq w') \<le> the (w_seq w)) held))"

subsection \<open>What each write leaves alone\<close>

lemma upsert_budget_simps [simp]:
  "threads (upsert_budget f tid db) = threads db"
  "channels (upsert_budget f tid db) = channels db"
  "members (upsert_budget f tid db) = members db"
  "workers (upsert_budget f tid db) = workers db"
  "log (upsert_budget f tid db) = log db"
  "dlq (upsert_budget f tid db) = dlq db"
  "statuses (upsert_budget f tid db) = statuses db"
  "gates (upsert_budget f tid db) = gates db"
  "usage (upsert_budget f tid db) = usage db"
  by (simp_all add: upsert_budget_def)

lemma charge_wall_simps [simp]:
  "threads (charge_wall tid w db) = threads db"
  "channels (charge_wall tid w db) = channels db"
  "members (charge_wall tid w db) = members db"
  "workers (charge_wall tid w db) = workers db"
  "log (charge_wall tid w db) = log db"
  "dlq (charge_wall tid w db) = dlq db"
  "statuses (charge_wall tid w db) = statuses db"
  "gates (charge_wall tid w db) = gates db"
  "usage (charge_wall tid w db) = usage db"
  by (simp_all add: charge_wall_def split: option.splits)

lemma record_worker_simps [simp]:
  "threads (record_worker scope tid m db) = threads db"
  "channels (record_worker scope tid m db) = channels db"
  "members (record_worker scope tid m db) = members db"
  "budgets (record_worker scope tid m db) = budgets db"
  "log (record_worker scope tid m db) = log db"
  "dlq (record_worker scope tid m db) = dlq db"
  "gates (record_worker scope tid m db) = gates db"
  "usage (record_worker scope tid m db) = usage db"
  by (simp_all add: record_worker_def Let_def)

lemma has_worked_cong: "workers db = workers db' \<Longrightarrow> has_worked db = has_worked db'"
  by (simp add: has_worked_def fun_eq_iff)

lemma get_budget_cong: "budgets db = budgets db' \<Longrightarrow> get_budget db = get_budget db'"
  by (simp add: get_budget_def fun_eq_iff)

subsection \<open>One budget row per thread\<close>

lemma find_update_where:
  assumes "\<And>b. b_thread (f b) = b_thread b"
  shows "find (\<lambda>b. b_thread b = t) (update_where (\<lambda>b. b_thread b = tid) f bs)
    = (if t = tid then map_option f (find (\<lambda>b. b_thread b = tid) bs) else find (\<lambda>b. b_thread b = t) bs)"
  using assms by (induction bs) (auto simp: update_where_def)

lemma find_snoc: "find P (xs @ [x]) = (case find P xs of Some y \<Rightarrow> Some y | None \<Rightarrow> if P x then Some x else None)"
  by (induction xs) auto

lemma get_upsert_budget:
  assumes "\<And>b. b_thread (f b) = b_thread b"
  shows "get_budget (upsert_budget f tid db) t
    = (if t = tid then Some (f (unwrap_or (get_budget db tid) (fresh_budget tid))) else get_budget db t)"
proof (cases "\<exists>b \<in> set (budgets db). b_thread b = tid")
  case True
  then obtain b where "find (\<lambda>b. b_thread b = tid) (budgets db) = Some b"
    by (metis (mono_tags, lifting) find_None_iff option.exhaust)
  then show ?thesis
    using True by (simp add: get_budget_def upsert_budget_def find_update_where [OF assms] unwrap_or_def)
next
  case False
  then have "find (\<lambda>b. b_thread b = tid) (budgets db) = None"
    by (simp add: find_None_iff)
  then show ?thesis
    using False
    by (auto simp: get_budget_def upsert_budget_def find_snoc unwrap_or_def assms fresh_budget_def split: option.splits)
qed

text \<open>Wall seconds already charged to a thread; a thread with no row has been charged none.\<close>

definition charged_wall :: "('z) claim_db_scheme \<Rightarrow> thread_id \<Rightarrow> int" where
  "charged_wall db tid = (case get_budget db tid of Some b \<Rightarrow> b_used_wall b | None \<Rightarrow> 0)"

lemma charged_wall_charge:
  "charged_wall (charge_wall tid w db) t
     = charged_wall db t + (if t = tid then unwrap_or w 0 else 0)"
  by (cases w) (auto simp: charged_wall_def charge_wall_def get_upsert_budget unwrap_or_def fresh_budget_def
      split: option.splits)

lemma limits_charge:
  "get_budget db tid = Some b \<Longrightarrow>
   get_budget (charge_wall tid w db) tid = Some (b\<lparr>b_used_wall := b_used_wall b + unwrap_or w 0\<rparr>)"
  by (cases w) (auto simp: charge_wall_def get_upsert_budget unwrap_or_def)

subsection \<open>Naming one limit leaves the others\<close>

lemma patch_budget_limits:
  "limits_of (the (get_budget (patch_budget tid p db) tid))
     = patch_apply p (case get_budget db tid of Some b \<Rightarrow> limits_of b
         | None \<Rightarrow> \<lparr>l_max_tokens = None, l_max_usd = None, l_max_turns = None, l_max_wall = None\<rparr>)"
  by (simp add: patch_budget_def Let_def get_upsert_budget set_limits_def limits_of_def patch_apply_def)

text \<open>Counters survive a change of limits.\<close>

lemma patch_budget_used:
  "charged_wall (patch_budget tid p db) t = charged_wall db t"
  by (auto simp: charged_wall_def patch_budget_def Let_def get_upsert_budget set_limits_def unwrap_or_def
      fresh_budget_def split: option.splits)

subsection \<open>The ledger remembers\<close>

lemma insert_worker_mem:
  "(\<exists>w \<in> set (insert_worker tid m ws). w_thread w = t \<and> w_member w = x)
    \<longleftrightarrow> (\<exists>w \<in> set ws. w_thread w = t \<and> w_member w = x) \<or> (t = tid \<and> x = m)"
  by (auto simp: insert_worker_def)

lemma seq_mem:
  "(\<exists>w \<in> set (update_where P (\<lambda>w. w\<lparr>w_seq := s\<rparr>) ws). w_thread w = t \<and> w_member w = x)
    \<longleftrightarrow> (\<exists>w \<in> set ws. w_thread w = t \<and> w_member w = x)"
  unfolding Bex_update_where by (rule bex_cong) auto

lemma has_worked_record:
  "has_worked (record_worker scope tid m db) t x
    \<longleftrightarrow> has_worked db t x \<or> t = tid \<and> (x = m \<or> delegate_acting_for scope m = Some x)"
  by (auto simp: has_worked_def record_worker_def Let_def seq_mem insert_worker_mem split: option.splits)

text \<open>The interface every holder-changing operation relies on: a record that is only added to.\<close>

locale ledger =
  fixes entry :: "'k \<Rightarrow> 'v \<Rightarrow> 'db \<Rightarrow> 'db"
    and known :: "'db \<Rightarrow> 'k \<Rightarrow> 'v \<Rightarrow> bool"
  assumes known_entry: "known (entry k v db) k v"
    and known_keep: "known db k' v' \<Longrightarrow> known (entry k v db) k' v'"
begin

lemma known_fold: "known db k' v' \<Longrightarrow> known (fold (\<lambda>(k, v). entry k v) kvs db) k' v'"
  by (induction kvs arbitrary: db) (auto intro: known_keep)

lemma known_fold_mem: "(k, v) \<in> set kvs \<Longrightarrow> known (fold (\<lambda>(k, v). entry k v) kvs db) k v"
proof (induction kvs arbitrary: db)
  case (Cons x xs)
  then show ?case
    by (cases "(k, v) \<in> set xs") (auto intro: known_fold known_entry)
qed simp

end

interpretation worked: ledger "record_worker scope" has_worked for scope
  by unfold_locales (simp_all add: has_worked_record)

text \<open>The last to hold: the member just recorded has the highest place.\<close>

lemma fold_max_ge:
  "x \<in> set ss \<union> {s} \<Longrightarrow> x \<le> fold max ss (s :: int)"
proof (induction ss arbitrary: s x)
  case (Cons a ss)
  have "max a s \<le> fold max ss (max a s)" by (rule Cons.IH) simp
  then show ?case using Cons by auto
qed simp

lemma max_seq_ge:
  assumes "w \<in> set ws" "w_thread w = tid" "w_seq w = Some s"
  shows "s \<le> max_seq tid ws"
proof -
  let ?seqs = "List.map_filter (\<lambda>w. if w_thread w = tid then w_seq w else None) ws"
  have "s \<in> set ?seqs"
    using assms by (auto simp: List.map_filter_def image_iff intro!: bexI [of _ w])
  then show ?thesis
    unfolding max_seq_def Let_def by (cases ?seqs) (auto intro: fold_max_ge)
qed

lemma last_worker_record: "last_worker (record_worker scope tid m db) tid = Some m"
proof -
  define ws0 where "ws0 = (case delegate_acting_for scope m of
      Some a \<Rightarrow> insert_worker tid a (insert_worker tid m (workers db)) | None \<Rightarrow> insert_worker tid m (workers db))"
  define n where "n = max_seq tid ws0 + 1"
  define ws where "ws = update_where (\<lambda>w. w_thread w = tid \<and> w_member w = m) (\<lambda>w. w\<lparr>w_seq := Some n\<rparr>) ws0"
  define held where "held = filter (\<lambda>w. w_thread w = tid \<and> w_seq w \<noteq> None) ws"
  let ?top = "\<lambda>w. \<forall>w' \<in> set held. the (w_seq w') \<le> the (w_seq w)"
  have db: "workers (record_worker scope tid m db) = ws"
    by (simp add: record_worker_def Let_def ws_def ws0_def n_def split: option.splits)
  have in0: "\<exists>w \<in> set ws0. w_thread w = tid \<and> w_member w = m"
    by (auto simp: ws0_def insert_worker_mem split: option.splits)
  have upper: "w_member w = m \<and> w_seq w = Some n \<or> w_member w \<noteq> m \<and> the (w_seq w) < n" if "w \<in> set held" for w
  proof -
    from that have w: "w \<in> set ws" "w_thread w = tid" "w_seq w \<noteq> None" by (auto simp: held_def)
    from w(1) obtain v where v: "v \<in> set ws0"
      and wv: "w = (if w_thread v = tid \<and> w_member v = m then v\<lparr>w_seq := Some n\<rparr> else v)"
      unfolding ws_def by (rule update_where_memE)
    show ?thesis
    proof (cases "w_thread v = tid \<and> w_member v = m")
      case True
      with wv show ?thesis by simp
    next
      case False
      with wv w obtain s where "w_seq v = Some s" "w = v" "w_member v \<noteq> m" by auto
      with max_seq_ge [OF v, of tid s] w show ?thesis by (simp add: n_def)
    qed
  qed
  from in0 obtain v where "v \<in> set ws0" "w_thread v = tid" "w_member v = m" by blast
  then have "v\<lparr>w_seq := Some n\<rparr> \<in> set ws"
    unfolding ws_def
    using update_where_memI [of v ws0 "\<lambda>w. w_thread w = tid \<and> w_member w = m" "\<lambda>w. w\<lparr>w_seq := Some n\<rparr>"]
    by simp
  with \<open>w_thread v = tid\<close> have mem: "v\<lparr>w_seq := Some n\<rparr> \<in> set held" by (simp add: held_def)
  have top: "?top (v\<lparr>w_seq := Some n\<rparr>)"
  proof
    fix w' assume "w' \<in> set held"
    from upper [OF this] show "the (w_seq w') \<le> the (w_seq (v\<lparr>w_seq := Some n\<rparr>))" by auto
  qed
  obtain w where w: "find ?top held = Some w"
    using mem top by (cases "find ?top held") (auto simp: find_None_iff)
  then have wm: "w \<in> set held" "?top w" by (auto dest: find_key_mem)
  then have "n \<le> the (w_seq w)" using mem by fastforce
  then have "w_member w = m" using upper [OF wm(1)] by auto
  then show ?thesis
    using w by (simp add: last_worker_def db Let_def held_def)
qed

end
