(* ===== verification/Claims.thy ===== *)
theory Claims
  imports Budgets "HOL-Library.Product_Lexorder"
begin

text \<open>
  The claim lifecycle of \<open>maidan-store/src/sqlite/threads.rs\<close> and the boot grace of
  \<open>claim_grace.rs\<close>: assign, claim, acknowledge, renew, release, the reaper and the reports on
  stuck claims.  Each operation is one transaction: it returns an error and leaves the database
  alone, or the new database.  \<open>Utc::now()\<close> is the argument \<open>clk\<close> (one reading per operation),
  a fresh \<open>ClaimLeaseId\<close> is the argument \<open>lease\<close>, and the request's principal is \<open>scope\<close>.
\<close>

subsection \<open>Refusals\<close>

fun contains_str :: "string \<Rightarrow> string \<Rightarrow> bool" where
  "contains_str [] p \<longleftrightarrow> p = []"
| "contains_str (c # s) p \<longleftrightarrow> starts_with (c # s) p \<or> contains_str s p"

definition PROVIDER_FAMILIES :: "(string \<times> string list \<times> string list) list" where
  "PROVIDER_FAMILIES =
     [(''anthropic'', [''anthropic'', ''claude''], []),
      (''openai'', [''openai'', ''gpt'', ''codex''], [''o1'', ''o3'', ''o4'']),
      (''google'', [''google'', ''gemini'', ''vertex''], []),
      (''xai'', [''xai'', ''grok''], []),
      (''deepseek'', [''deepseek''], [])]"

text \<open>\<open>family_sql\<close>: the first family a word or a model prefix names.  SQLite's \<open>LOWER\<close> folds ASCII
  letters only.\<close>

definition family_sql :: "string option \<Rightarrow> string \<Rightarrow> string option" where
  "family_sql provider model =
     (let named = to_ascii_lowercase (unwrap_or provider [] @ '' '' @ model);
          m = to_ascii_lowercase model
      in map_option fst
           (find (\<lambda>(family, words, prefixes).
                (\<exists>w \<in> set words. contains_str named w)
              \<or> (\<exists>p \<in> set prefixes. m = p \<or> starts_with m (p @ ''-''))) PROVIDER_FAMILIES))"

definition shared_family :: "('z) claim_db_scheme \<Rightarrow> member_id \<Rightarrow> thread_id \<Rightarrow> string option" where
  "shared_family db m tid =
     (case find (\<lambda>ra. a_thread ra = tid \<and> a_author_family ra \<noteq> None) (attributes db) of
        None \<Rightarrow> None
      | Some ra \<Rightarrow>
          (case thread_scope db tid of
             Inl _ \<Rightarrow> None
           | Inr (ws, _) \<Rightarrow>
               if \<exists>ul \<in> set (usage db). ul_reporter ul = m \<and> ul_workspace ul = ws
                    \<and> family_sql (ul_provider ul) (ul_model ul) = a_author_family ra
               then a_author_family ra else None))"

definition refuse_same_family :: "('z) claim_db_scheme \<Rightarrow> thread_id \<Rightarrow> member_id \<Rightarrow> store_error + unit" where
  "refuse_same_family db tid m =
     (case shared_family db m tid of
        Some family \<Rightarrow> Inl (Conflict (SameFamily family))
      | None \<Rightarrow> Inr ())"

definition refuse_round_cap_claim :: "('z) claim_db_scheme \<Rightarrow> thread_id \<Rightarrow> store_error + unit" where
  "refuse_round_cap_claim db tid =
     (let pending = (\<exists>g \<in> set (gates db). g_thread g = Some tid \<and> g_kind g = ReviewRoundCap \<and> g_state g = Pending);
          parked = (\<exists>u \<in> set (unclaimable db). u_thread u = tid \<and> u_reason u = REVIEW_ROUND_HELD_REASON)
      in ensure (\<not> (pending \<or> parked)) (Conflict RoundCapHeld))"

definition live_original :: "('z) claim_db_scheme \<Rightarrow> thread_id \<Rightarrow> thread_id option" where
  "live_original db tid =
     (case find (\<lambda>fp. fp_thread fp = tid) (fingerprints db) of
        None \<Rightarrow> None
      | Some fp \<Rightarrow>
          (case fp_duplicate_of fp of
             None \<Rightarrow> None
           | Some orig \<Rightarrow>
               (case find_thread db orig of
                  None \<Rightarrow> None
                | Some t \<Rightarrow> if t_tombstoned_at t = None \<and> t_state t \<in> {Open, InReview} then Some orig else None)))"

definition refuse_duplicate_claim :: "('z) claim_db_scheme \<Rightarrow> thread_id \<Rightarrow> store_error + unit" where
  "refuse_duplicate_claim db tid = ensure (live_original db tid = None) (Conflict DuplicateTask)"

subsection \<open>Writes to a thread row\<close>

text \<open>\<open>UPDATE maidan_threads SET f WHERE id = tid AND P RETURNING *\<close>.\<close>

definition update_thread ::
  "thread_id \<Rightarrow> (thread_row \<Rightarrow> bool) \<Rightarrow> (thread_row \<Rightarrow> thread_row) \<Rightarrow> ('z) claim_db_scheme
    \<Rightarrow> (thread_row \<times> ('z) claim_db_scheme) option" where
  "update_thread tid P f db =
     (case find (\<lambda>t. t_id t = tid \<and> P t) (threads db) of
        None \<Rightarrow> None
      | Some t \<Rightarrow> Some (f t, db\<lparr>threads := update_where (\<lambda>t. t_id t = tid \<and> P t) f (threads db)\<rparr>))"

text \<open>The columns every ending of a claim clears (\<open>CLEAR_CLAIM\<close>), and the ones taking it writes.\<close>

definition clear_claim :: "instant \<Rightarrow> thread_row \<Rightarrow> thread_row" where
  "clear_claim clk t = t\<lparr>t_assignee := None, t_expires_at := None, t_lease := None,
     t_claimed_at := None, t_work_started_at := None, t_updated_at := clk\<rparr>"

definition give_claim :: "instant \<Rightarrow> member_id \<Rightarrow> instant option \<Rightarrow> lease_id \<Rightarrow> thread_row \<Rightarrow> thread_row" where
  "give_claim clk m expires lease t = t\<lparr>t_assignee := Some m, t_expires_at := expires,
     t_lease := Some lease, t_work_started_at := None, t_updated_at := clk, t_claimed_at := Some clk\<rparr>"

definition live :: "thread_row \<Rightarrow> bool" where
  "live t \<longleftrightarrow> t_tombstoned_at t = None"

text \<open>The fence: the current holder under the current lease, on a live thread.\<close>

definition fence :: "member_id \<Rightarrow> lease_id \<Rightarrow> thread_row \<Rightarrow> bool" where
  "fence m lease t \<longleftrightarrow> t_assignee t = Some m \<and> t_lease t = Some lease \<and> live t"

text \<open>A member of the workspace the thread's channel is in.\<close>

definition member_of_thread :: "('z) claim_db_scheme \<Rightarrow> member_id \<Rightarrow> thread_row \<Rightarrow> bool" where
  "member_of_thread db m t \<longleftrightarrow>
     (\<exists>mr \<in> set (members db). \<exists>c \<in> set (channels db).
        c_workspace c = m_workspace mr \<and> m_id mr = m \<and> c_id c = t_channel t)"

definition charge_open_claim :: "instant \<Rightarrow> thread_id \<Rightarrow> ('z) claim_db_scheme \<Rightarrow> store_error + ('z) claim_db_scheme" where
  "charge_open_claim clk tid db =
     (case find_thread db tid of
        None \<Rightarrow> Inl NotFound
      | Some t \<Rightarrow> Inr (charge_wall tid (worked_secs (t_work_started_at t) clk) db))"

definition append_assignment_event ::
  "attribution option \<Rightarrow> instant \<Rightarrow> thread_row \<Rightarrow> member_id \<Rightarrow> member_id option \<Rightarrow> string option
    \<Rightarrow> ('z) claim_db_scheme \<Rightarrow> store_error + ('z) claim_db_scheme" where
  "append_assignment_event scope clk t actor previous note db =
     (let db = (case t_assignee t of Some a \<Rightarrow> record_worker scope (t_id t) a db | None \<Rightarrow> db)
      in and_then (thread_scope db (t_id t)) (\<lambda>(ws, ch).
         Inr (append_event (ThreadAssignmentChanged clk ws ch (t_id t) actor previous (t_assignee t) note t) db)))"

subsection \<open>Assigning\<close>

definition assign ::
  "attribution option \<Rightarrow> instant \<Rightarrow> lease_id \<Rightarrow> thread_id \<Rightarrow> member_id \<Rightarrow> ('z) claim_db_scheme
    \<Rightarrow> store_error + thread_row \<times> ('z) claim_db_scheme" where
  "assign scope clk lease tid assignee db =
     and_then (refuse_same_family db tid assignee) (\<lambda>_.
     and_then (refuse_round_cap_claim db tid) (\<lambda>_.
     and_then (charge_open_claim clk tid db) (\<lambda>db1.
     case update_thread tid (\<lambda>t. live t \<and> member_of_thread db1 assignee t \<and> shared_family db1 assignee tid = None)
            (give_claim clk assignee None lease) db1 of
       None \<Rightarrow> Inl NotFound
     | Some (t, db2) \<Rightarrow> Inr (t, record_worker scope tid assignee db2))))"

definition assign_with_event ::
  "attribution option \<Rightarrow> instant \<Rightarrow> lease_id \<Rightarrow> thread_id \<Rightarrow> member_id \<Rightarrow> member_id \<Rightarrow> string option
    \<Rightarrow> ('z) claim_db_scheme \<Rightarrow> store_error + thread_row \<times> ('z) claim_db_scheme" where
  "assign_with_event scope clk lease tid assignee actor note db =
     and_then (refuse_same_family db tid assignee) (\<lambda>_.
     and_then (refuse_round_cap_claim db tid) (\<lambda>_.
     and_then (ok_or (find (\<lambda>t. t_id t = tid \<and> live t) (threads db)) NotFound) (\<lambda>before.
     and_then (charge_open_claim clk tid db) (\<lambda>db1.
     case update_thread tid (\<lambda>t. live t \<and> member_of_thread db1 assignee t \<and> shared_family db1 assignee tid = None)
            (give_claim clk assignee None lease) db1 of
       None \<Rightarrow> Inl NotFound
     | Some (t, db2) \<Rightarrow>
         and_then (append_assignment_event scope clk t actor (t_assignee before) note db2) (\<lambda>db3.
         Inr (t, db3))))))"

definition clear_assignee :: "instant \<Rightarrow> thread_id \<Rightarrow> ('z) claim_db_scheme
    \<Rightarrow> store_error + thread_row \<times> ('z) claim_db_scheme" where
  "clear_assignee clk tid db =
     and_then (charge_open_claim clk tid db) (\<lambda>db1.
     ok_or (update_thread tid (\<lambda>t. True) (clear_claim clk) db1) NotFound)"

definition unassign :: "instant \<Rightarrow> thread_id \<Rightarrow> ('z) claim_db_scheme
    \<Rightarrow> store_error + thread_row \<times> ('z) claim_db_scheme" where
  "unassign clk tid db = clear_assignee clk tid db"

definition unassign_with_event ::
  "attribution option \<Rightarrow> instant \<Rightarrow> thread_id \<Rightarrow> member_id \<Rightarrow> ('z) claim_db_scheme
    \<Rightarrow> store_error + thread_row \<times> ('z) claim_db_scheme" where
  "unassign_with_event scope clk tid actor db =
     and_then (ok_or (find_thread db tid) NotFound) (\<lambda>before.
     and_then (clear_assignee clk tid db) (\<lambda>(t, db1).
     and_then (append_assignment_event scope clk t actor (t_assignee before) None db1) (\<lambda>db2.
     Inr (t, db2))))"

subsection \<open>Claiming a named thread\<close>

definition claim ::
  "attribution option \<Rightarrow> instant \<Rightarrow> lease_id \<Rightarrow> thread_id \<Rightarrow> member_id \<Rightarrow> ('z) claim_db_scheme
    \<Rightarrow> store_error + (thread_row \<times> bool) \<times> ('z) claim_db_scheme" where
  "claim scope clk lease tid m db =
     and_then (refuse_same_family db tid m) (\<lambda>_.
     and_then (refuse_round_cap_claim db tid) (\<lambda>_.
     case update_thread tid (\<lambda>t. t_assignee t = None \<and> live t \<and> shared_family db m tid = None)
            (give_claim clk m None lease) db of
       Some (t, db1) \<Rightarrow>
         and_then (refuse_duplicate_claim db1 tid) (\<lambda>_.
         Inr ((t, True), record_worker scope tid m db1))
     | None \<Rightarrow>
         and_then (ok_or (find_thread db tid) NotFound) (\<lambda>t. Inr ((t, False), db))))"

definition claim_with_event ::
  "attribution option \<Rightarrow> instant \<Rightarrow> lease_id \<Rightarrow> thread_id \<Rightarrow> member_id \<Rightarrow> ('z) claim_db_scheme
    \<Rightarrow> store_error + (thread_row \<times> bool) \<times> ('z) claim_db_scheme" where
  "claim_with_event scope clk lease tid m db =
     and_then (refuse_same_family db tid m) (\<lambda>_.
     and_then (refuse_round_cap_claim db tid) (\<lambda>_.
     case update_thread tid (\<lambda>t. t_assignee t = None \<and> live t \<and> shared_family db m tid = None)
            (give_claim clk m None lease) db of
       Some (t, db1) \<Rightarrow>
         and_then (refuse_duplicate_claim db1 tid) (\<lambda>_.
         and_then (append_assignment_event scope clk t m None None db1) (\<lambda>db2.
         Inr ((t, True), db2)))
     | None \<Rightarrow>
         and_then (ok_or (find_thread db tid) NotFound) (\<lambda>t. Inr ((t, False), db))))"

subsection \<open>Working a claim\<close>

definition renew_claim ::
  "instant \<Rightarrow> thread_id \<Rightarrow> member_id \<Rightarrow> lease_id \<Rightarrow> int \<Rightarrow> ('z) claim_db_scheme
    \<Rightarrow> store_error + thread_row \<times> ('z) claim_db_scheme" where
  "renew_claim clk tid m lease lease_secs db =
     ok_or (update_thread tid (fence m lease)
       (\<lambda>t. t\<lparr>t_expires_at := Some (clk + secs lease_secs), t_updated_at := clk\<rparr>) db) NotFound"

definition acknowledge_claim ::
  "instant \<Rightarrow> thread_id \<Rightarrow> member_id \<Rightarrow> lease_id \<Rightarrow> ('z) claim_db_scheme
    \<Rightarrow> store_error + thread_row \<times> ('z) claim_db_scheme" where
  "acknowledge_claim clk tid m lease db =
     ok_or (update_thread tid (fence m lease)
       (\<lambda>t. t\<lparr>t_work_started_at := Some (unwrap_or (t_work_started_at t) clk), t_updated_at := clk\<rparr>) db) NotFound"

definition release_fenced ::
  "instant \<Rightarrow> thread_id \<Rightarrow> member_id \<Rightarrow> lease_id \<Rightarrow> ('z) claim_db_scheme
    \<Rightarrow> store_error + thread_row \<times> ('z) claim_db_scheme" where
  "release_fenced clk tid m lease db =
     and_then (ok_or (find (\<lambda>t. t_id t = tid \<and> fence m lease t) (threads db)) NotFound) (\<lambda>before.
     let db1 = charge_wall tid (worked_secs (t_work_started_at before) clk) db
     in ok_or (update_thread tid (fence m lease) (clear_claim clk) db1) NotFound)"

definition release_claim ::
  "instant \<Rightarrow> thread_id \<Rightarrow> member_id \<Rightarrow> lease_id \<Rightarrow> ('z) claim_db_scheme
    \<Rightarrow> store_error + thread_row \<times> ('z) claim_db_scheme" where
  "release_claim clk tid m lease db = release_fenced clk tid m lease db"

definition release_claim_with_event ::
  "attribution option \<Rightarrow> instant \<Rightarrow> thread_id \<Rightarrow> member_id \<Rightarrow> lease_id \<Rightarrow> ('z) claim_db_scheme
    \<Rightarrow> store_error + thread_row \<times> ('z) claim_db_scheme" where
  "release_claim_with_event scope clk tid m lease db =
     and_then (release_fenced clk tid m lease db) (\<lambda>(t, db1).
     and_then (append_assignment_event scope clk t m (Some m) None db1) (\<lambda>db2.
     Inr (t, db2)))"

text \<open>Every claim of a departing member, each charged first.\<close>

definition member_holds :: "member_id \<Rightarrow> thread_row \<Rightarrow> bool" where
  "member_holds m t \<longleftrightarrow> t_assignee t = Some m \<and> live t \<and> t_state t \<notin> {Closed, Archived}"

definition release_member_claims :: "instant \<Rightarrow> member_id \<Rightarrow> ('z) claim_db_scheme \<Rightarrow> nat \<times> ('z) claim_db_scheme" where
  "release_member_claims clk m db =
     (let rows = filter (member_holds m) (threads db);
          db1 = fold (\<lambda>t. charge_wall (t_id t) (worked_secs (t_work_started_at t) clk)) rows db
      in (length rows, db1\<lparr>threads := update_where (member_holds m) (clear_claim clk) (threads db1)\<rparr>))"

definition set_owner :: "instant \<Rightarrow> thread_id \<Rightarrow> member_id option \<Rightarrow> ('z) claim_db_scheme
    \<Rightarrow> store_error + thread_row \<times> ('z) claim_db_scheme" where
  "set_owner clk tid owner db =
     ok_or (update_thread tid
       (\<lambda>t. live t \<and> (case owner of None \<Rightarrow> True | Some m \<Rightarrow> member_of_thread db m t))
       (\<lambda>t. t\<lparr>t_owner := owner, t_updated_at := clk\<rparr>) db) NotFound"

definition set_title :: "thread_id \<Rightarrow> string option \<Rightarrow> ('z) claim_db_scheme
    \<Rightarrow> store_error + thread_row \<times> ('z) claim_db_scheme" where
  "set_title tid title db = ok_or (update_thread tid live (\<lambda>t. t\<lparr>t_title := title\<rparr>) db) NotFound"

subsection \<open>The boot grace\<close>

text \<open>\<open>ClaimGrace\<close> is the microsecond until which no lease counts as lapsed; 0 before any is set.\<close>

type_synonym grace = int

definition hold_until :: "instant \<Rightarrow> grace" where
  "hold_until until = until"

definition held_until :: "grace \<Rightarrow> instant option" where
  "held_until g = (if g = 0 then None else Some g)"

definition holding :: "grace \<Rightarrow> instant \<Rightarrow> bool" where
  "holding g now \<longleftrightarrow> now < g"

definition lease_clock :: "grace \<Rightarrow> instant \<Rightarrow> instant" where
  "lease_clock g now = (if holding g now then 0 else now)"

subsection \<open>Lapsed claims\<close>

definition fail_claim ::
  "instant \<Rightarrow> workspace_id \<Rightarrow> channel_id \<Rightarrow> thread_row \<Rightarrow> member_id \<Rightarrow> budget_reason \<Rightarrow> budget_row
    \<Rightarrow> ('z) claim_db_scheme \<Rightarrow> ('z) claim_db_scheme" where
  "fail_claim clk ws ch t holder reason b db =
     (let db1 = append_event (ClaimFailed clk ws ch (t_id t) holder reason t) db
      in db1\<lparr>dlq := dlq db1 @ [\<lparr>d_workspace = ws, d_channel = ch, d_thread = t_id t, d_member = holder,
           d_reason = reason, d_used_tokens = b_used_tokens b, d_used_usd = b_used_usd b,
           d_used_turns = b_used_turns b\<rparr>]\<rparr>)"

definition append_claim_expired ::
  "instant \<Rightarrow> thread_row \<Rightarrow> member_id \<Rightarrow> ('z) claim_db_scheme \<Rightarrow> store_error + ('z) claim_db_scheme" where
  "append_claim_expired clk t holder db =
     and_then (thread_scope db (t_id t)) (\<lambda>(ws, ch).
     Inr (append_event (ClaimExpired clk ws ch (t_id t) holder t) db))"

definition end_lapsed_claim ::
  "instant \<Rightarrow> thread_row \<Rightarrow> member_id \<Rightarrow> instant \<Rightarrow> instant option \<Rightarrow> ('z) claim_db_scheme
    \<Rightarrow> store_error + ('z) claim_db_scheme" where
  "end_lapsed_claim clk t holder deadline started db =
     (let db1 = charge_wall (t_id t) (worked_secs started deadline) db
      in case Option.bind (get_budget db1 (t_id t)) (\<lambda>b. map_option (\<lambda>r. (b, r)) (exceeded b None)) of
           Some (b, reason) \<Rightarrow>
             and_then (thread_scope db1 (t_id t)) (\<lambda>(ws, ch).
             Inr (fail_claim clk ws ch t holder reason b db1))
         | None \<Rightarrow> append_claim_expired clk t holder db1)"

text \<open>The holder, deadline and working clock of the claim a row still carries.\<close>

definition lapsed_claim :: "thread_row \<Rightarrow> (member_id \<times> instant \<times> instant option) option" where
  "lapsed_claim t =
     Option.bind (t_assignee t) (\<lambda>holder.
     map_option (\<lambda>deadline. (holder, deadline, t_work_started_at t)) (t_expires_at t))"

text \<open>Give a candidate to a member under a new fencing token.\<close>

definition take_candidate ::
  "instant \<Rightarrow> lease_id \<Rightarrow> int option \<Rightarrow> thread_id \<Rightarrow> member_id \<Rightarrow> ('z) claim_db_scheme
    \<Rightarrow> store_error + thread_row \<times> ('z) claim_db_scheme" where
  "take_candidate clk lease lease_secs tid m db =
     ok_or (update_thread tid (\<lambda>t. True)
       (give_claim clk m (map_option (\<lambda>s. clk + secs s) lease_secs) lease) db) NotFound"

text \<open>\<open>LIMIT n\<close>; a negative limit is none.\<close>

definition sql_limit :: "int \<Rightarrow> 'a list \<Rightarrow> 'a list" where
  "sql_limit n xs = (if n < 0 then xs else take (nat n) xs)"

definition lapsed_before :: "instant \<Rightarrow> thread_row \<Rightarrow> bool" where
  "lapsed_before now t \<longleftrightarrow>
     t_assignee t \<noteq> None \<and> (case t_expires_at t of None \<Rightarrow> False | Some d \<Rightarrow> d < now)
   \<and> live t \<and> t_state t \<notin> {Closed, Archived}"

definition reap_one ::
  "instant \<Rightarrow> instant \<Rightarrow> thread_row \<Rightarrow> ('z) claim_db_scheme \<Rightarrow> store_error + ('z) claim_db_scheme" where
  "reap_one clk now cand db =
     (case lapsed_claim cand of
        None \<Rightarrow> Inl (InvalidInput ''a reaped claim has no holder or deadline'')
      | Some (holder, deadline, started) \<Rightarrow>
          (case update_thread (t_id cand) (\<lambda>t. t_assignee t = Some holder \<and> lapsed_before now t)
                  (clear_claim clk) db of
             None \<Rightarrow> Inr db
           | Some (t, db1) \<Rightarrow> end_lapsed_claim clk t holder deadline started db1))"

fun reap_all ::
  "instant \<Rightarrow> instant \<Rightarrow> thread_row list \<Rightarrow> ('z) claim_db_scheme \<Rightarrow> store_error + ('z) claim_db_scheme" where
  "reap_all clk now [] db = Inr db"
| "reap_all clk now (c # cs) db = and_then (reap_one clk now c db) (\<lambda>db1. reap_all clk now cs db1)"

definition reap_expired_claims ::
  "grace \<Rightarrow> instant \<Rightarrow> instant \<Rightarrow> int \<Rightarrow> ('z) claim_db_scheme \<Rightarrow> store_error + ('z) claim_db_scheme" where
  "reap_expired_claims g clk now limit db =
     (if holding g now then Inr db
      else reap_all clk now
             (sql_limit limit
               (sort_key (\<lambda>t. (the (t_expires_at t), t_id t)) (filter (lapsed_before now) (threads db)))) db)"

subsection \<open>Waits on a person\<close>

definition waiting_row :: "instant \<Rightarrow> instant \<Rightarrow> thread_row \<Rightarrow> status_row \<Rightarrow> bool" where
  "waiting_row now declared_before t s \<longleftrightarrow>
     s_thread s = t_id t \<and> t_assignee t = Some (s_declared_by s)
   \<and> s_status s \<in> {NeedsInput, NeedsReview} \<and> s_declared_at s < declared_before
   \<and> t_lease t \<noteq> None \<and> t_work_started_at t \<noteq> None
   \<and> (case t_expires_at t of None \<Rightarrow> False | Some d \<Rightarrow> d \<ge> now)
   \<and> live t \<and> t_state t = Open"

definition return_one ::
  "instant \<Rightarrow> string \<Rightarrow> thread_row \<times> status_row \<Rightarrow> ('z) claim_db_scheme \<Rightarrow> store_error + ('z) claim_db_scheme" where
  "return_one clk policy = (\<lambda>(t, s) db.
     and_then (release_fenced clk (t_id t) (the (t_assignee t)) (the (t_lease t)) db) (\<lambda>(_, db1).
     let db2 = db1\<lparr>statuses := filter (\<lambda>s'. s_thread s' \<noteq> t_id t) (statuses db1)\<rparr>
     in and_then (thread_scope db2 (t_id t)) (\<lambda>(ws, ch).
        Inr (append_event (WaitTimedOut clk ws ch (t_id t) policy
               (if trim (s_note s) = [] then None else Some (s_note s))) db2))))"

fun return_all ::
  "instant \<Rightarrow> string \<Rightarrow> (thread_row \<times> status_row) list \<Rightarrow> ('z) claim_db_scheme \<Rightarrow> store_error + ('z) claim_db_scheme" where
  "return_all clk policy [] db = Inr db"
| "return_all clk policy (c # cs) db = and_then (return_one clk policy c db) (\<lambda>db1. return_all clk policy cs db1)"

definition return_human_timeouts ::
  "instant \<Rightarrow> instant \<Rightarrow> instant \<Rightarrow> string \<Rightarrow> int \<Rightarrow> ('z) claim_db_scheme \<Rightarrow> store_error + ('z) claim_db_scheme" where
  "return_human_timeouts clk now declared_before policy limit db =
     return_all clk policy
       (sql_limit limit
         (sort_key (\<lambda>(t, s). (s_declared_at s, t_id t))
           (filter (\<lambda>(t, s). waiting_row now declared_before t s) (List.product (threads db) (statuses db))))) db"

subsection \<open>Reports on claims nobody works\<close>

definition stale_claim :: "instant \<Rightarrow> instant \<Rightarrow> thread_row \<Rightarrow> bool" where
  "stale_claim now claimed_before t \<longleftrightarrow>
     t_lease t \<noteq> None \<and> t_work_started_at t = None \<and> t_assignee t \<noteq> None
   \<and> (case t_claimed_at t of None \<Rightarrow> False | Some c \<Rightarrow> c < claimed_before)
   \<and> (case t_expires_at t of None \<Rightarrow> False | Some d \<Rightarrow> d \<ge> now)
   \<and> t_unack_lease t \<noteq> t_lease t
   \<and> live t \<and> t_state t = Open"

definition append_claim_unacknowledged ::
  "instant \<Rightarrow> thread_row \<Rightarrow> ('z) claim_db_scheme \<Rightarrow> store_error + ('z) claim_db_scheme" where
  "append_claim_unacknowledged clk t db =
     and_then (ok_or (t_assignee t) (InvalidInput ''an unacknowledged claim has no holder'')) (\<lambda>m.
     and_then (thread_scope db (t_id t)) (\<lambda>(ws, ch).
     Inr (append_event (ClaimUnacknowledged clk ws ch (t_id t) m (the (t_claimed_at t)) t) db)))"

fun unack_all ::
  "instant \<Rightarrow> instant \<Rightarrow> instant \<Rightarrow> thread_row list \<Rightarrow> ('z) claim_db_scheme \<Rightarrow> store_error + ('z) claim_db_scheme" where
  "unack_all clk now claimed_before [] db = Inr db"
| "unack_all clk now claimed_before (c # cs) db =
     (case update_thread (t_id c) (\<lambda>t. t_lease t = t_lease c \<and> stale_claim now claimed_before t)
             (\<lambda>t. t\<lparr>t_unack_lease := t_lease t\<rparr>) db of
        None \<Rightarrow> unack_all clk now claimed_before cs db
      | Some (t, db1) \<Rightarrow>
          and_then (append_claim_unacknowledged clk t db1) (\<lambda>db2. unack_all clk now claimed_before cs db2))"

definition report_unacknowledged_claims ::
  "instant \<Rightarrow> instant \<Rightarrow> instant \<Rightarrow> int \<Rightarrow> ('z) claim_db_scheme \<Rightarrow> store_error + ('z) claim_db_scheme" where
  "report_unacknowledged_claims clk now claimed_before limit db =
     unack_all clk now claimed_before
       (sql_limit limit
         (sort_key (\<lambda>t. (the (t_claimed_at t), t_id t)) (filter (stale_claim now claimed_before) (threads db)))) db"

end
