(* ===== verification/Footprint_Store.thy ===== *)
theory Footprint_Store
  imports Claims
begin

text \<open>
  Footprints in the store: \<open>maidan-store/src/footprints.rs\<close> and \<open>sqlite/footprints.rs\<close>.  The
  SQL conditions are predicates over the tables, with the same joins.  A footprint counts while
  its thread holds a live claim.
\<close>

definition live_claim :: "instant \<Rightarrow> thread_row \<Rightarrow> bool" where
  "live_claim now t \<longleftrightarrow>
     t_assignee t \<noteq> None \<and> t_state t = Open \<and> t_tombstoned_at t = None
   \<and> (case t_expires_at t of None \<Rightarrow> True | Some d \<Rightarrow> d \<ge> now)"

definition path_keys_overlap :: "string \<Rightarrow> string \<Rightarrow> bool" where
  "path_keys_overlap a b \<longleftrightarrow> starts_with a b \<or> starts_with b a"

definition covered_paths :: "string list \<Rightarrow> string list \<Rightarrow> nat \<Rightarrow> string list" where
  "covered_paths keys paths limit =
     take limit (filter (\<lambda>path. \<exists>key \<in> set keys. path_keys_overlap key path) paths)"

text \<open>Group rows that come ordered by thread.\<close>

fun keys_by_thread_from ::
  "(thread_id \<times> string list) list \<Rightarrow> (thread_id \<times> string) list \<Rightarrow> (thread_id \<times> string list) list" where
  "keys_by_thread_from grouped [] = grouped"
| "keys_by_thread_from grouped ((t, key) # rows) =
     keys_by_thread_from
       (case rev grouped of
          (l, keys) # before \<Rightarrow>
            if l = t then rev before @ [(l, keys @ [key])] else grouped @ [(t, [key])]
        | [] \<Rightarrow> [(t, [key])]) rows"

definition keys_by_thread :: "(thread_id \<times> string) list \<Rightarrow> (thread_id \<times> string list) list" where
  "keys_by_thread rows = keys_by_thread_from [] rows"

text \<open>One item against one item: the join condition of \<open>overlapping\<close>.\<close>

definition items_overlap :: "footprint_row \<Rightarrow> footprint_row \<Rightarrow> bool" where
  "items_overlap mine theirs \<longleftrightarrow>
     fr_workspace theirs = fr_workspace mine \<and> fr_repo theirs = fr_repo mine
   \<and> fr_namespace theirs = fr_namespace mine \<and> fr_thread theirs \<noteq> fr_thread mine
   \<and> fr_namespace mine \<noteq> ''slot''
   \<and> (fr_mode mine = Exclusive \<or> fr_mode theirs = Exclusive \<or> fr_namespace mine = ''branch'')
   \<and> (if fr_namespace mine = ''path'' then path_keys_overlap (fr_key mine) (fr_key theirs)
      else fr_key mine = fr_key theirs)"

definition conflicts_with_live_claims :: "('z) queue_db_scheme \<Rightarrow> thread_id \<Rightarrow> instant \<Rightarrow> bool" where
  "conflicts_with_live_claims db tid now \<longleftrightarrow>
     (\<exists>mine \<in> set (footprints db). \<exists>theirs \<in> set (footprints db). \<exists>held \<in> set (threads db).
        fr_thread mine = tid \<and> items_overlap mine theirs
      \<and> t_id held = fr_thread theirs \<and> live_claim now held)"

text \<open>Slots count across repositories and modes.\<close>

definition slot_holders :: "('z) queue_db_scheme \<Rightarrow> workspace_id \<Rightarrow> string \<Rightarrow> instant \<Rightarrow> thread_id list" where
  "slot_holders db ws key now =
     remdups (map fr_thread
       (filter (\<lambda>sf. fr_workspace sf = ws \<and> fr_namespace sf = ''slot'' \<and> fr_key sf = key
          \<and> (\<exists>held \<in> set (threads db). t_id held = fr_thread sf \<and> live_claim now held)) (footprints db)))"

definition slot_in_use :: "('z) queue_db_scheme \<Rightarrow> workspace_id \<Rightarrow> string \<Rightarrow> thread_id \<Rightarrow> instant \<Rightarrow> int" where
  "slot_in_use db ws key tid now = int (length (filter (\<lambda>t. t \<noteq> tid) (slot_holders db ws key now)))"

definition slot_full :: "('z) queue_db_scheme \<Rightarrow> thread_id \<Rightarrow> instant \<Rightarrow> bool" where
  "slot_full db tid now \<longleftrightarrow>
     (\<exists>slots \<in> set (footprints db). \<exists>cap \<in> set (slot_capacities db).
        sc_workspace cap = fr_workspace slots \<and> sc_slot cap = fr_key slots
      \<and> fr_thread slots = tid \<and> fr_namespace slots = ''slot''
      \<and> sc_capacity cap \<le> slot_in_use db (fr_workspace slots) (fr_key slots) tid now)"

definition repo_paused :: "('z) queue_db_scheme \<Rightarrow> thread_id \<Rightarrow> bool" where
  "repo_paused db tid \<longleftrightarrow>
     (\<exists>pf \<in> set (footprints db). \<exists>rp \<in> set (repo_pauses db).
        rp_workspace rp = fr_workspace pf \<and> rp_repo rp = fr_repo pf \<and> fr_thread pf = tid)"

definition deferred :: "('z) queue_db_scheme \<Rightarrow> thread_id \<Rightarrow> instant \<Rightarrow> bool" where
  "deferred db tid now \<longleftrightarrow>
     conflicts_with_live_claims db tid now \<or> repo_paused db tid \<or> slot_full db tid now"

definition deferral_reasons :: "bool \<Rightarrow> bool \<Rightarrow> bool \<Rightarrow> deferral_reason list" where
  "deferral_reasons overlap paused full =
     List.map_filter (\<lambda>(on, r). if on then Some r else None)
       [(overlap, Overlap), (paused, RepoPaused), (full, SlotFull)]"

text \<open>\<open>conflicts_select\<close>: the live-claim items in the way, overlapped or holding a full slot.\<close>

definition full_slot_holder :: "('z) queue_db_scheme \<Rightarrow> instant \<Rightarrow> footprint_row \<Rightarrow> footprint_row \<Rightarrow> bool" where
  "full_slot_holder db now slots theirs \<longleftrightarrow>
     fr_namespace slots = ''slot'' \<and> fr_workspace theirs = fr_workspace slots
   \<and> fr_namespace theirs = ''slot'' \<and> fr_key theirs = fr_key slots \<and> fr_thread theirs \<noteq> fr_thread slots
   \<and> (\<exists>cap \<in> set (slot_capacities db). sc_workspace cap = fr_workspace slots \<and> sc_slot cap = fr_key slots
        \<and> sc_capacity cap \<le> slot_in_use db (fr_workspace slots) (fr_key slots) (fr_thread slots) now)"

definition conflicts_select :: "('z) queue_db_scheme \<Rightarrow> thread_id \<Rightarrow> instant \<Rightarrow> footprint_row list" where
  "conflicts_select db tid now =
     filter (\<lambda>theirs.
        (\<exists>held \<in> set (threads db). t_id held = fr_thread theirs \<and> live_claim now held)
      \<and> (\<exists>mine \<in> set (footprints db). fr_thread mine = tid
           \<and> (items_overlap mine theirs \<or> full_slot_holder db now mine theirs))) (footprints db)"

subsection \<open>Writing a footprint\<close>

definition item_row :: "thread_id \<Rightarrow> workspace_id \<Rightarrow> footprint \<Rightarrow> footprint_item \<Rightarrow> footprint_row" where
  "item_row tid ws fp it =
     \<lparr>fr_thread = tid, fr_workspace = ws, fr_repo = fp_repo fp, fr_mode = fp_mode fp,
      fr_kind = fi_kind it, fr_value = fi_value it, fr_namespace = kind_namespace (fi_kind it),
      fr_key = item_key it\<rparr>"

definition insert_items :: "thread_id \<Rightarrow> workspace_id \<Rightarrow> footprint \<Rightarrow> ('z) queue_db_scheme \<Rightarrow> ('z) queue_db_scheme" where
  "insert_items tid ws fp db = db\<lparr>footprints := footprints db @ map (item_row tid ws fp) (fp_items fp)\<rparr>"

text \<open>\<open>set\<close>: replace the footprint of a thread.  On a thread with a live claim it is refused, and the
  old footprint stays, when a conflict would follow; the conflicts are returned.\<close>

definition set_footprint ::
  "grace \<Rightarrow> instant \<Rightarrow> thread_id \<Rightarrow> footprint option \<Rightarrow> ('z) queue_db_scheme
    \<Rightarrow> store_error + footprint_row list \<times> ('z) queue_db_scheme" where
  "set_footprint g clk tid fp db =
     and_then (case fp of None \<Rightarrow> Inr None
               | Some f \<Rightarrow> (case footprint_validated f of
                     Inl e \<Rightarrow> Inl (InvalidFootprint e)
                   | Inr f' \<Rightarrow> Inr (if fp_items f' = [] then None else Some f'))) (\<lambda>fp.
     let now = lease_clock g clk
     in and_then (ok_or (find_thread db tid) NotFound) (\<lambda>t.
        and_then (thread_scope db tid) (\<lambda>(ws, _).
        let db1 = db\<lparr>footprints := filter (\<lambda>f. fr_thread f \<noteq> tid) (footprints db)\<rparr>
        in case fp of
             None \<Rightarrow> Inr ([], db1)
           | Some f \<Rightarrow>
               (let db2 = insert_items tid ws f db1
                in if live_claim now t \<and> conflicts_select db2 tid now \<noteq> []
                   then Inr (conflicts_select db2 tid now, db)
                   else Inr ([], db2)))))"

definition pause_repo :: "workspace_id \<Rightarrow> string \<Rightarrow> ('z) queue_db_scheme \<Rightarrow> ('z) queue_db_scheme" where
  "pause_repo ws repo db =
     (if \<exists>rp \<in> set (repo_pauses db). rp_workspace rp = ws \<and> rp_repo rp = repo then db
      else db\<lparr>repo_pauses := repo_pauses db @ [\<lparr>rp_workspace = ws, rp_repo = repo\<rparr>]\<rparr>)"

definition resume_repo :: "workspace_id \<Rightarrow> string \<Rightarrow> ('z) queue_db_scheme \<Rightarrow> bool \<times> ('z) queue_db_scheme" where
  "resume_repo ws repo db =
     (\<exists>rp \<in> set (repo_pauses db). rp_workspace rp = ws \<and> rp_repo rp = repo,
      db\<lparr>repo_pauses := filter (\<lambda>rp. \<not> (rp_workspace rp = ws \<and> rp_repo rp = repo)) (repo_pauses db)\<rparr>)"

text \<open>The column has \<open>CHECK (capacity > 0)\<close>.\<close>

definition set_slot_capacity ::
  "workspace_id \<Rightarrow> string \<Rightarrow> int \<Rightarrow> ('z) queue_db_scheme \<Rightarrow> store_error + ('z) queue_db_scheme" where
  "set_slot_capacity ws slot capacity db =
     (let is_slot = (\<lambda>sc. sc_workspace sc = ws \<and> sc_slot sc = slot)
      in if \<not> capacity > 0 then Inl (Database ''CHECK constraint failed: capacity > 0'')
         else if \<exists>sc \<in> set (slot_capacities db). is_slot sc
         then Inr (db\<lparr>slot_capacities := update_where is_slot (\<lambda>sc. sc\<lparr>sc_capacity := capacity\<rparr>) (slot_capacities db)\<rparr>)
         else Inr (db\<lparr>slot_capacities := slot_capacities db @
                   [\<lparr>sc_workspace = ws, sc_slot = slot, sc_capacity = capacity\<rparr>]\<rparr>))"

definition clear_slot_capacity :: "workspace_id \<Rightarrow> string \<Rightarrow> ('z) queue_db_scheme \<Rightarrow> bool \<times> ('z) queue_db_scheme" where
  "clear_slot_capacity ws slot db =
     (\<exists>sc \<in> set (slot_capacities db). sc_workspace sc = ws \<and> sc_slot sc = slot,
      db\<lparr>slot_capacities := filter (\<lambda>sc. \<not> (sc_workspace sc = ws \<and> sc_slot sc = slot)) (slot_capacities db)\<rparr>)"

subsection \<open>Overlap is mutual\<close>

lemma path_keys_overlap_sym: "path_keys_overlap a b = path_keys_overlap b a"
  by (auto simp: path_keys_overlap_def)

lemma items_overlap_sym: "items_overlap a b = items_overlap b a"
  unfolding items_overlap_def using path_keys_overlap_sym by auto

text \<open>Two distinct threads conflict when an item of one overlaps an item of the other.\<close>

definition threads_conflict :: "('z) queue_db_scheme \<Rightarrow> thread_id \<Rightarrow> thread_id \<Rightarrow> bool" where
  "threads_conflict db a b \<longleftrightarrow>
     (\<exists>mine \<in> set (footprints db). \<exists>theirs \<in> set (footprints db).
        fr_thread mine = a \<and> fr_thread theirs = b \<and> items_overlap mine theirs)"

lemma threads_conflict_sym: "threads_conflict db a b = threads_conflict db b a"
  unfolding threads_conflict_def using items_overlap_sym by blast

lemma threads_conflict_irrefl: "\<not> threads_conflict db a a"
  by (auto simp: threads_conflict_def items_overlap_def)

lemma conflicts_with_live_claims_iff:
  "conflicts_with_live_claims db tid now \<longleftrightarrow>
     (\<exists>held \<in> set (threads db). live_claim now held \<and> threads_conflict db tid (t_id held))"
proof
  assume "conflicts_with_live_claims db tid now"
  then obtain mine theirs held where "mine \<in> set (footprints db)" "theirs \<in> set (footprints db)"
    "held \<in> set (threads db)" "fr_thread mine = tid" "items_overlap mine theirs"
    "t_id held = fr_thread theirs" "live_claim now held"
    unfolding conflicts_with_live_claims_def by blast
  then show "\<exists>held \<in> set (threads db). live_claim now held \<and> threads_conflict db tid (t_id held)"
    unfolding threads_conflict_def by (intro bexI [of _ held]) auto
next
  assume "\<exists>held \<in> set (threads db). live_claim now held \<and> threads_conflict db tid (t_id held)"
  then show "conflicts_with_live_claims db tid now"
    unfolding conflicts_with_live_claims_def threads_conflict_def by force
qed

text \<open>\<open>conflicts_select\<close> lists something exactly when the footprint is in the way of a live claim.\<close>

lemma slot_in_use_pos:
  "slot_in_use db ws key tid now > 0 \<longleftrightarrow>
     (\<exists>sf \<in> set (footprints db). fr_workspace sf = ws \<and> fr_namespace sf = ''slot'' \<and> fr_key sf = key
        \<and> fr_thread sf \<noteq> tid \<and> (\<exists>held \<in> set (threads db). t_id held = fr_thread sf \<and> live_claim now held))"
  by (auto simp: slot_in_use_def slot_holders_def filter_empty_conv)

lemma conflicts_select_iff:
  assumes "\<forall>cap \<in> set (slot_capacities db). sc_capacity cap \<ge> 1"
  shows "conflicts_select db tid now \<noteq> [] \<longleftrightarrow> conflicts_with_live_claims db tid now \<or> slot_full db tid now"
proof
  assume "conflicts_select db tid now \<noteq> []"
  then show "conflicts_with_live_claims db tid now \<or> slot_full db tid now"
    unfolding conflicts_select_def conflicts_with_live_claims_def slot_full_def full_slot_holder_def
    by (fastforce simp: filter_empty_conv)
next
  assume "conflicts_with_live_claims db tid now \<or> slot_full db tid now"
  then show "conflicts_select db tid now \<noteq> []"
  proof
    assume "conflicts_with_live_claims db tid now"
    then show ?thesis
      unfolding conflicts_select_def conflicts_with_live_claims_def filter_empty_conv by blast
  next
    assume "slot_full db tid now"
    then obtain sl cap where sl: "sl \<in> set (footprints db)" "fr_thread sl = tid" "fr_namespace sl = ''slot''"
      and cap: "cap \<in> set (slot_capacities db)" "sc_workspace cap = fr_workspace sl" "sc_slot cap = fr_key sl"
        "sc_capacity cap \<le> slot_in_use db (fr_workspace sl) (fr_key sl) tid now"
      unfolding slot_full_def by blast
    with assms have "slot_in_use db (fr_workspace sl) (fr_key sl) tid now > 0" by force
    then obtain sf where "sf \<in> set (footprints db)" "fr_workspace sf = fr_workspace sl" "fr_namespace sf = ''slot''"
      "fr_key sf = fr_key sl" "fr_thread sf \<noteq> tid"
      "\<exists>held \<in> set (threads db). t_id held = fr_thread sf \<and> live_claim now held"
      unfolding slot_in_use_pos by blast
    with sl cap show ?thesis
      unfolding conflicts_select_def full_slot_holder_def filter_empty_conv by blast
  qed
qed

end
