(* ===== verification/Capability.thy ===== *)
theory Capability
  imports Store_Tables
begin

text \<open>
  Capabilities and attenuation: \<open>crates/maidan-auth/src/capability.rs\<close>, \<open>capability_set.rs\<close> and
  \<open>context.rs\<close>.  A caller may drop rights it holds and never gain one; a borrowed context carries
  work and never authority.  The error strings are the constructors of \<open>cap_error\<close>.
\<close>

type_synonym capability = string

definition WORKSPACE_READ :: capability where "WORKSPACE_READ = ''workspace:read''"
definition WORKSPACE_WRITE :: capability where "WORKSPACE_WRITE = ''workspace:write''"
definition MESSAGE_POST :: capability where "MESSAGE_POST = ''message:post''"
definition THREAD_TRANSITION :: capability where "THREAD_TRANSITION = ''thread:transition''"
definition ARTIFACT_UPLOAD :: capability where "ARTIFACT_UPLOAD = ''artifact:upload''"
definition SEARCH_QUERY :: capability where "SEARCH_QUERY = ''search:query''"
definition EVENT_SUBSCRIBE :: capability where "EVENT_SUBSCRIBE = ''event:subscribe''"
definition TOKEN_ADMIN :: capability where "TOKEN_ADMIN = ''token:admin''"
definition FEDERATION_INGEST :: capability where "FEDERATION_INGEST = ''federation:ingest''"
definition FEDERATION_ADMIN :: capability where "FEDERATION_ADMIN = ''federation:admin''"
definition AUDIT_READ_GLOBAL :: capability where "AUDIT_READ_GLOBAL = ''audit:read-global''"
definition CHANNEL_ADMIN :: capability where "CHANNEL_ADMIN = ''channel:admin''"
definition SECRET_READ :: capability where "SECRET_READ = ''secret:read''"
definition SECRET_ADMIN :: capability where "SECRET_ADMIN = ''secret:admin''"
definition OPERATOR_GLOBAL :: capability where "OPERATOR_GLOBAL = ''operator:global''"
definition APPROVAL_GRANT :: capability where "APPROVAL_GRANT = ''approval:grant''"
definition WORKSPACE_ADMIN :: capability where "WORKSPACE_ADMIN = ''workspace:admin''"

lemmas capability_names =
  WORKSPACE_READ_def WORKSPACE_WRITE_def MESSAGE_POST_def THREAD_TRANSITION_def ARTIFACT_UPLOAD_def
  SEARCH_QUERY_def EVENT_SUBSCRIBE_def TOKEN_ADMIN_def FEDERATION_INGEST_def FEDERATION_ADMIN_def
  AUDIT_READ_GLOBAL_def CHANNEL_ADMIN_def SECRET_READ_def SECRET_ADMIN_def OPERATOR_GLOBAL_def
  APPROVAL_GRANT_def WORKSPACE_ADMIN_def

definition KNOWN :: "capability list" where
  "KNOWN = [WORKSPACE_READ, WORKSPACE_WRITE, MESSAGE_POST, THREAD_TRANSITION, ARTIFACT_UPLOAD,
     SEARCH_QUERY, EVENT_SUBSCRIBE, TOKEN_ADMIN, FEDERATION_INGEST, FEDERATION_ADMIN,
     AUDIT_READ_GLOBAL, OPERATOR_GLOBAL, CHANNEL_ADMIN, SECRET_READ, SECRET_ADMIN, APPROVAL_GRANT,
     WORKSPACE_ADMIN]"

definition DELEGATABLE :: "capability list" where
  "DELEGATABLE = [WORKSPACE_READ, WORKSPACE_WRITE, MESSAGE_POST, THREAD_TRANSITION, ARTIFACT_UPLOAD,
     SEARCH_QUERY, EVENT_SUBSCRIBE]"

definition is_delegatable :: "capability \<Rightarrow> bool" where
  "is_delegatable c \<longleftrightarrow> c \<in> set DELEGATABLE"

definition default_minted :: "capability list" where
  "default_minted = [WORKSPACE_READ, WORKSPACE_WRITE, EVENT_SUBSCRIBE, SEARCH_QUERY]"

definition is_known :: "capability \<Rightarrow> bool" where
  "is_known c \<longleftrightarrow> c \<in> set KNOWN"

text \<open>The compile-time twin: index loops over the bytes and over the list.\<close>

function const_str_eq_from :: "nat \<Rightarrow> string \<Rightarrow> string \<Rightarrow> bool" where
  "const_str_eq_from i l r =
     (if i < length l then (if l ! i \<noteq> r ! i then False else const_str_eq_from (i + 1) l r) else True)"
  by auto
termination by (relation "measure (\<lambda>(i, l, r). length l - i)") auto

definition const_str_eq :: "string \<Rightarrow> string \<Rightarrow> bool" where
  "const_str_eq l r = (if length l \<noteq> length r then False else const_str_eq_from 0 l r)"

function is_known_const_from :: "nat \<Rightarrow> capability \<Rightarrow> bool" where
  "is_known_const_from i c =
     (if i < length KNOWN then (if const_str_eq (KNOWN ! i) c then True else is_known_const_from (i + 1) c) else False)"
  by auto
termination by (relation "measure (\<lambda>(i, c). length KNOWN - i)") auto

definition is_known_const :: "capability \<Rightarrow> bool" where
  "is_known_const c = is_known_const_from 0 c"

declare const_str_eq_from.simps [simp del] is_known_const_from.simps [simp del]

datatype cap_error =
    UnknownCapability capability
  | UnknownSet string
  | ExceedsInstallation capability
  | ExceedsHolder capability
  | ExceedsNamedSet capability
  | EmptyGrant
  | ExpiryPast
  | ExpiryExceedsParent
  | ExpiryExceedsHour
  | ExpiryExceedsGrant
  | ExpiryExceedsBearer

definition validate_list :: "capability list \<Rightarrow> cap_error + unit" where
  "validate_list caps =
     (case find (\<lambda>c. \<not> is_known c) caps of Some c \<Rightarrow> Inl (UnknownCapability c) | None \<Rightarrow> Inr ())"

definition first_not_held :: "capability list \<Rightarrow> capability list \<Rightarrow> capability option" where
  "first_not_held held requested = find (\<lambda>c. c \<notin> set held) requested"

definition validate_subset :: "capability list \<Rightarrow> capability list \<Rightarrow> cap_error + unit" where
  "validate_subset granted requested =
     and_then (validate_list requested) (\<lambda>_.
     case first_not_held granted requested of Some c \<Rightarrow> Inl (ExceedsInstallation c) | None \<Rightarrow> Inr ())"

subsection \<open>Named sets\<close>

definition AGENT_WORKER :: string where "AGENT_WORKER = ''maidan.agent.worker''"
definition HUMAN_ADMIN :: string where "HUMAN_ADMIN = ''maidan.human.admin''"

definition worker_caps :: "capability list" where
  "worker_caps = [WORKSPACE_READ, WORKSPACE_WRITE, MESSAGE_POST, EVENT_SUBSCRIBE, SEARCH_QUERY,
     ARTIFACT_UPLOAD, THREAD_TRANSITION]"

definition admin_caps :: "capability list" where
  "admin_caps = worker_caps @ [TOKEN_ADMIN, CHANNEL_ADMIN, SECRET_READ, SECRET_ADMIN,
     AUDIT_READ_GLOBAL, OPERATOR_GLOBAL, WORKSPACE_ADMIN]"

definition named_sets :: "(string \<times> capability list) list" where
  "named_sets = [(AGENT_WORKER, worker_caps), (HUMAN_ADMIN, admin_caps)]"

definition is_named_set :: "string \<Rightarrow> bool" where
  "is_named_set name \<longleftrightarrow> name = AGENT_WORKER \<or> name = HUMAN_ADMIN"

definition expand_set :: "string \<Rightarrow> cap_error + capability list" where
  "expand_set name =
     (case find (\<lambda>(n, _). n = name) named_sets of Some (_, caps) \<Rightarrow> Inr caps | None \<Rightarrow> Inl (UnknownSet name))"

definition held_sets :: "capability list \<Rightarrow> string list" where
  "held_sets held = map fst (filter (\<lambda>(_, caps). \<forall>c \<in> set caps. c \<in> set held) named_sets)"

definition validate_held :: "capability list \<Rightarrow> capability list \<Rightarrow> cap_error + unit" where
  "validate_held held requested =
     and_then (validate_list requested) (\<lambda>_.
     case first_not_held held requested of Some c \<Rightarrow> Inl (ExceedsHolder c) | None \<Rightarrow> Inr ())"

fun unique_strs_from :: "capability list \<Rightarrow> capability list \<Rightarrow> capability list" where
  "unique_strs_from out [] = out"
| "unique_strs_from out (c # cs) = unique_strs_from (if c \<in> set out then out else out @ [c]) cs"

definition unique_strs :: "capability list \<Rightarrow> capability list" where
  "unique_strs caps = unique_strs_from [] caps"

definition attenuate :: "capability list \<Rightarrow> capability list \<Rightarrow> cap_error + capability list" where
  "attenuate held requested =
     (if requested = [] then Inl EmptyGrant
      else and_then (validate_held held requested) (\<lambda>_. Inr (unique_strs requested)))"

text \<open>\<open>e.replace("holder grant", "named set")\<close>.\<close>

fun as_named_set :: "cap_error \<Rightarrow> cap_error" where
  "as_named_set (ExceedsHolder c) = ExceedsNamedSet c"
| "as_named_set e = e"

definition progressive_grant ::
  "capability list \<Rightarrow> string option \<Rightarrow> capability list \<Rightarrow> cap_error + capability list" where
  "progressive_grant held set_name requested =
     (case (set_name, requested = []) of
        (Some name, True) \<Rightarrow>
          and_then (expand_set name) (\<lambda>expanded.
          and_then (validate_held held expanded) (\<lambda>_. Inr expanded))
      | (Some name, False) \<Rightarrow>
          and_then (expand_set name) (\<lambda>expanded.
          and_then (case validate_held expanded requested of Inl e \<Rightarrow> Inl (as_named_set e) | Inr u \<Rightarrow> Inr u) (\<lambda>_.
          attenuate held requested))
      | (None, False) \<Rightarrow> attenuate held requested
      | (None, True) \<Rightarrow> Inl EmptyGrant)"

subsection \<open>Expiry\<close>

definition attenuate_expiry ::
  "instant option \<Rightarrow> instant option \<Rightarrow> instant \<Rightarrow> cap_error + instant option" where
  "attenuate_expiry parent requested now =
     (case requested of
        Some e \<Rightarrow>
          if e \<le> now then Inl ExpiryPast
          else if (case parent of Some p \<Rightarrow> e > p | None \<Rightarrow> False) then Inl ExpiryExceedsParent
          else Inr (Some e)
      | None \<Rightarrow> Inr parent)"

definition DELEGATED_TOKEN_DEFAULT_TTL_SECS :: int where "DELEGATED_TOKEN_DEFAULT_TTL_SECS = 900"
definition DELEGATED_TOKEN_MAX_TTL_SECS :: int where "DELEGATED_TOKEN_MAX_TTL_SECS = 3600"

definition delegated_expiry ::
  "instant \<Rightarrow> instant option \<Rightarrow> instant option \<Rightarrow> instant \<Rightarrow> cap_error + instant" where
  "delegated_expiry grant_expires parent_expires requested now =
     (let default_expiry = now + secs DELEGATED_TOKEN_DEFAULT_TTL_SECS;
          e = (case requested of
                 Some r \<Rightarrow> r
               | None \<Rightarrow>
                   (let e = min default_expiry grant_expires
                    in case parent_expires of Some p \<Rightarrow> min e p | None \<Rightarrow> e))
      in if e \<le> now then Inl ExpiryPast
         else if e > now + secs DELEGATED_TOKEN_MAX_TTL_SECS then Inl ExpiryExceedsHour
         else if e > grant_expires then Inl ExpiryExceedsGrant
         else if (case parent_expires of Some p \<Rightarrow> e > p | None \<Rightarrow> False) then Inl ExpiryExceedsBearer
         else Inr e)"

subsection \<open>Contexts\<close>

record auth_context =
  ac_token :: "nat option"
  ac_actor :: member_id
  ac_member :: member_id
  ac_workspace :: workspace_id
  ac_app :: "nat option"
  ac_grant :: "nat option"
  ac_caps :: "capability list"
  ac_bypass :: bool
  ac_anonymous :: bool

definition from_token :: "nat \<Rightarrow> member_id \<Rightarrow> workspace_id \<Rightarrow> capability list \<Rightarrow> auth_context" where
  "from_token tok m ws caps =
     \<lparr>ac_token = Some tok, ac_actor = m, ac_member = m, ac_workspace = ws, ac_app = None,
      ac_grant = None, ac_caps = caps, ac_bypass = False, ac_anonymous = False\<rparr>"

definition from_app_token :: "nat \<Rightarrow> member_id \<Rightarrow> workspace_id \<Rightarrow> nat \<Rightarrow> capability list \<Rightarrow> auth_context" where
  "from_app_token tok m ws app caps =
     \<lparr>ac_token = Some tok, ac_actor = m, ac_member = m, ac_workspace = ws, ac_app = Some app,
      ac_grant = None, ac_caps = caps, ac_bypass = False, ac_anonymous = False\<rparr>"

definition from_session :: "member_id \<Rightarrow> workspace_id \<Rightarrow> capability list \<Rightarrow> auth_context" where
  "from_session m ws caps =
     \<lparr>ac_token = None, ac_actor = m, ac_member = m, ac_workspace = ws, ac_app = None,
      ac_grant = None, ac_caps = caps, ac_bypass = False, ac_anonymous = False\<rparr>"

definition bypass_context :: auth_context where
  "bypass_context =
     \<lparr>ac_token = None, ac_actor = 0, ac_member = 0, ac_workspace = 0, ac_app = None,
      ac_grant = None, ac_caps = [], ac_bypass = True, ac_anonymous = False\<rparr>"

definition anonymous_reader :: "member_id \<Rightarrow> workspace_id \<Rightarrow> auth_context" where
  "anonymous_reader m ws =
     \<lparr>ac_token = None, ac_actor = m, ac_member = m, ac_workspace = ws, ac_app = None,
      ac_grant = None, ac_caps = [WORKSPACE_READ], ac_bypass = False, ac_anonymous = True\<rparr>"

definition from_delegated_token ::
  "nat \<Rightarrow> member_id \<Rightarrow> member_id \<Rightarrow> workspace_id \<Rightarrow> nat \<Rightarrow> capability list \<Rightarrow> auth_context" where
  "from_delegated_token tok actor subject ws grant caps =
     \<lparr>ac_token = Some tok, ac_actor = actor, ac_member = subject, ac_workspace = ws, ac_app = None,
      ac_grant = Some grant, ac_caps = filter is_delegatable caps, ac_bypass = False, ac_anonymous = False\<rparr>"

text \<open>\<open>attribution\<close>: who acts and for whom.  A bypass caller has no principal.\<close>

definition attribution_of :: "auth_context \<Rightarrow> attribution option" where
  "attribution_of a =
     (if ac_bypass a then None
      else Some \<lparr>at_actor = ac_actor a, at_subject = ac_member a, at_grant = ac_grant a\<rparr>)"

datatype auth_error = Unauthorized | Forbidden string | AuthStore store_error

definition has_capability :: "auth_context \<Rightarrow> capability \<Rightarrow> bool" where
  "has_capability a c \<longleftrightarrow> ac_bypass a \<or> c \<in> set (ac_caps a)"

definition require_capability :: "auth_context \<Rightarrow> capability \<Rightarrow> auth_error + unit" where
  "require_capability a c = ensure (has_capability a c) (Forbidden (''missing capability: '' @ c))"

definition ensure_workspace :: "auth_context \<Rightarrow> workspace_id \<Rightarrow> auth_error + unit" where
  "ensure_workspace a ws =
     ensure (ac_bypass a \<or> ac_workspace a = ws) (Forbidden ''token is not valid for this workspace'')"

subsection \<open>Lists of capabilities\<close>

lemma validate_list_ok [simp]: "validate_list caps = Inr u \<longleftrightarrow> (\<forall>c \<in> set caps. is_known c)"
  by (auto simp: validate_list_def find_None_iff split: option.splits dest: find_key_mem)

lemma first_not_held_None [simp]: "first_not_held held req = None \<longleftrightarrow> set req \<subseteq> set held"
  by (auto simp: first_not_held_def find_None_iff)

lemma validate_held_ok [simp]:
  "validate_held held req = Inr u \<longleftrightarrow> (\<forall>c \<in> set req. is_known c) \<and> set req \<subseteq> set held"
  by (auto simp: validate_held_def and_then_Inr split: option.splits simp flip: first_not_held_None)

lemma set_unique_strs_from: "set (unique_strs_from out cs) = set out \<union> set cs"
  by (induction cs arbitrary: out) auto

lemma distinct_unique_strs_from: "distinct out \<Longrightarrow> distinct (unique_strs_from out cs)"
  by (induction cs arbitrary: out) auto

lemma unique_strs_facts [simp]: "set (unique_strs cs) = set cs" "distinct (unique_strs cs)"
  by (simp_all add: unique_strs_def set_unique_strs_from distinct_unique_strs_from)

lemma attenuate_ok:
  "attenuate held req = Inr out \<longleftrightarrow>
     req \<noteq> [] \<and> (\<forall>c \<in> set req. is_known c) \<and> set req \<subseteq> set held \<and> out = unique_strs req"
  by (auto simp: attenuate_def and_then_Inr)

lemma expand_set_ok:
  "expand_set name = Inr caps \<longleftrightarrow> (name, caps) \<in> set named_sets"
  by (auto simp: expand_set_def named_sets_def AGENT_WORKER_def HUMAN_ADMIN_def)

lemma named_sets_known: "(name, caps) \<in> set named_sets \<Longrightarrow> distinct caps \<and> (\<forall>c \<in> set caps. is_known c)"
  by (auto simp: named_sets_def worker_caps_def admin_caps_def is_known_def KNOWN_def capability_names)

text \<open>Index loops agree with membership.\<close>

lemma const_str_eq_from_iff:
  assumes "length l = length r" "i \<le> length l"
  shows "const_str_eq_from i l r \<longleftrightarrow> drop i l = drop i r"
  using assms
proof (induction i l r rule: const_str_eq_from.induct)
  case (1 i l r)
  show ?case
  proof (cases "i < length l")
    case True
    then have "drop i l = l ! i # drop (i + 1) l" "drop i r = r ! i # drop (i + 1) r"
      using 1 by (simp_all add: Cons_nth_drop_Suc)
    with 1 True show ?thesis by (subst const_str_eq_from.simps) auto
  next
    case False
    with 1 show ?thesis by (subst const_str_eq_from.simps) simp
  qed
qed

lemma const_str_eq_iff [simp]: "const_str_eq l r \<longleftrightarrow> l = r"
  by (auto simp: const_str_eq_def const_str_eq_from_iff)

lemma is_known_const_from_iff:
  "is_known_const_from i c \<longleftrightarrow> c \<in> set (drop i KNOWN)"
proof (induction i c rule: is_known_const_from.induct)
  case (1 i c)
  show ?case
  proof (cases "i < length KNOWN")
    case True
    then have "drop i KNOWN = KNOWN ! i # drop (i + 1) KNOWN" by (simp add: Cons_nth_drop_Suc)
    with 1 True show ?thesis by (subst is_known_const_from.simps) auto
  next
    case False
    then show ?thesis by (subst is_known_const_from.simps) simp
  qed
qed

lemma is_known_const_iff: "is_known_const c \<longleftrightarrow> is_known c"
  by (simp add: is_known_const_def is_known_const_from_iff is_known_def)

subsection \<open>What a grant can carry\<close>


text \<open>
  C19: a borrowed context holds exactly the collaboration rights among what its token row lists, so
  no authority right (minting tokens, channel, secret, audit, operator, approval, federation or
  workspace administration) is ever held through a delegation, and nothing derived from it by a
  further grant holds one either.
\<close>

theorem delegated_context_holds:
  "(has_capability (from_delegated_token tok actor subject ws g caps) c \<longleftrightarrow> c \<in> set caps \<and> c \<in> set DELEGATABLE) \<and>
   (progressive_grant (ac_caps (from_delegated_token tok actor subject ws g caps)) s req = Inr out \<longrightarrow>
    set out \<inter> {TOKEN_ADMIN, FEDERATION_INGEST, FEDERATION_ADMIN, AUDIT_READ_GLOBAL, OPERATOR_GLOBAL,
      CHANNEL_ADMIN, SECRET_READ, SECRET_ADMIN, APPROVAL_GRANT, WORKSPACE_ADMIN} = {})"
proof (intro conjI impI)
  show "has_capability (from_delegated_token tok actor subject ws g caps) c \<longleftrightarrow>
      c \<in> set caps \<and> c \<in> set DELEGATABLE"
    by (auto simp: has_capability_def from_delegated_token_def is_delegatable_def)
  assume g: "progressive_grant (ac_caps (from_delegated_token tok actor subject ws g caps)) s req = Inr out"
  have "set out \<subseteq> set (ac_caps (from_delegated_token tok actor subject ws g caps))"
    using g by (cases s) (auto simp: progressive_grant_def attenuate_ok and_then_Inr split: if_splits bool.splits)
  then have "set out \<subseteq> set DELEGATABLE"
    by (auto simp: from_delegated_token_def is_delegatable_def)
  then show "set out \<inter> {TOKEN_ADMIN, FEDERATION_INGEST, FEDERATION_ADMIN, AUDIT_READ_GLOBAL, OPERATOR_GLOBAL,
     CHANNEL_ADMIN, SECRET_READ, SECRET_ADMIN, APPROVAL_GRANT, WORKSPACE_ADMIN} = {}"
    by (auto simp: DELEGATABLE_def capability_names)
qed

theorem delegated_context_holds_witness:
  "progressive_grant (ac_caps (from_delegated_token 1 2 3 4 5 [TOKEN_ADMIN, MESSAGE_POST]))
     (Some AGENT_WORKER) [MESSAGE_POST] = Inr [MESSAGE_POST] \<and>
   set [MESSAGE_POST] \<inter> {TOKEN_ADMIN, FEDERATION_INGEST, FEDERATION_ADMIN, AUDIT_READ_GLOBAL,
     OPERATOR_GLOBAL, CHANNEL_ADMIN, SECRET_READ, SECRET_ADMIN, APPROVAL_GRANT, WORKSPACE_ADMIN} = {}"
proof -
  have "progressive_grant (ac_caps (from_delegated_token 1 2 3 4 5 [TOKEN_ADMIN, MESSAGE_POST]))
     (Some AGENT_WORKER) [MESSAGE_POST] = Inr [MESSAGE_POST]" by code_simp
  with delegated_context_holds [of 1 2 3 4 5 "[TOKEN_ADMIN, MESSAGE_POST]"] show ?thesis by blast
qed

text \<open>
  A delegated token's expiry is in the future and never past one hour, its grant or the bearer
  that borrowed it; without a request it is the tightest of fifteen minutes, the grant and the
  bearer, and that is refused only when the grant or the bearer has already expired.  A derived
  token's expiry is bounded by its parent's likewise.
\<close>

theorem delegated_expiry_bounds:
  "(delegated_expiry g parent req now = Inr e \<longleftrightarrow>
     now < e \<and> e \<le> now + secs 3600 \<and> e \<le> g \<and> (\<forall>p. parent = Some p \<longrightarrow> e \<le> p) \<and>
     (case req of
        Some r \<Rightarrow> e = r
      | None \<Rightarrow> e \<in> {now + secs 900, g} \<union> set_option parent \<and> e \<le> now + secs 900)) \<and>
   (attenuate_expiry parent req now = Inr out \<longrightarrow> parent = Some p \<longrightarrow> (\<exists>e. out = Some e \<and> e \<le> p))"
proof (intro conjI impI)
  show "delegated_expiry g parent req now = Inr e \<longleftrightarrow>
     now < e \<and> e \<le> now + secs 3600 \<and> e \<le> g \<and> (\<forall>p. parent = Some p \<longrightarrow> e \<le> p) \<and>
     (case req of
        Some r \<Rightarrow> e = r
      | None \<Rightarrow> e \<in> {now + secs 900, g} \<union> set_option parent \<and> e \<le> now + secs 900)"
    by (cases req; cases parent)
      (auto simp: delegated_expiry_def Let_def DELEGATED_TOKEN_DEFAULT_TTL_SECS_def
        DELEGATED_TOKEN_MAX_TTL_SECS_def secs_def min_def split: if_splits)
  assume "attenuate_expiry parent req now = Inr out" "parent = Some p"
  then show "\<exists>e. out = Some e \<and> e \<le> p"
    by (auto simp: attenuate_expiry_def split: option.splits if_splits)
qed

theorem delegated_expiry_bounds_witness:
  "delegated_expiry (secs 600) (Some (secs 700)) None 0 = Inr (secs 600) \<and>
   attenuate_expiry (Some 9) (Some 5) 1 = Inr (Some 5) \<and> (\<exists>e. Some (5::instant) = Some e \<and> e \<le> 9)"
proof -
  have a: "attenuate_expiry (Some 9) (Some 5) 1 = Inr (Some 5)" by code_simp
  have "delegated_expiry (secs 600) (Some (secs 700)) None 0 = Inr (secs 600)"
    using delegated_expiry_bounds [of "secs 600" "Some (secs 700)" None 0 "secs 600" None 0] by (simp add: secs_def)
  with a delegated_expiry_bounds [of 0 "Some 9" "Some 5" 1 0 "Some 5" 9] show ?thesis by blast
qed

end
