(* ===== verification/Concrete_Store.thy ===== *)
theory Concrete_Store
  imports Store_Tables
begin

text \<open>
  Concrete rows for runs of the model: a thread as \<open>threads::insert_on\<close> leaves it, and a store with
  one workspace (1), one public channel (2), two members (5 and 6) and the given threads.
\<close>

definition fresh_thread :: "thread_id \<Rightarrow> channel_id \<Rightarrow> thread_row" where
  "fresh_thread tid ch =
     \<lparr>t_id = tid, t_channel = ch, t_parent = None, t_title = None, t_description = None,
      t_state = Open, t_created_at = 0, t_updated_at = 0, t_tombstoned_at = None, t_assignee = None,
      t_expires_at = None, t_lease = None, t_claimed_at = None, t_work_started_at = None,
      t_owner = None, t_created_by = None, t_unack_lease = None, t_stall_lease = None, t_lapse_lease = None\<rparr>"

definition store_with :: "thread_row list \<Rightarrow> queue_db" where
  "store_with ts =
     \<lparr>threads = ts,
      channels = [\<lparr>c_id = 2, c_workspace = 1, c_name = ''tasks'', c_private = False\<rparr>],
      members = [\<lparr>m_id = 5, m_workspace = 1, m_tombstoned_at = None\<rparr>, \<lparr>m_id = 6, m_workspace = 1, m_tombstoned_at = None\<rparr>],
      workers = [], budgets = [], dlq = [], log = [], statuses = [], posts = [], gates = [],
      unclaimable = [], attributes = [], usage = [], fingerprints = [],
      footprints = [], slot_capacities = [], repo_pauses = [], blocks = [], deps = [], unlanded = [],
      priorities = [], required_skills = [], member_skills = [], freezes = [], results = [],
      transitions = [], recipe_children = [], channel_members = [],
      dms = [], group_dms = [], group_dm_members = []\<rparr>"

end
