(* ===== verification/Thread_Access.thy ===== *)
theory Thread_Access
  imports Capability Concrete_Store "HOL-Library.Product_Lexorder" "HOL-Library.List_Lexorder" "HOL-Library.Char_ord"
begin

text \<open>
  Who may read a thread: the per-request rule of \<open>crates/maidan-auth/src/access.rs\<close>, the cache of
  \<open>event_visibility.rs\<close> and the SQL form of the same rule in
  \<open>crates/maidan-store/src/thread_access.rs\<close>.  The SQL conditions are predicates over the tables of
  the store; the auth functions run the store's point reads one after another, as the code does.
\<close>

subsection \<open>Point reads\<close>

definition get_thread :: "('z) queue_db_scheme \<Rightarrow> thread_id \<Rightarrow> store_error + thread_row" where
  "get_thread db tid = ok_or (find_thread db tid) NotFound"

definition get_channel :: "('z) queue_db_scheme \<Rightarrow> channel_id \<Rightarrow> store_error + channel_row" where
  "get_channel db cid = ok_or (find_channel db cid) NotFound"

definition list_channels :: "('z) queue_db_scheme \<Rightarrow> workspace_id \<Rightarrow> channel_row list" where
  "list_channels db ws = sort_key (\<lambda>c. (c_name c, c_id c)) (filter (\<lambda>c. c_workspace c = ws) (channels db))"

definition channel_is_member :: "('z) queue_db_scheme \<Rightarrow> channel_id \<Rightarrow> member_id \<Rightarrow> bool" where
  "channel_is_member db cid m \<longleftrightarrow> (cid, m) \<in> set (channel_members db)"

definition dm_conversation_for_thread :: "('z) queue_db_scheme \<Rightarrow> thread_id \<Rightarrow> dm_row option" where
  "dm_conversation_for_thread db tid = find (\<lambda>d. dm_thread d = tid) (dms db)"

definition group_dm_conversation_for_thread :: "('z) queue_db_scheme \<Rightarrow> thread_id \<Rightarrow> group_dm_row option" where
  "group_dm_conversation_for_thread db tid = find (\<lambda>g. gd_thread g = tid) (group_dms db)"

definition group_dm_member_ids :: "('z) queue_db_scheme \<Rightarrow> nat \<Rightarrow> member_id list" where
  "group_dm_member_ids db g = map snd (filter (\<lambda>(g', _). g' = g) (group_dm_members db))"

text \<open>The \<open>?\<close> of an auth function over a store call: the store's error is wrapped.\<close>

fun store_call :: "store_error + 'a \<Rightarrow> auth_error + 'a" where
  "store_call (Inl e) = Inl (AuthStore e)"
| "store_call (Inr x) = Inr x"

subsection \<open>The request rule\<close>

definition NOT_CHANNEL_MEMBER :: string where
  "NOT_CHANNEL_MEMBER = ''caller is not a member of this private channel''"

definition NOT_DM_PARTICIPANT :: string where
  "NOT_DM_PARTICIPANT = ''caller is not a participant of this DM conversation''"

definition ensure_channel_access :: "('z) queue_db_scheme \<Rightarrow> auth_context \<Rightarrow> channel_id \<Rightarrow> auth_error + unit" where
  "ensure_channel_access db auth cid =
     (if ac_bypass auth then Inr ()
      else and_then (store_call (get_channel db cid)) (\<lambda>channel.
           and_then (ensure_workspace auth (c_workspace channel)) (\<lambda>_.
           if \<not> c_private channel \<or> c_name channel = DM_CHANNEL_NAME then Inr ()
           else ensure (channel_is_member db cid (ac_member auth)) (Forbidden NOT_CHANNEL_MEMBER))))"

text \<open>The bool forms: a refusal is \<open>false\<close>, other errors propagate.\<close>

fun refusal_is_false :: "auth_error + unit \<Rightarrow> auth_error + bool" where
  "refusal_is_false (Inr _) = Inr True"
| "refusal_is_false (Inl (Forbidden _)) = Inr False"
| "refusal_is_false (Inl e) = Inl e"

definition can_access_channel :: "('z) queue_db_scheme \<Rightarrow> auth_context \<Rightarrow> channel_id \<Rightarrow> auth_error + bool" where
  "can_access_channel db auth cid = refusal_is_false (ensure_channel_access db auth cid)"

definition private_channel_deny_set :: "('z) queue_db_scheme \<Rightarrow> auth_context \<Rightarrow> workspace_id \<Rightarrow> channel_id list" where
  "private_channel_deny_set db auth ws =
     (if ac_bypass auth then []
      else map c_id (filter (\<lambda>channel. c_private channel \<and> c_name channel \<noteq> DM_CHANNEL_NAME \<and>
             \<not> channel_is_member db (c_id channel) (ac_member auth)) (list_channels db ws)))"

definition ensure_dm_participant :: "('z) queue_db_scheme \<Rightarrow> auth_context \<Rightarrow> thread_id \<Rightarrow> auth_error + unit" where
  "ensure_dm_participant db auth tid =
     (let me = ac_member auth
      in case dm_conversation_for_thread db tid of
           Some dm \<Rightarrow> ensure (dm_low dm = me \<or> dm_high dm = me) (Forbidden NOT_DM_PARTICIPANT)
         | None \<Rightarrow>
             (case group_dm_conversation_for_thread db tid of
                Some gdm \<Rightarrow> ensure (me \<in> set (group_dm_member_ids db (gd_id gdm))) (Forbidden NOT_DM_PARTICIPANT)
              | None \<Rightarrow> Inl (Forbidden NOT_DM_PARTICIPANT)))"

record thread_scope_rec =
  ts_workspace :: workspace_id
  ts_channel :: channel_id
  ts_thread :: thread_id

definition authorize_thread :: "('z) queue_db_scheme \<Rightarrow> auth_context \<Rightarrow> thread_id \<Rightarrow> auth_error + thread_scope_rec" where
  "authorize_thread db auth tid =
     and_then (store_call (get_thread db tid)) (\<lambda>thread.
     and_then (store_call (get_channel db (t_channel thread))) (\<lambda>channel.
     let scope = \<lparr>ts_workspace = c_workspace channel, ts_channel = c_id channel, ts_thread = tid\<rparr>
     in if ac_bypass auth then Inr scope
        else and_then (ensure_workspace auth (c_workspace channel)) (\<lambda>_.
             if c_name channel = DM_CHANNEL_NAME
             then and_then (ensure_dm_participant db auth tid) (\<lambda>_. Inr scope)
             else if c_private channel \<and> \<not> channel_is_member db (c_id channel) (ac_member auth)
             then Inl (Forbidden NOT_CHANNEL_MEMBER)
             else Inr scope)))"

definition ensure_thread_access :: "('z) queue_db_scheme \<Rightarrow> auth_context \<Rightarrow> thread_id \<Rightarrow> auth_error + unit" where
  "ensure_thread_access db auth tid =
     (if ac_bypass auth then Inr () else and_then (authorize_thread db auth tid) (\<lambda>_. Inr ()))"

definition can_access_thread :: "('z) queue_db_scheme \<Rightarrow> auth_context \<Rightarrow> thread_id \<Rightarrow> auth_error + bool" where
  "can_access_thread db auth tid = refusal_is_false (ensure_thread_access db auth tid)"

subsection \<open>The SQL form\<close>

definition readable_thread :: "('z) queue_db_scheme \<Rightarrow> workspace_id \<Rightarrow> member_id \<Rightarrow> thread_id \<Rightarrow> bool" where
  "readable_thread db ws m tid \<longleftrightarrow>
     (\<exists>t \<in> set (threads db). t_id t = tid \<and>
      (\<exists>c \<in> set (channels db). c_id c = t_channel t \<and>
       (\<exists>r \<in> set (members db). m_id r = m \<and> m_workspace r = c_workspace c) \<and>
       c_workspace c = ws \<and>
       (if c_name c = DM_CHANNEL_NAME then
          (\<exists>d \<in> set (dms db). dm_thread d = t_id t \<and> (m = dm_low d \<or> m = dm_high d)) \<or>
          (\<exists>g \<in> set (group_dms db). gd_thread g = t_id t \<and> (gd_id g, m) \<in> set (group_dm_members db))
        else if c_private c then (c_id c, m) \<in> set (channel_members db)
        else True)))"

definition readable_row :: "('z) queue_db_scheme \<Rightarrow> workspace_id \<Rightarrow> member_id option \<Rightarrow> thread_id option \<Rightarrow> bool" where
  "readable_row db ws m tid \<longleftrightarrow>
     (case (m, tid) of (None, _) \<Rightarrow> True | (_, None) \<Rightarrow> True | (Some m, Some tid) \<Rightarrow> readable_thread db ws m tid)"

subsection \<open>The event log's cache\<close>

record event_visibility =
  ev_threads :: "thread_id \<rightharpoonup> bool"
  ev_channels :: "channel_id \<rightharpoonup> bool"

definition ev_new :: event_visibility where
  "ev_new = \<lparr>ev_threads = Map.empty, ev_channels = Map.empty\<rparr>"

fun settle :: "auth_error + bool \<Rightarrow> store_error + bool" where
  "settle (Inr allowed) = Inr allowed"
| "settle (Inl (AuthStore NotFound)) = Inr False"
| "settle (Inl (AuthStore e)) = Inl e"
| "settle (Inl Unauthorized) = Inr False"
| "settle (Inl (Forbidden _)) = Inr False"

definition channel_event_allowed :: "('z) queue_db_scheme \<Rightarrow> auth_context \<Rightarrow> channel_id \<Rightarrow> store_error + bool" where
  "channel_event_allowed db auth cid =
     (case get_channel db cid of
        Inr channel \<Rightarrow>
          if c_workspace channel \<noteq> ac_workspace auth then Inr False
          else if c_name channel = DM_CHANNEL_NAME then Inr False
          else if c_private channel then Inr (channel_is_member db cid (ac_member auth))
          else Inr True
      | Inl NotFound \<Rightarrow> Inr False
      | Inl e \<Rightarrow> Inl e)"

definition allows_in ::
  "('z) queue_db_scheme \<Rightarrow> auth_context \<Rightarrow> event_visibility \<Rightarrow> thread_id option \<Rightarrow> channel_id option \<Rightarrow>
   (store_error + bool) \<times> event_visibility" where
  "allows_in db auth ev tid cid =
     (if ac_bypass auth then (Inr True, ev)
      else case tid of
        Some t \<Rightarrow>
          (case ev_threads ev t of
             Some seen \<Rightarrow> (Inr seen, ev)
           | None \<Rightarrow>
               (case settle (can_access_thread db auth t) of
                  Inl e \<Rightarrow> (Inl e, ev)
                | Inr allowed \<Rightarrow> (Inr allowed, ev\<lparr>ev_threads := (ev_threads ev)(t \<mapsto> allowed)\<rparr>)))
      | None \<Rightarrow>
          (case cid of
             Some c \<Rightarrow>
               (case ev_channels ev c of
                  Some seen \<Rightarrow> (Inr seen, ev)
                | None \<Rightarrow>
                    (case channel_event_allowed db auth c of
                       Inl e \<Rightarrow> (Inl e, ev)
                     | Inr allowed \<Rightarrow> (Inr allowed, ev\<lparr>ev_channels := (ev_channels ev)(c \<mapsto> allowed)\<rparr>)))
           | None \<Rightarrow> (Inr True, ev)))"

fun allows_all ::
  "('z) queue_db_scheme \<Rightarrow> auth_context \<Rightarrow> event_visibility \<Rightarrow> (thread_id option \<times> channel_id option) list \<Rightarrow>
   (store_error + bool) list" where
  "allows_all db auth ev [] = []"
| "allows_all db auth ev ((tid, cid) # evs) =
     (let (r, ev') = allows_in db auth ev tid cid in r # allows_all db auth ev' evs)"

subsection \<open>What falls to a member\<close>

record api_token_row =
  k_workspace :: workspace_id
  k_member :: member_id
  k_revoked_at :: "instant option"
  k_expires_at :: "instant option"
  k_caps :: "capability list"

definition is_workspace_admin ::
  "api_token_row list \<Rightarrow> instant \<Rightarrow> auth_context \<Rightarrow> workspace_id \<Rightarrow> member_id \<Rightarrow> bool" where
  "is_workspace_admin tokens now auth ws m \<longleftrightarrow>
     ac_bypass auth \<or> (ac_member auth = m \<and> has_capability auth TOKEN_ADMIN) \<or>
     (ac_grant auth = None \<and>
      list_ex (\<lambda>t. k_revoked_at t = None \<and> (case k_expires_at t of None \<Rightarrow> True | Some e \<Rightarrow> e > now) \<and>
          TOKEN_ADMIN \<in> set (k_caps t))
        (filter (\<lambda>t. k_workspace t = ws \<and> k_member t = m) tokens))"

text \<open>Keep the rows the caller may open; the first store error ends the loop.\<close>

fun visible_rows ::
  "('z) queue_db_scheme \<Rightarrow> auth_context \<Rightarrow> ('r \<Rightarrow> thread_id) \<Rightarrow> 'r list \<Rightarrow> auth_error + 'r list" where
  "visible_rows db auth key [] = Inr []"
| "visible_rows db auth key (r # rs) =
     and_then (if ac_bypass auth then Inr True else can_access_thread db auth (key r)) (\<lambda>ok.
     and_then (visible_rows db auth key rs) (\<lambda>vs. Inr (if ok then r # vs else vs)))"

text \<open>
  \<open>visible_human_waits\<close>, over the rows the two store listings return: the blocked threads and the
  open questions with their owner and, for a question, its asker.
\<close>

definition visible_human_waits ::
  "('z) queue_db_scheme \<Rightarrow> auth_context \<Rightarrow> bool \<Rightarrow> member_id \<Rightarrow> (thread_id \<times> member_id option) list \<Rightarrow>
   (thread_id \<times> member_id option \<times> member_id) list \<Rightarrow>
   auth_error + (thread_id \<times> member_id option) list \<times> (thread_id \<times> member_id option \<times> member_id) list" where
  "visible_human_waits db auth is_admin m blocked questions =
     and_then (visible_rows db auth fst
       (filter (\<lambda>(_, owner). owner = Some m \<or> (owner = None \<and> is_admin)) blocked)) (\<lambda>bs.
     and_then (visible_rows db auth fst
       (filter (\<lambda>(_, owner, asker). asker \<noteq> m \<and>
          (let answerer = (case owner of Some w \<Rightarrow> if w \<noteq> asker then Some w else None | None \<Rightarrow> None)
           in answerer = Some m \<or> (answerer = None \<and> is_admin))) questions)) (\<lambda>qs.
     Inr (bs, qs)))"

subsection \<open>The schema's keys\<close>

text \<open>
  Primary keys of threads and channels and the \<open>UNIQUE\<close> thread of each kind of conversation; a
  conversation's thread is created with it, so no thread carries both kinds.
\<close>

definition access_keys :: "('z) queue_db_scheme \<Rightarrow> bool" where
  "access_keys db \<longleftrightarrow>
     distinct (map t_id (threads db)) \<and> distinct (map c_id (channels db)) \<and>
     distinct (map dm_thread (dms db)) \<and> distinct (map gd_thread (group_dms db)) \<and>
     set (map dm_thread (dms db)) \<inter> set (map gd_thread (group_dms db)) = {}"

lemma find_thread_key:
  "access_keys db \<Longrightarrow> find_thread db tid = Some t \<longleftrightarrow> t \<in> set (threads db) \<and> t_id t = tid"
  unfolding access_keys_def find_thread_def using find_Some_iff_key by metis

lemma find_channel_key:
  "access_keys db \<Longrightarrow> find_channel db cid = Some c \<longleftrightarrow> c \<in> set (channels db) \<and> c_id c = cid"
  unfolding access_keys_def find_channel_def using find_Some_iff_key by metis

lemma store_call_ok [simp]: "store_call r = Inr x \<longleftrightarrow> r = Inr x"
  by (cases r) auto

lemma store_call_err [simp]: "store_call r = Inl e \<longleftrightarrow> (\<exists>s. r = Inl s \<and> e = AuthStore s)"
  by (cases r) auto

lemma refusal_is_false_True [simp]: "refusal_is_false r = Inr True \<longleftrightarrow> r = Inr ()"
  by (cases r rule: refusal_is_false.cases) auto

text \<open>A conversation is resolved before its participants are tested; with unique keys that is the plain test.\<close>

lemma ensure_dm_participant_ok:
  assumes "access_keys db"
  shows "ensure_dm_participant db auth tid = Inr () \<longleftrightarrow>
     (\<exists>d \<in> set (dms db). dm_thread d = tid \<and> (ac_member auth = dm_low d \<or> ac_member auth = dm_high d)) \<or>
     (\<exists>g \<in> set (group_dms db). gd_thread g = tid \<and> (gd_id g, ac_member auth) \<in> set (group_dm_members db))"
proof -
  have k: "distinct (map dm_thread (dms db))" "distinct (map gd_thread (group_dms db))"
      "set (map dm_thread (dms db)) \<inter> set (map gd_thread (group_dms db)) = {}"
    using assms by (auto simp: access_keys_def)
  have mem: "m \<in> set (group_dm_member_ids db g) \<longleftrightarrow> (g, m) \<in> set (group_dm_members db)" for m g
    by (force simp: group_dm_member_ids_def)
  show ?thesis
  proof (cases "dm_conversation_for_thread db tid")
    case (Some d)
    then have d: "d \<in> set (dms db)" "dm_thread d = tid"
      by (auto simp: dm_conversation_for_thread_def dest: find_key_mem)
    have u: "d' = d" if "d' \<in> set (dms db)" "dm_thread d' = tid" for d'
      using that d k(1) by (auto simp: distinct_map dest: inj_onD)
    have g: "gd_thread g \<noteq> tid" if "g \<in> set (group_dms db)" for g
      using that d k(3) by auto
    show ?thesis
      using Some d u g by (fastforce simp: ensure_dm_participant_def ensure_def)
  next
    case None
    then have nd: "\<forall>d \<in> set (dms db). dm_thread d \<noteq> tid"
      by (simp add: dm_conversation_for_thread_def find_None_iff)
    show ?thesis
    proof (cases "group_dm_conversation_for_thread db tid")
      case n: None
      then have "\<forall>g \<in> set (group_dms db). gd_thread g \<noteq> tid"
        by (simp add: group_dm_conversation_for_thread_def find_None_iff)
      with n None nd show ?thesis by (auto simp: ensure_dm_participant_def)
    next
      case (Some g)
      then have g: "g \<in> set (group_dms db)" "gd_thread g = tid"
        by (auto simp: group_dm_conversation_for_thread_def dest: find_key_mem)
      have u: "g' = g" if "g' \<in> set (group_dms db)" "gd_thread g' = tid" for g'
        using that g k(2) by (auto simp: distinct_map dest: inj_onD)
      show ?thesis
        using Some None nd g u by (fastforce simp: ensure_dm_participant_def ensure_def mem)
    qed
  qed
qed

lemma ensure_ok [simp]: "ensure b e = Inr () \<longleftrightarrow> b"
  by (simp add: ensure_def)

lemma ok_or_ok [simp]: "ok_or x e = Inr y \<longleftrightarrow> x = Some y"
  by (simp add: ok_or_def split: option.splits)

lemma authorize_thread_ok:
  assumes "access_keys db" "\<not> ac_bypass auth"
  shows "(\<exists>sc. authorize_thread db auth tid = Inr sc) \<longleftrightarrow>
     (\<exists>t \<in> set (threads db). t_id t = tid \<and>
      (\<exists>c \<in> set (channels db). c_id c = t_channel t \<and> c_workspace c = ac_workspace auth \<and>
       (if c_name c = DM_CHANNEL_NAME then ensure_dm_participant db auth tid = Inr ()
        else c_private c \<longrightarrow> channel_is_member db (c_id c) (ac_member auth))))"
    (is "_ \<longleftrightarrow> (\<exists>t \<in> _. _ \<and> (\<exists>c \<in> _. _ \<and> ?allowed c))")
proof -
  have "(\<exists>sc. authorize_thread db auth tid = Inr sc) \<longleftrightarrow>
      (\<exists>t. find_thread db tid = Some t \<and> (\<exists>c. find_channel db (t_channel t) = Some c \<and> ?allowed c))"
    using assms(2)
    by (cases "find_thread db tid"; cases "find_channel db (t_channel (the (find_thread db tid)))")
      (simp_all add: authorize_thread_def get_thread_def get_channel_def ok_or_def Let_def
        ensure_workspace_def and_then_Inr eq_commute [of "ac_workspace auth"])
  then show ?thesis
    unfolding find_thread_key [OF assms(1)] find_channel_key [OF assms(1)] by blast
qed

text \<open>
  C17: the SQL condition the listings, \<open>claim_next\<close> and the queue counts filter by agrees with the
  per-thread rule every request is checked by, for a caller that is a member of its own workspace:
  a thread is listed exactly when \<open>can_access_thread\<close> lets the caller open it.
\<close>

theorem readable_thread_is_the_access_rule:
  assumes "access_keys db"
    and "\<not> ac_bypass auth"
    and "\<exists>r \<in> set (members db). m_id r = ac_member auth \<and> m_workspace r = ac_workspace auth"
  shows "can_access_thread db auth tid = Inr True \<longleftrightarrow>
    readable_thread db (ac_workspace auth) (ac_member auth) tid"
proof -
  have reader: "(\<exists>r \<in> set (members db). m_id r = ac_member auth \<and> m_workspace r = c_workspace c) \<and>
      c_workspace c = ac_workspace auth \<and> X \<longleftrightarrow> c_workspace c = ac_workspace auth \<and> X" for c X
    using assms(3) by auto
  have "can_access_thread db auth tid = Inr True \<longleftrightarrow> (\<exists>sc. authorize_thread db auth tid = Inr sc)"
    using assms(2) by (auto simp: can_access_thread_def ensure_thread_access_def and_then_Inr)
  also have "\<dots> \<longleftrightarrow> readable_thread db (ac_workspace auth) (ac_member auth) tid"
    unfolding authorize_thread_ok [OF assms(1,2)] ensure_dm_participant_ok [OF assms(1)]
      readable_thread_def channel_is_member_def reader
    by (intro bex_cong conj_cong refl) auto
  finally show ?thesis .
qed

definition access_example :: queue_db where
  "access_example = (store_with [fresh_thread 7 2])
     \<lparr>channels := [\<lparr>c_id = 2, c_workspace = 1, c_name = DM_CHANNEL_NAME, c_private = True\<rparr>],
      dms := [\<lparr>dm_thread = 7, dm_low = 4, dm_high = 5\<rparr>]\<rparr>"

theorem readable_thread_is_the_access_rule_witness:
  "can_access_thread access_example (from_session 5 1 []) 7 = Inr True \<longleftrightarrow>
   readable_thread access_example 1 5 7"
proof -
  have k: "access_keys access_example" by code_simp
  have b: "\<not> ac_bypass (from_session 5 1 [])" by code_simp
  have m: "\<exists>r \<in> set (members access_example). m_id r = ac_member (from_session 5 1 []) \<and>
      m_workspace r = ac_workspace (from_session 5 1 [])" by code_simp
  show ?thesis
    using readable_thread_is_the_access_rule [OF k b m, of 7] by (simp add: from_session_def)
qed

subsection \<open>The event log\<close>

definition event_allowed :: "('z) queue_db_scheme \<Rightarrow> auth_context \<Rightarrow> thread_id option \<Rightarrow> channel_id option \<Rightarrow> bool" where
  "event_allowed db auth tid cid \<longleftrightarrow>
     ac_bypass auth \<or>
     (case (tid, cid) of
        (Some t, _) \<Rightarrow> can_access_thread db auth t = Inr True
      | (None, Some c) \<Rightarrow> can_access_channel db auth c = Inr True \<and>
          (\<forall>ch. find_channel db c = Some ch \<longrightarrow> c_name ch \<noteq> DM_CHANNEL_NAME)
      | (None, None) \<Rightarrow> True)"

lemma get_err: "get_thread db t = Inl e \<Longrightarrow> e = NotFound" "get_channel db c = Inl e \<Longrightarrow> e = NotFound"
  by (auto simp: get_thread_def get_channel_def ok_or_def split: option.splits)

lemma authorize_thread_err:
  "authorize_thread db auth t = Inl e \<Longrightarrow> e = AuthStore NotFound \<or> (\<exists>m. e = Forbidden m)"
  by (auto simp: authorize_thread_def and_then_Inl Let_def ensure_workspace_def ensure_def ensure_dm_participant_def
      split: if_splits option.splits dest: get_err)

lemma settle_can_access_thread:
  "settle (can_access_thread db auth t) = Inr (can_access_thread db auth t = Inr True)"
proof (cases "ensure_thread_access db auth t")
  case (Inr u)
  then show ?thesis by (simp add: can_access_thread_def)
next
  case (Inl e)
  then have "e = AuthStore NotFound \<or> (\<exists>m. e = Forbidden m)"
    by (auto simp: ensure_thread_access_def and_then_Inl dest: authorize_thread_err split: if_splits)
  with Inl show ?thesis by (auto simp: can_access_thread_def)
qed

lemma channel_event_allowed_spec:
  "\<not> ac_bypass auth \<Longrightarrow> channel_event_allowed db auth c = Inr (event_allowed db auth None (Some c))"
  by (cases "find_channel db c")
    (simp_all add: channel_event_allowed_def event_allowed_def can_access_channel_def ensure_channel_access_def
      get_channel_def ok_or_def ensure_workspace_def ensure_def)

definition ev_agrees :: "('z) queue_db_scheme \<Rightarrow> auth_context \<Rightarrow> event_visibility \<Rightarrow> bool" where
  "ev_agrees db auth ev \<longleftrightarrow>
     (\<forall>t b. ev_threads ev t = Some b \<longrightarrow> b = event_allowed db auth (Some t) None) \<and>
     (\<forall>c b. ev_channels ev c = Some b \<longrightarrow> b = event_allowed db auth None (Some c))"

lemma event_allowed_thread: "event_allowed db auth (Some t) cid = event_allowed db auth (Some t) None"
  by (simp add: event_allowed_def)

lemma allows_in_spec:
  assumes "ev_agrees db auth ev"
  shows "fst (allows_in db auth ev tid cid) = Inr (event_allowed db auth tid cid)"
    and "ev_agrees db auth (snd (allows_in db auth ev tid cid))"
proof -
  have t: "settle (can_access_thread db auth t) = Inr (event_allowed db auth (Some t) None)"
    if "\<not> ac_bypass auth" for t
    using that by (simp add: settle_can_access_thread event_allowed_def)
  have byp: "ac_bypass auth \<Longrightarrow> event_allowed db auth tid cid" by (simp add: event_allowed_def)
  have none: "event_allowed db auth None None" by (simp add: event_allowed_def)
  show "fst (allows_in db auth ev tid cid) = Inr (event_allowed db auth tid cid)"
    using assms byp none t channel_event_allowed_spec [of auth db]
    by (auto simp: allows_in_def ev_agrees_def event_allowed_thread [of db auth _ cid] split: option.splits)
  show "ev_agrees db auth (snd (allows_in db auth ev tid cid))"
    using assms t channel_event_allowed_spec [of auth db]
    by (auto simp: allows_in_def ev_agrees_def split: option.splits)
qed

text \<open>
  C31: reading the event log through the per-request cache answers, for every event in order, exactly
  what the uncached rule answers: a thread's event follows the thread's access rule, a channel's
  event follows channel access and the shared DM channel's are never shown, and no deleted thread or
  channel turns into an error.
\<close>

theorem event_visibility_cache_transparent:
  "allows_all db auth ev_new evs = map (\<lambda>(tid, cid). Inr (event_allowed db auth tid cid)) evs"
proof -
  have "ev_agrees db auth ev \<Longrightarrow>
    allows_all db auth ev evs = map (\<lambda>(tid, cid). Inr (event_allowed db auth tid cid)) evs" for ev
  proof (induction evs arbitrary: ev)
    case Nil
    show ?case by simp
  next
    case (Cons e evs)
    obtain tid cid where e: "e = (tid, cid)" by (cases e)
    obtain r ev' where a: "allows_in db auth ev tid cid = (r, ev')" by (cases "allows_in db auth ev tid cid")
    show ?case
      using allows_in_spec [OF Cons.prems, of tid cid] Cons.IH [of ev'] by (simp add: e a)
  qed
  moreover have "ev_agrees db auth ev_new" by (simp add: ev_agrees_def ev_new_def)
  ultimately show ?thesis by blast
qed

subsection \<open>The deny set\<close>

text \<open>
  The search pre-filter hides exactly the channels the request rule refuses: a channel of the
  caller's workspace is in the deny set if and only if \<open>can_access_channel\<close> answers false for it.
\<close>

theorem deny_set_is_the_refused_channels:
  assumes "access_keys db" and "c \<in> set (channels db)" and "c_workspace c = ac_workspace auth"
  shows "c_id c \<in> set (private_channel_deny_set db auth (ac_workspace auth)) \<longleftrightarrow>
    can_access_channel db auth (c_id c) = Inr False"
proof -
  have f: "find_channel db (c_id c) = Some c"
    using find_channel_key [OF assms(1)] assms(2) by blast
  have u: "c' = c" if "c' \<in> set (channels db)" "c_id c' = c_id c" for c'
    using that assms(1,2) by (auto simp: access_keys_def distinct_map dest: inj_onD)
  have m: "c_id c \<in> set (map c_id (filter P (list_channels db (ac_workspace auth)))) \<longleftrightarrow> P c" for P
    using u assms(2,3) by (fastforce simp: list_channels_def)
  show ?thesis
    unfolding private_channel_deny_set_def can_access_channel_def ensure_channel_access_def get_channel_def f
    using assms(3) by (simp add: m ok_or_def ensure_workspace_def ensure_def del: set_map)
qed

theorem deny_set_is_the_refused_channels_witness:
  "2 \<in> set (private_channel_deny_set (access_example\<lparr>channels := [\<lparr>c_id = 2, c_workspace = 1, c_name = ''ops'',
      c_private = True\<rparr>]\<rparr>) (from_session 5 1 []) 1)"
proof -
  let ?c = "\<lparr>c_id = 2, c_workspace = 1, c_name = ''ops'', c_private = True\<rparr>"
  let ?db = "access_example\<lparr>channels := [?c]\<rparr>"
  have k: "access_keys ?db" by code_simp
  have c: "?c \<in> set (channels ?db)" by simp
  have w: "c_workspace ?c = ac_workspace (from_session 5 1 [])" by (simp add: from_session_def)
  have f: "can_access_channel ?db (from_session 5 1 []) 2 = Inr False" by code_simp
  from deny_set_is_the_refused_channels [OF k c w] f show ?thesis by (simp add: from_session_def)
qed

end
