(* ===== verification/Claim_Reports.thy ===== *)
theory Claim_Reports
  imports Claims
begin

text \<open>
  Stuck detection (\<open>maidan-store/src/stall.rs\<close>, \<open>report_stalled_claims\<close>) and the two usage
  reports of \<open>sqlite/budget.rs\<close> that stop a run which went over its budget.
\<close>

subsection \<open>Progress\<close>

definition max_opt :: "instant list \<Rightarrow> instant option" where
  "max_opt xs = (case xs of [] \<Rightarrow> None | y # ys \<Rightarrow> Some (fold max ys y))"

definition holder_posted_at :: "('z) claim_db_scheme \<Rightarrow> thread_row \<Rightarrow> instant option" where
  "holder_posted_at db t =
     (case (t_assignee t, t_work_started_at t) of
        (Some m, Some _) \<Rightarrow> max_opt (map p_posted_at (filter (\<lambda>p. p_thread p = t_id t \<and> p_author p = m) (posts db)))
      | _ \<Rightarrow> None)"

definition holder_status_row :: "('z) claim_db_scheme \<Rightarrow> thread_row \<Rightarrow> status_row option" where
  "holder_status_row db t =
     find (\<lambda>s. s_thread s = t_id t \<and> t_assignee t = Some (s_declared_by s)) (statuses db)"

definition holder_declared_at :: "('z) claim_db_scheme \<Rightarrow> thread_row \<Rightarrow> instant option" where
  "holder_declared_at db t =
     (if t_assignee t \<noteq> None \<and> t_work_started_at t \<noteq> None
      then map_option s_declared_at (holder_status_row db t) else None)"

record stall_candidate =
  st_started :: "instant option"
  st_posted :: "instant option"
  st_declared :: "instant option"
  st_status :: "declared_status option"

definition stall_candidate_of :: "('z) claim_db_scheme \<Rightarrow> thread_row \<Rightarrow> stall_candidate" where
  "stall_candidate_of db t =
     \<lparr>st_started = t_work_started_at t, st_posted = holder_posted_at db t,
      st_declared = holder_declared_at db t, st_status = map_option s_status (holder_status_row db t)\<rparr>"

text \<open>\<open>[a, b].into_iter().flatten().fold(started, DateTime::max)\<close>.\<close>

definition latest :: "instant \<Rightarrow> instant option list \<Rightarrow> instant" where
  "latest started xs = fold (\<lambda>x acc. case x of Some v \<Rightarrow> max acc v | None \<Rightarrow> acc) xs started"

definition last_progress_at :: "stall_candidate \<Rightarrow> instant option" where
  "last_progress_at c = map_option (\<lambda>started. latest started [st_posted c, st_declared c]) (st_started c)"

text \<open>\<open>set_last_progress\<close>: what a board read shows.\<close>

definition board_progress :: "('z) claim_db_scheme \<Rightarrow> thread_row \<Rightarrow> instant option" where
  "board_progress db t =
     (if t_state t = Open \<and> t_assignee t \<noteq> None \<and> t_expires_at t \<noteq> None
      then map_option (\<lambda>started. latest started [holder_posted_at db t, holder_declared_at db t]) (t_work_started_at t)
      else None)"

definition is_due :: "stall_candidate \<Rightarrow> stall_reason \<Rightarrow> instant \<Rightarrow> bool" where
  "is_due c reason cutoff =
     (case reason of
        LeaseLapsing \<Rightarrow> True
      | NoProgress \<Rightarrow>
          (let quiet = (case last_progress_at c of Some p \<Rightarrow> p < cutoff | None \<Rightarrow> False);
               waiting = (case st_status c of Some st \<Rightarrow> st \<noteq> Working | None \<Rightarrow> False)
           in quiet \<and> \<not> waiting))"

text \<open>\<open>stall_scan\<close>: the token column of a reason, and the extra filter its scan has.\<close>

definition scan_column :: "stall_reason \<Rightarrow> thread_row \<Rightarrow> lease_id option" where
  "scan_column reason t = (case reason of NoProgress \<Rightarrow> t_stall_lease t | LeaseLapsing \<Rightarrow> t_lapse_lease t)"

definition mark_column :: "stall_reason \<Rightarrow> thread_row \<Rightarrow> thread_row" where
  "mark_column reason t =
     (case reason of NoProgress \<Rightarrow> t\<lparr>t_stall_lease := t_lease t\<rparr> | LeaseLapsing \<Rightarrow> t\<lparr>t_lapse_lease := t_lease t\<rparr>)"

definition scan_filter :: "stall_reason \<Rightarrow> instant \<Rightarrow> thread_row \<Rightarrow> bool" where
  "scan_filter reason cutoff t =
     (case reason of
        NoProgress \<Rightarrow> (case t_work_started_at t of Some w \<Rightarrow> w < cutoff | None \<Rightarrow> False)
      | LeaseLapsing \<Rightarrow> (case t_expires_at t of Some d \<Rightarrow> d < cutoff | None \<Rightarrow> False))"

definition stall_row :: "instant \<Rightarrow> stall_reason \<Rightarrow> instant \<Rightarrow> thread_row \<Rightarrow> bool" where
  "stall_row now reason cutoff t \<longleftrightarrow>
     t_lease t \<noteq> None \<and> t_assignee t \<noteq> None
   \<and> (case t_expires_at t of None \<Rightarrow> False | Some d \<Rightarrow> d \<ge> now)
   \<and> scan_column reason t \<noteq> t_lease t
   \<and> live t \<and> t_state t = Open \<and> scan_filter reason cutoff t"

text \<open>The loop over the candidates, the reports made so far counted against the limit.  The
  candidate columns were read before the first report.\<close>

fun stall_all ::
  "instant \<Rightarrow> stall_reason \<Rightarrow> instant \<Rightarrow> int \<Rightarrow> int \<Rightarrow> (thread_row \<times> stall_candidate) list
    \<Rightarrow> ('z) claim_db_scheme \<Rightarrow> store_error + ('z) claim_db_scheme" where
  "stall_all clk reason cutoff limit n [] db = Inr db"
| "stall_all clk reason cutoff limit n ((c, seen) # cs) db =
     (if n \<ge> limit then Inr db
      else if \<not> is_due seen reason cutoff then stall_all clk reason cutoff limit n cs db
      else case update_thread (t_id c) (\<lambda>t. t_lease t = t_lease c \<and> scan_column reason t \<noteq> t_lease t)
                  (mark_column reason) db of
             None \<Rightarrow> stall_all clk reason cutoff limit n cs db
           | Some (t, db1) \<Rightarrow>
               and_then (ok_or (t_assignee t) (InvalidInput ''a stalled claim has no holder'')) (\<lambda>m.
               and_then (ok_or (t_expires_at t) (InvalidInput ''a stalled claim has no lease'')) (\<lambda>expires.
               and_then (thread_scope db1 (t_id t)) (\<lambda>(ws, ch).
               stall_all clk reason cutoff limit (n + 1) cs
                 (append_event (ClaimStalled clk ws ch (t_id t) m reason (last_progress_at seen) expires t) db1)))))"

definition report_stalled_claims ::
  "instant \<Rightarrow> instant \<Rightarrow> stall_reason \<Rightarrow> instant \<Rightarrow> int \<Rightarrow> ('z) claim_db_scheme
    \<Rightarrow> store_error + ('z) claim_db_scheme" where
  "report_stalled_claims clk now reason cutoff limit db =
     stall_all clk reason cutoff limit 0
       (map (\<lambda>t. (t, stall_candidate_of db t))
         (sort_key (\<lambda>t. (the (t_expires_at t), t_id t)) (filter (stall_row now reason cutoff) (threads db)))) db"

subsection \<open>Usage reports\<close>

definition keep_stopped_wall :: "thread_id \<Rightarrow> int option \<Rightarrow> ('z) claim_db_scheme \<Rightarrow> ('z) claim_db_scheme" where
  "keep_stopped_wall tid wall db =
     (case wall of
        None \<Rightarrow> db
      | Some s \<Rightarrow> if max 0 s > 0 then charge_wall tid (Some (max 0 s)) db else db)"

text \<open>\<open>report_usage\<close> returns the budget, and the reason when it stopped the run.\<close>

definition report_usage ::
  "instant \<Rightarrow> thread_id \<Rightarrow> usage_delta \<Rightarrow> ('z) claim_db_scheme
    \<Rightarrow> store_error + (budget_row \<times> budget_reason option) \<times> ('z) claim_db_scheme" where
  "report_usage clk tid delta db =
     (let db1 = add_usage tid delta db;
          budget = the (get_budget db1 tid)
      in and_then (ok_or (find (\<lambda>t. t_id t = tid \<and> live t) (threads db1)) NotFound) (\<lambda>t.
         and_then (thread_scope db1 tid) (\<lambda>(ws, ch).
         let wall = map_option (\<lambda>w. num_seconds (clk - w)) (t_work_started_at t)
         in case (exceeded budget wall, t_assignee t) of
              (Some reason, Some m) \<Rightarrow>
                (let db2 = keep_stopped_wall tid wall db1;
                     budget = the (get_budget db2 tid)
                 in and_then (ok_or (update_thread tid (\<lambda>_. True) (clear_claim clk) db2) NotFound) (\<lambda>(t', db3).
                    Inr ((budget, Some reason), fail_claim clk ws ch t' m reason budget db3)))
            | _ \<Rightarrow> Inr ((budget, None), db1))))"

end
