(* ===== verification/Usage_Ledger.thy ===== *)
theory Usage_Ledger
  imports Claim_Reports
begin

text \<open>
  The usage ledger in the store: \<open>maidan-store/src/sqlite/usage_ledger.rs\<close> and the accounted report
  of \<open>sqlite/budget.rs\<close>.  A row is first reserved with the report's content and no outcome, then
  finished with the budget it left, whether it stopped the run, and the events it appended; both
  happen in the transaction of the report, which also charges the thread's budget.  The budget and
  the pack hashes, stored as JSON text, are kept as the values they encode, and an event's id is its
  place in the log.  SQLite stamps \<open>accepted_at\<close> with whole seconds.
\<close>

subsection \<open>Entries\<close>

record usage_entry =
  ue_report :: nat
  ue_thread :: thread_id
  ue_stamp :: payer_stamp
  ue_turns :: int
  ue_evidence :: usage_evidence
  ue_budget :: budget_row
  ue_stopped :: bool
  ue_reason :: "budget_reason option"
  ue_usage_event :: nat
  ue_claim_failed_event :: "nat option"
  ue_accepted_at :: instant

definition stamp_of :: "usage_row \<Rightarrow> payer_stamp" where
  "stamp_of r =
     \<lparr>ps_payer = ul_workspace r, ps_reporter = ul_reporter r, ps_lease = ul_lease r,
      ps_model = ul_model r, ps_tokens = ul_tokens r, ps_usd_micros = ul_usd_micros r,
      ps_price = ul_price r\<rparr>"

definition evidence_of :: "usage_row \<Rightarrow> usage_evidence" where
  "evidence_of r =
     \<lparr>ev_provider = ul_provider r, ev_service_tier = ul_service_tier r, ev_batch = ul_batch r,
      ev_harness = ul_harness r, ev_harness_version = ul_harness_version r, ev_effort = ul_effort r,
      ev_cache_key = ul_cache_key r, ev_cache_miss_reason = ul_cache_miss_reason r,
      ev_pack_sha256 = ul_pack_sha256 r, ev_standard_price = ul_standard_price r\<rparr>"

definition row_to_entry :: "usage_row \<Rightarrow> store_error + usage_entry" where
  "row_to_entry r =
     and_then (ok_or (ul_budget r) (Conflict UsageReportPending)) (\<lambda>budget.
     and_then (ok_or (ul_stopped r) (Conflict UsageReportPending)) (\<lambda>stopped.
     and_then (ok_or (ul_usage_event r) (Conflict UsageReportPending)) (\<lambda>event_id.
     Inr \<lparr>ue_report = ul_report r, ue_thread = ul_thread r, ue_stamp = stamp_of r,
          ue_turns = ul_turns r, ue_evidence = evidence_of r, ue_budget = budget,
          ue_stopped = stopped, ue_reason = ul_reason r, ue_usage_event = event_id,
          ue_claim_failed_event = ul_claim_failed_event r, ue_accepted_at = ul_accepted_at r\<rparr>)))"

definition matches_request :: "usage_entry \<Rightarrow> new_usage_entry \<Rightarrow> bool" where
  "matches_request e new \<longleftrightarrow>
     ue_report e = nu_report new
   \<and> ue_thread e = nu_thread new
   \<and> ps_reporter (ue_stamp e) = nu_reporter new
   \<and> ps_lease (ue_stamp e) = nu_lease new
   \<and> ps_model (ue_stamp e) = trim (nu_model new)
   \<and> ps_tokens (ue_stamp e) = nu_tokens new
   \<and> ps_usd_micros (ue_stamp e) = nu_usd_micros new
   \<and> ps_price (ue_stamp e) = nu_price new
   \<and> ue_turns e = nu_turns new
   \<and> ue_evidence e = nu_evidence new"

subsection \<open>One report's row\<close>

definition get_usage :: "nat \<Rightarrow> ('z) claim_db_scheme \<Rightarrow> store_error + usage_entry option" where
  "get_usage rid db =
     (case find (\<lambda>r. ul_report r = rid) (usage db) of
        None \<Rightarrow> Inr None
      | Some r \<Rightarrow> map_sum id Some (row_to_entry r))"

definition reserved_row :: "instant \<Rightarrow> new_usage_entry \<Rightarrow> workspace_id \<Rightarrow> usage_row" where
  "reserved_row clk new ws =
     (let e = nu_evidence new in
      \<lparr>ul_thread = nu_thread new, ul_workspace = ws, ul_reporter = nu_reporter new,
       ul_lease = nu_lease new, ul_provider = ev_provider e, ul_model = trim (nu_model new),
       ul_accepted_at = secs (clk div 1000000), ul_report = nu_report new,
       ul_tokens = nu_tokens new, ul_price = nu_price new, ul_usd_micros = nu_usd_micros new,
       ul_turns = nu_turns new, ul_service_tier = ev_service_tier e, ul_batch = ev_batch e,
       ul_harness = ev_harness e, ul_harness_version = ev_harness_version e,
       ul_effort = ev_effort e, ul_cache_key = ev_cache_key e,
       ul_cache_miss_reason = ev_cache_miss_reason e, ul_pack_sha256 = ev_pack_sha256 e,
       ul_standard_price = ev_standard_price e, ul_budget = None, ul_stopped = None,
       ul_reason = None, ul_usage_event = None, ul_claim_failed_event = None\<rparr>)"

text \<open>\<open>INSERT OR IGNORE\<close>: whether a row was written.\<close>

definition reserve_in_tx ::
  "instant \<Rightarrow> new_usage_entry \<Rightarrow> workspace_id \<Rightarrow> ('z) claim_db_scheme \<Rightarrow> bool \<times> ('z) claim_db_scheme" where
  "reserve_in_tx clk new ws db =
     (if \<exists>r \<in> set (usage db). ul_report r = nu_report new then (False, db)
      else (True, db\<lparr>usage := usage db @ [reserved_row clk new ws]\<rparr>))"

definition finish_in_tx ::
  "nat \<Rightarrow> budget_row \<Rightarrow> bool \<Rightarrow> budget_reason option \<Rightarrow> nat \<Rightarrow> nat option \<Rightarrow> ('z) claim_db_scheme
    \<Rightarrow> store_error + usage_entry \<times> ('z) claim_db_scheme" where
  "finish_in_tx rid budget stopped reason usage_event claim_failed_event db =
     (let rows = update_where (\<lambda>r. ul_report r = rid)
            (\<lambda>r. r\<lparr>ul_budget := Some budget, ul_stopped := Some stopped, ul_reason := reason,
                    ul_usage_event := Some usage_event,
                    ul_claim_failed_event := claim_failed_event\<rparr>) (usage db)
      in and_then (ok_or (find (\<lambda>r. ul_report r = rid) rows) NotFound) (\<lambda>r.
         and_then (row_to_entry r) (\<lambda>entry. Inr (entry, db\<lparr>usage := rows\<rparr>))))"

subsection \<open>The accounted report\<close>

definition report_stamp :: "new_usage_entry \<Rightarrow> workspace_id \<Rightarrow> payer_stamp" where
  "report_stamp new ws =
     \<lparr>ps_payer = ws, ps_reporter = nu_reporter new, ps_lease = nu_lease new,
      ps_model = trim (nu_model new), ps_tokens = nu_tokens new, ps_usd_micros = nu_usd_micros new,
      ps_price = nu_price new\<rparr>"

text \<open>The budget stop: the claim is released under its fence and the run fails.\<close>

definition stop_run ::
  "instant \<Rightarrow> new_usage_entry \<Rightarrow> workspace_id \<Rightarrow> channel_id \<Rightarrow> budget_row \<Rightarrow> budget_reason option
    \<Rightarrow> ('z) claim_db_scheme \<Rightarrow> store_error + nat option \<times> ('z) claim_db_scheme" where
  "stop_run clk new ws ch budget stopping db =
     (case stopping of
        None \<Rightarrow> Inr (None, db)
      | Some reason \<Rightarrow>
          and_then (ok_or (update_thread (nu_thread new)
                       (\<lambda>t. t_assignee t = Some (nu_reporter new) \<and> t_lease t = Some (nu_lease new))
                       (clear_claim clk) db) NotFound) (\<lambda>(t', db).
          let db = fail_claim clk ws ch t' (nu_reporter new) reason budget db
          in Inr (Some (length (log db)), db)))"

text \<open>What follows the reservation and the fence: charge, enforce, record and finish.\<close>

definition settle_report ::
  "instant \<Rightarrow> new_usage_entry \<Rightarrow> thread_row \<Rightarrow> workspace_id \<Rightarrow> channel_id \<Rightarrow> ('z) claim_db_scheme
    \<Rightarrow> store_error + (usage_entry \<times> nat list) \<times> ('z) claim_db_scheme" where
  "settle_report clk new t ws ch db =
     and_then (add_accounted_usage new db) (\<lambda>db.
     let budget = the (get_budget db (nu_thread new));
         wall = map_option (\<lambda>started. num_seconds (clk - started)) (t_work_started_at t);
         stopping = exceeded budget wall;
         db = (if stopping \<noteq> None then keep_stopped_wall (nu_thread new) wall db else db);
         budget = the (get_budget db (nu_thread new));
         db = append_event (UsageReported clk ws ch (nu_thread new) (nu_report new)
                              (report_stamp new ws) (nu_turns new) budget) db;
         usage_stored = length (log db)
     in and_then (stop_run clk new ws ch budget stopping db) (\<lambda>(failed, db).
        and_then (finish_in_tx (nu_report new) budget (stopping \<noteq> None) stopping usage_stored
                    failed db) (\<lambda>(entry, db).
        Inr ((entry, usage_stored # (case failed of Some e \<Rightarrow> [e] | None \<Rightarrow> [])), db))))"

definition report_accounted_usage ::
  "instant \<Rightarrow> new_usage_entry \<Rightarrow> ('z) claim_db_scheme
    \<Rightarrow> store_error + (usage_entry \<times> nat list) \<times> ('z) claim_db_scheme" where
  "report_accounted_usage clk new db =
     (case entry_validate new of
        Inl err \<Rightarrow> Inl (InvalidInput err)
      | Inr _ \<Rightarrow>
     and_then (ok_or (find (\<lambda>t. t_id t = nu_thread new \<and> live t) (threads db)) NotFound) (\<lambda>t.
     and_then (thread_scope db (nu_thread new)) (\<lambda>(ws, ch).
     case reserve_in_tx clk new ws db of
       (False, db) \<Rightarrow>
         and_then (get_usage (nu_report new) db) (\<lambda>found.
         and_then (ok_or found (Conflict UsageReportUnreadable)) (\<lambda>existing.
         if ps_payer (ue_stamp existing) \<noteq> ws \<or> \<not> matches_request existing new
         then Inl (Conflict UsageReportReused)
         else Inr ((existing, []), db)))
     | (True, db) \<Rightarrow>
         if t_assignee t \<noteq> Some (nu_reporter new) \<or> t_lease t \<noteq> Some (nu_lease new)
         then Inl (Conflict UsageNotHolder)
         else settle_report clk new t ws ch db)))"

subsection \<open>How a report ends\<close>

definition wall_of :: "instant \<Rightarrow> thread_row \<Rightarrow> int option" where
  "wall_of clk t = map_option (\<lambda>started. num_seconds (clk - started)) (t_work_started_at t)"

lemma settle_report_parts:
  assumes "settle_report clk new t ws ch db = Inr ((e, ids), db')"
  obtains db2 db3 db4 db5 b stopping failed where
      "add_accounted_usage new db = Inr db2"
      "stopping = exceeded (the (get_budget db2 (nu_thread new))) (wall_of clk t)"
      "db3 = (if stopping \<noteq> None then keep_stopped_wall (nu_thread new) (wall_of clk t) db2 else db2)"
      "b = the (get_budget db3 (nu_thread new))"
      "db4 = append_event (UsageReported clk ws ch (nu_thread new) (nu_report new)
               (report_stamp new ws) (nu_turns new) b) db3"
      "stop_run clk new ws ch b stopping db4 = Inr (failed, db5)"
      "finish_in_tx (nu_report new) b (stopping \<noteq> None) stopping (length (log db4)) failed db5
         = Inr (e, db')"
      "ids = length (log db4) # (case failed of Some x \<Rightarrow> [x] | None \<Rightarrow> [])"
proof -
  obtain db2 where db2: "add_accounted_usage new db = Inr db2"
    using assms unfolding settle_report_def and_then_Inr by blast
  define stopping where "stopping = exceeded (the (get_budget db2 (nu_thread new))) (wall_of clk t)"
  define db3 where "db3 = (if stopping \<noteq> None then keep_stopped_wall (nu_thread new) (wall_of clk t) db2 else db2)"
  define b where "b = the (get_budget db3 (nu_thread new))"
  define db4 where "db4 = append_event (UsageReported clk ws ch (nu_thread new) (nu_report new)
      (report_stamp new ws) (nu_turns new) b) db3"
  have "and_then (stop_run clk new ws ch b stopping db4) (\<lambda>(failed, db).
        and_then (finish_in_tx (nu_report new) b (stopping \<noteq> None) stopping (length (log db4)) failed db)
          (\<lambda>(entry, db). Inr ((entry, length (log db4) # (case failed of Some e \<Rightarrow> [e] | None \<Rightarrow> [])), db)))
        = Inr ((e, ids), db')"
    using assms unfolding settle_report_def db2 and_then.simps Let_def wall_of_def [symmetric]
      stopping_def [symmetric] db3_def [symmetric] b_def [symmetric] db4_def [symmetric] .
  then obtain failed db5 where "stop_run clk new ws ch b stopping db4 = Inr (failed, db5)"
    "finish_in_tx (nu_report new) b (stopping \<noteq> None) stopping (length (log db4)) failed db5
       = Inr (e, db')"
    "ids = length (log db4) # (case failed of Some x \<Rightarrow> [x] | None \<Rightarrow> [])"
    by (auto simp: and_then_Inr)
  then show thesis using that [OF db2 stopping_def db3_def b_def db4_def] by blast
qed

lemma report_accounted_usage_cases:
  fixes db :: "('z) claim_db_scheme"
  assumes "report_accounted_usage clk new db = Inr ((e, ids), db')"
  obtains (retry) ws ch where
      "thread_scope db (nu_thread new) = Inr (ws, ch)"
      "get_usage (nu_report new) db = Inr (Some e)" "ps_payer (ue_stamp e) = ws"
      "matches_request e new" "ids = []" "db' = db"
  | (accepted) t ws ch where
      "entry_validate new = Inr ()"
      "find (\<lambda>t. t_id t = nu_thread new \<and> live t) (threads db) = Some t"
      "thread_scope db (nu_thread new) = Inr (ws, ch)"
      "\<forall>r \<in> set (usage db). ul_report r \<noteq> nu_report new"
      "t_assignee t = Some (nu_reporter new)" "t_lease t = Some (nu_lease new)"
      "settle_report clk new t ws ch (db\<lparr>usage := usage db @ [reserved_row clk new ws]\<rparr>)
         = Inr ((e, ids), db')"
proof -
  obtain t ws ch where ok: "entry_validate new = Inr ()"
    and t: "find (\<lambda>t. t_id t = nu_thread new \<and> live t) (threads db) = Some t"
    and scope: "thread_scope db (nu_thread new) = Inr (ws, ch)"
    using assms by (auto simp: report_accounted_usage_def and_then_Inr split: sum.splits)
  note run = assms [unfolded report_accounted_usage_def ok t scope, simplified]
  show thesis
  proof (cases "\<exists>r \<in> set (usage db). ul_report r = nu_report new")
    case True
    then show thesis
      using run scope by (intro retry [of ws ch]) (auto simp: and_then_Inr reserve_in_tx_def split: if_splits)
  next
    case False
    then show thesis
      using run ok t scope
      by (intro accepted [of t ws ch]) (auto simp: reserve_in_tx_def split: if_splits)
  qed
qed

lemma stop_run_cases:
  assumes "stop_run clk new ws ch b stopping db = Inr (failed, db')"
  obtains (going) "stopping = None" "failed = None" "db' = db"
  | (stopped) reason t' db1 where "stopping = Some reason"
      "update_thread (nu_thread new)
         (\<lambda>t. t_assignee t = Some (nu_reporter new) \<and> t_lease t = Some (nu_lease new))
         (clear_claim clk) db = Some (t', db1)"
      "db' = fail_claim clk ws ch t' (nu_reporter new) reason b db1" "failed = Some (length (log db'))"
  using assms by (cases stopping) (auto simp: stop_run_def and_then_Inr Let_def)

subsection \<open>The counters and the ledger\<close>

text \<open>
  Each token tier has a column in the thread's budget and a column in the ledger.  The books balance
  when, for every thread and tier, the budget's counter is the sum over the thread's ledger rows.
\<close>

definition tiers :: "((budget_row \<Rightarrow> int) \<times> (token_usage \<Rightarrow> int)) list" where
  "tiers =
     [(b_used_input, tu_input), (b_used_output, tu_output), (b_used_cache_read, tu_cache_read),
      (b_used_cache_write_5m, tu_cache_write_5m), (b_used_cache_write_1h, tu_cache_write_1h)]"

definition counted :: "(budget_row \<Rightarrow> int) \<Rightarrow> ('z) claim_db_scheme \<Rightarrow> thread_id \<Rightarrow> int" where
  "counted c db tid = (case get_budget db tid of Some b \<Rightarrow> c b | None \<Rightarrow> 0)"

definition ledger_sum :: "(token_usage \<Rightarrow> int) \<Rightarrow> usage_row list \<Rightarrow> thread_id \<Rightarrow> int" where
  "ledger_sum q rows tid = sum_list (map (\<lambda>r. q (ul_tokens r)) (filter (\<lambda>r. ul_thread r = tid) rows))"

definition ledger_balanced :: "('z) claim_db_scheme \<Rightarrow> bool" where
  "ledger_balanced db \<longleftrightarrow>
     (\<forall>(c, q) \<in> set tiers. \<forall>tid. counted c db tid = ledger_sum q (usage db) tid)"

text \<open>
  What validation leaves true of a stored row: its counts, charge and turns are not negative, and a
  standard price it carries charges at least what the row was charged, within 64 bits.
\<close>

definition row_valid :: "usage_row \<Rightarrow> bool" where
  "row_valid r \<longleftrightarrow>
     (\<forall>q \<in> set (quantities (ul_tokens r)). 0 \<le> q) \<and> 0 \<le> ul_usd_micros r
     \<and> charge_usd_micros (ul_price r) (ul_tokens r) = Inr (ul_usd_micros r)
     \<and> (case ul_standard_price r of
          None \<Rightarrow> True
        | Some p \<Rightarrow> \<exists>c. charge_usd_micros p (ul_tokens r) = Inr c \<and> ul_usd_micros r \<le> c)"

lemma reserved_row_valid:
  assumes "entry_validate new = Inr ()"
  shows "row_valid (reserved_row clk new ws)"
proof -
  have c: "charge_usd_micros (nu_price new) (nu_tokens new) = Inr (nu_usd_micros new)" "0 \<le> nu_usd_micros new"
    using assms by (auto simp: entry_validate_def Let_def and_then_Inr split: if_splits)
  have std: "\<exists>c. charge_usd_micros p (nu_tokens new) = Inr c \<and> nu_usd_micros new \<le> c"
    if "ev_standard_price (nu_evidence new) = Some p" for p
    using assms that by (auto simp: entry_validate_def Let_def and_then_Inr split: if_splits sum.splits)
  show ?thesis
    using c std charge_usd_exact
    by (auto simp: row_valid_def reserved_row_def Let_def split: option.split)
qed

lemma ledger_balanced_cong:
  "budgets db' = budgets db \<Longrightarrow> usage db' = usage db \<Longrightarrow> ledger_balanced db' = ledger_balanced db"
  by (simp add: ledger_balanced_def counted_def get_budget_def)

definition keeps_tiers :: "(budget_row \<Rightarrow> budget_row) \<Rightarrow> bool" where
  "keeps_tiers f \<longleftrightarrow> (\<forall>b. b_thread (f b) = b_thread b \<and> (\<forall>(c, q) \<in> set tiers. c (f b) = c b))"

lemma counted_upsert:
  assumes "\<And>b. b_thread (f b) = b_thread b"
  shows "counted c (upsert_budget f tid db) t =
    (if t = tid then c (f (unwrap_or (get_budget db tid) (fresh_budget tid))) else counted c db t)"
  by (simp add: counted_def get_upsert_budget [OF assms])

lemma counted_fresh:
  "(c, q) \<in> set tiers \<Longrightarrow> c (unwrap_or (get_budget db tid) (fresh_budget tid)) = counted c db tid"
  by (auto simp: counted_def unwrap_or_def tiers_def fresh_budget_def split: option.splits)

lemma balanced_upsert:
  assumes "keeps_tiers f"
  shows "ledger_balanced (upsert_budget f tid db) = ledger_balanced db"
proof -
  have f: "b_thread (f b) = b_thread b" and c: "(c, q) \<in> set tiers \<Longrightarrow> c (f b) = c b" for b c q
    using assms unfolding keeps_tiers_def by blast+
  have "counted c (upsert_budget f tid db) t = counted c db t" if tier: "(c, q) \<in> set tiers" for c q t
    using counted_fresh [OF tier, of db tid] c [OF tier] by (simp add: counted_upsert f)
  then show ?thesis by (auto simp: ledger_balanced_def)
qed

lemma add_accounted_usage_Inr:
  assumes "add_accounted_usage new db = Inr db'"
  obtains f where "db' = upsert_budget f (nu_thread new) db" "\<And>b. b_thread (f b) = b_thread b"
    "\<And>b c q. (c, q) \<in> set tiers \<Longrightarrow> c (f b) = c b + q (nu_tokens new)"
    "\<And>b. b_used_usd (f b) = b_used_usd b + nu_usd_micros new"
    "\<And>b. b_used_turns (f b) = b_used_turns b + nu_turns new"
    "\<And>b. usage_fresh (nu_tokens new) = Inr (b_used_tokens (f b) - b_used_tokens b)"
    "\<And>b. b_used_wall (f b) = b_used_wall b" "\<And>b. limits_of (f b) = limits_of b"
proof -
  obtain fresh where fresh: "usage_fresh (nu_tokens new) = Inr fresh"
    using assms by (auto simp: add_accounted_usage_def Let_def split: sum.splits)
  let ?u = "nu_tokens new"
  let ?f = "\<lambda>b. b\<lparr>b_used_tokens := b_used_tokens b + fresh,
                 b_used_usd := b_used_usd b + nu_usd_micros new,
                 b_used_turns := b_used_turns b + nu_turns new,
                 b_used_input := b_used_input b + tu_input ?u,
                 b_used_output := b_used_output b + tu_output ?u,
                 b_used_cache_read := b_used_cache_read b + tu_cache_read ?u,
                 b_used_cache_write_5m := b_used_cache_write_5m b + tu_cache_write_5m ?u,
                 b_used_cache_write_1h := b_used_cache_write_1h b + tu_cache_write_1h ?u\<rparr>"
  show thesis
    using assms fresh
    by (intro that [of ?f]) (auto simp: add_accounted_usage_def Let_def tiers_def limits_of_def)
qed

lemma balanced_report:
  assumes "ledger_balanced db" "ul_thread row = nu_thread new" "ul_tokens row = nu_tokens new"
    and "add_accounted_usage new (db\<lparr>usage := usage db @ [row]\<rparr>) = Inr db'"
  shows "ledger_balanced db'"
proof -
  let ?db1 = "db\<lparr>usage := usage db @ [row]\<rparr>"
  obtain f where db': "db' = upsert_budget f (nu_thread new) ?db1" and f: "\<And>b. b_thread (f b) = b_thread b"
    and add: "\<And>b c q. (c, q) \<in> set tiers \<Longrightarrow> c (f b) = c b + q (nu_tokens new)"
    using add_accounted_usage_Inr [OF assms(4)] by blast
  have same: "get_budget ?db1 = get_budget db" by (rule get_budget_cong) simp
  have "counted c db' t = ledger_sum q (usage db') t" if tier: "(c, q) \<in> set tiers" for c q t
  proof -
    have "counted c db t = ledger_sum q (usage db) t"
      using assms(1) tier unfolding ledger_balanced_def by blast
    moreover have "counted c db' t = counted c db t + (if t = nu_thread new then q (nu_tokens new) else 0)"
      using counted_fresh [OF tier, of db "nu_thread new"] add [OF tier]
      by (simp add: db' counted_upsert f same) (simp add: counted_def same)
    ultimately show ?thesis using assms(2,3) by (simp add: db' ledger_sum_def)
  qed
  then show ?thesis by (auto simp: ledger_balanced_def)
qed

end
