(* ===== verification/Claim_Frames.thy ===== *)
theory Claim_Frames
  imports Usage_Ledger
begin

text \<open>
  What one operation may do to a claim.  \<open>evolves L t t'\<close> bounds the change of a row: it keeps its
  identity, and its holder and fencing token stay, are cleared together, or become a new holder
  under a token of \<open>L\<close>, the tokens the operation minted.  \<open>frame L db db'\<close> lifts this to the
  database: rows evolve, nobody leaves the worker ledger, the event log and the usage ledger are
  only appended to, the latter with valid rows, and the token counters go on agreeing with the usage ledger.
  Frames compose, so each operation's frame is read off its parts.
\<close>

definition claim_ok :: "thread_row \<Rightarrow> bool" where
  "claim_ok t \<longleftrightarrow>
     (t_assignee t = None \<longrightarrow> t_expires_at t = None \<and> t_lease t = None \<and> t_claimed_at t = None
        \<and> t_work_started_at t = None)
   \<and> (t_assignee t \<noteq> None \<longrightarrow> t_lease t \<noteq> None \<and> t_claimed_at t \<noteq> None)"

definition holder_evolves :: "lease_id set \<Rightarrow> thread_row \<Rightarrow> thread_row \<Rightarrow> bool" where
  "holder_evolves L t t' \<longleftrightarrow>
     t_assignee t' = t_assignee t \<and> t_lease t' = t_lease t
   \<or> t_assignee t' = None \<and> t_lease t' = None
   \<or> t_assignee t' \<noteq> None \<and> (\<exists>l \<in> L. t_lease t' = Some l)"

definition evolves :: "lease_id set \<Rightarrow> thread_row \<Rightarrow> thread_row \<Rightarrow> bool" where
  "evolves L t t' \<longleftrightarrow>
     t_id t' = t_id t \<and> t_channel t' = t_channel t \<and> t_parent t' = t_parent t
   \<and> t_created_at t' = t_created_at t \<and> t_tombstoned_at t' = t_tombstoned_at t
   \<and> holder_evolves L t t'
   \<and> (claim_ok t \<longrightarrow> claim_ok t')"

definition frame :: "lease_id set \<Rightarrow> ('z) claim_db_scheme \<Rightarrow> ('z) claim_db_scheme \<Rightarrow> bool" where
  "frame L db db' \<longleftrightarrow>
     list_all2 (evolves L) (threads db) (threads db')
   \<and> (\<forall>tid m. has_worked db tid m \<longrightarrow> has_worked db' tid m)
   \<and> prefix (log db) (log db')
   \<and> (\<exists>rows. usage db' = usage db @ rows \<and> list_all row_valid rows)
   \<and> (ledger_balanced db \<longrightarrow> ledger_balanced db')
   \<and> channels db' = channels db \<and> members db' = members db"

named_theorems frames

lemma evolves_refl [simp]: "evolves L t t"
  by (simp add: evolves_def holder_evolves_def)

lemma holder_evolves_trans:
  "holder_evolves L t u \<Longrightarrow> holder_evolves L' u v \<Longrightarrow> holder_evolves (L \<union> L') t v"
  unfolding holder_evolves_def by (elim disjE) (simp; blast)+

lemma evolves_trans: "evolves L t u \<Longrightarrow> evolves L' u v \<Longrightarrow> evolves (L \<union> L') t v"
  unfolding evolves_def using holder_evolves_trans [of L t u L' v] by simp

lemma frame_refl [simp]: "frame L db db"
  by (simp add: frame_def list_all2_same)

lemma frame_trans: "frame L db db1 \<Longrightarrow> frame L' db1 db2 \<Longrightarrow> frame (L \<union> L') db db2"
  unfolding frame_def
  by (auto intro: list_all2_trans [OF evolves_trans] prefix_order.trans)

lemma frame_trans1: "frame {} db db1 \<Longrightarrow> frame L db1 db2 \<Longrightarrow> frame L db db2"
  using frame_trans [of "{}" db db1 L db2] by simp

lemma frame_trans2: "frame L db db1 \<Longrightarrow> frame {} db1 db2 \<Longrightarrow> frame L db db2"
  using frame_trans [of L db db1 "{}" db2] by simp

lemma frame_mono: "frame L db db' \<Longrightarrow> L \<subseteq> L' \<Longrightarrow> frame L' db db'"
proof -
  assume "L \<subseteq> L'"
  then have "evolves L t t' \<Longrightarrow> evolves L' t t'" for t t'
    unfolding evolves_def holder_evolves_def by blast
  then show "frame L db db' \<Longrightarrow> frame L' db db'"
    unfolding frame_def by (blast intro: list_all2_mono)
qed

lemma frame_usage: "frame L db db' \<Longrightarrow> prefix (usage db) (usage db')"
  by (auto simp: frame_def)

lemma frame_same:
  "threads db' = threads db \<Longrightarrow> workers db' = workers db \<Longrightarrow> log db' = log db
    \<Longrightarrow> usage db' = usage db \<Longrightarrow> (ledger_balanced db' = ledger_balanced db) \<Longrightarrow> channels db' = channels db
    \<Longrightarrow> members db' = members db \<Longrightarrow> frame L db db'"
  by (simp add: frame_def list_all2_same has_worked_def)

lemma frame_upsert: "keeps_tiers f \<Longrightarrow> frame L db (upsert_budget f tid db)"
  by (rule frame_same) (simp_all add: balanced_upsert)

lemma wall_keeps_tiers [simp]: "keeps_tiers (\<lambda>b. b\<lparr>b_used_wall := b_used_wall b + s\<rparr>)"
  by (simp add: keeps_tiers_def tiers_def)

lemma frame_charge [frames]: "frame L db (charge_wall tid w db)"
  by (cases w) (simp_all add: charge_wall_def frame_upsert)

lemma frame_append [frames]: "frame L db (append_event e db)"
  by (simp add: frame_def list_all2_same has_worked_def ledger_balanced_cong [of "append_event e db" db])

lemma frame_record [frames]: "frame L db (record_worker scope tid m db)"
  by (simp add: frame_def list_all2_same has_worked_record
      ledger_balanced_cong [of "record_worker scope tid m db" db])

lemma frame_dlq: "frame L db (db\<lparr>dlq := x\<rparr>)"
  by (rule frame_same) (simp_all add: ledger_balanced_cong [of "db\<lparr>dlq := x\<rparr>" db])

lemma frame_fail [frames]: "frame L db (fail_claim clk ws ch t m r b db)"
  unfolding fail_claim_def Let_def by (rule frame_trans1 [OF frame_append frame_dlq])

lemma list_all2_update_where:
  "(\<And>r. r \<in> set rows \<Longrightarrow> P r \<Longrightarrow> R r (f r)) \<Longrightarrow> (\<And>r. R r r) \<Longrightarrow> list_all2 R rows (update_where P f rows)"
  by (induction rows) (auto simp: update_where_def)

lemma frame_threads:
  assumes "\<And>t. P t \<Longrightarrow> evolves L t (f t)"
  shows "frame L db (db\<lparr>threads := update_where P f (threads db)\<rparr>)"
  by (simp add: frame_def has_worked_def list_all2_update_where assms
      ledger_balanced_cong [of "db\<lparr>threads := update_where P f (threads db)\<rparr>" db])

lemma update_thread_SomeD:
  assumes "update_thread tid P f db = Some (t', db')"
  obtains t where "t \<in> set (threads db)" "t_id t = tid" "P t" "t' = f t"
    "db' = db\<lparr>threads := update_where (\<lambda>t. t_id t = tid \<and> P t) f (threads db)\<rparr>"
proof (cases "find (\<lambda>t. t_id t = tid \<and> P t) (threads db)")
  case None
  with assms show thesis by (simp add: update_thread_def)
next
  case (Some t)
  from find_key_mem [OF this] Some assms that [of t] show thesis by (simp add: update_thread_def)
qed

lemma frame_update_thread:
  assumes "update_thread tid P f db = Some (t', db')" and "\<And>t. P t \<Longrightarrow> evolves L t (f t)"
  shows "frame L db db'"
  using assms(1)
proof (rule update_thread_SomeD)
  assume "db' = db\<lparr>threads := update_where (\<lambda>t. t_id t = tid \<and> P t) f (threads db)\<rparr>"
  then show ?thesis using frame_threads [of "\<lambda>t. t_id t = tid \<and> P t" L f db] assms(2) by simp
qed

lemma evolves_clear [simp]: "evolves L t (clear_claim clk t)"
  by (simp add: evolves_def holder_evolves_def clear_claim_def claim_ok_def)

lemma evolves_give [simp]: "l \<in> L \<Longrightarrow> evolves L t (give_claim clk m e l t)"
  by (simp add: evolves_def holder_evolves_def give_claim_def claim_ok_def)

lemma evolves_columns [simp]:
  "evolves L t (t\<lparr>t_owner := a, t_updated_at := b\<rparr>)"
  "evolves L t (t\<lparr>t_title := c\<rparr>)"
  "evolves L t (t\<lparr>t_unack_lease := d\<rparr>)"
  "evolves L t (mark_column r t)"
  by (auto simp: evolves_def holder_evolves_def claim_ok_def mark_column_def split: stall_reason.splits)

lemma evolves_fenced:
  "fence m l t \<Longrightarrow> evolves L t (t\<lparr>t_expires_at := e, t_updated_at := b\<rparr>)"
  "fence m l t \<Longrightarrow> evolves L t (t\<lparr>t_work_started_at := w, t_updated_at := b\<rparr>)"
  by (auto simp: evolves_def holder_evolves_def claim_ok_def fence_def)

subsection \<open>Frames of the operations\<close>

lemma charge_open_claim_frame:
  "charge_open_claim clk tid db = Inr db' \<Longrightarrow> frame {} db db'"
  by (auto simp: charge_open_claim_def frames split: option.splits)

lemma append_assignment_event_frame:
  assumes "append_assignment_event scope clk t actor prev note db = Inr db'"
  shows "frame {} db db'"
proof -
  let ?db1 = "case t_assignee t of Some a \<Rightarrow> record_worker scope (t_id t) a db | None \<Rightarrow> db"
  have "frame {} db ?db1" by (auto simp: frames split: option.splits)
  moreover have "frame {} ?db1 db'"
    using assms by (auto simp: append_assignment_event_def Let_def and_then_Inr frames)
  ultimately show ?thesis by (rule frame_trans1)
qed

lemma assign_frame:
  assumes "assign scope clk lease tid m db = Inr (t, db')"
  shows "frame {lease} db db'"
proof -
  obtain db1 t2 db2 where c: "charge_open_claim clk tid db = Inr db1"
    and u: "update_thread tid (\<lambda>t. live t \<and> member_of_thread db1 m t \<and> shared_family db1 m tid = None)
              (give_claim clk m None lease) db1 = Some (t2, db2)"
    and r: "db' = record_worker scope tid m db2"
    using assms by (auto simp: assign_def and_then_Inr split: option.splits)
  have "frame {lease} db1 db2" using u by (rule frame_update_thread) simp
  then show ?thesis
    using frame_trans1 [OF charge_open_claim_frame [OF c]] frame_trans2 [OF _ frame_record] r by blast
qed

lemma assign_with_event_frame:
  assumes "assign_with_event scope clk lease tid m actor note db = Inr (t, db')"
  shows "frame {lease} db db'"
proof -
  obtain db1 t2 db2 p where c: "charge_open_claim clk tid db = Inr db1"
    and u: "update_thread tid (\<lambda>t. live t \<and> member_of_thread db1 m t \<and> shared_family db1 m tid = None)
              (give_claim clk m None lease) db1 = Some (t2, db2)"
    and r: "append_assignment_event scope clk t2 actor p note db2 = Inr db'"
    using assms by (auto simp: assign_with_event_def and_then_Inr split: option.splits)
  have "frame {lease} db1 db2" using u by (rule frame_update_thread) simp
  then show ?thesis
    using frame_trans1 [OF charge_open_claim_frame [OF c]]
      frame_trans2 [OF _ append_assignment_event_frame [OF r]] by blast
qed

lemma clear_assignee_frame:
  assumes "clear_assignee clk tid db = Inr (t, db')"
  shows "frame {} db db'"
proof -
  obtain db1 where c: "charge_open_claim clk tid db = Inr db1"
    and u: "update_thread tid (\<lambda>t. True) (clear_claim clk) db1 = Some (t, db')"
    using assms by (auto simp: clear_assignee_def and_then_Inr)
  have "frame {} db1 db'" using u by (rule frame_update_thread) simp
  with frame_trans1 [OF charge_open_claim_frame [OF c]] show ?thesis by blast
qed

lemma unassign_frame: "unassign clk tid db = Inr (t, db') \<Longrightarrow> frame {} db db'"
  unfolding unassign_def by (rule clear_assignee_frame)

lemma unassign_with_event_frame:
  assumes "unassign_with_event scope clk tid actor db = Inr (t, db')"
  shows "frame {} db db'"
  using assms unfolding unassign_with_event_def
  by (auto simp: and_then_Inr intro: frame_trans1 [OF clear_assignee_frame append_assignment_event_frame])

lemma claim_frame:
  assumes "claim scope clk lease tid m db = Inr ((t, won), db')"
  shows "frame {lease} db db'"
proof (cases "update_thread tid (\<lambda>t. t_assignee t = None \<and> live t \<and> shared_family db m tid = None)
            (give_claim clk m None lease) db")
  case None
  with assms show ?thesis by (auto simp: claim_def and_then_Inr)
next
  case (Some a)
  then obtain t1 db1 where u: "update_thread tid (\<lambda>t. t_assignee t = None \<and> live t \<and> shared_family db m tid = None)
            (give_claim clk m None lease) db = Some (t1, db1)" by (cases a) auto
  have "frame {lease} db db1" using u by (rule frame_update_thread) simp
  with assms u show ?thesis
    by (auto simp: claim_def and_then_Inr intro: frame_trans2 [OF _ frame_record])
qed

lemma claim_with_event_frame:
  assumes "claim_with_event scope clk lease tid m db = Inr ((t, won), db')"
  shows "frame {lease} db db'"
proof (cases "update_thread tid (\<lambda>t. t_assignee t = None \<and> live t \<and> shared_family db m tid = None)
            (give_claim clk m None lease) db")
  case None
  with assms show ?thesis by (auto simp: claim_with_event_def and_then_Inr)
next
  case (Some a)
  then obtain t1 db1 where u: "update_thread tid (\<lambda>t. t_assignee t = None \<and> live t \<and> shared_family db m tid = None)
            (give_claim clk m None lease) db = Some (t1, db1)" by (cases a) auto
  have "frame {lease} db db1" using u by (rule frame_update_thread) simp
  with assms u show ?thesis
    by (auto simp: claim_with_event_def and_then_Inr intro: frame_trans2 [OF _ append_assignment_event_frame])
qed

lemma renew_claim_frame: "renew_claim clk tid m l n db = Inr (t, db') \<Longrightarrow> frame {} db db'"
  unfolding renew_claim_def by (auto elim!: frame_update_thread intro: evolves_fenced)

lemma acknowledge_claim_frame: "acknowledge_claim clk tid m l db = Inr (t, db') \<Longrightarrow> frame {} db db'"
  unfolding acknowledge_claim_def by (auto elim!: frame_update_thread intro: evolves_fenced)

lemma release_fenced_frame:
  assumes "release_fenced clk tid m l db = Inr (t, db')"
  shows "frame {} db db'"
proof -
  obtain w where u: "update_thread tid (fence m l) (clear_claim clk) (charge_wall tid w db) = Some (t, db')"
    using assms by (auto simp: release_fenced_def and_then_Inr Let_def)
  have "frame {} (charge_wall tid w db) db'" using u by (rule frame_update_thread) simp
  with frame_trans1 [OF frame_charge] show ?thesis by blast
qed

lemma release_claim_with_event_frame:
  assumes "release_claim_with_event scope clk tid m l db = Inr (t, db')"
  shows "frame {} db db'"
  using assms unfolding release_claim_with_event_def
  by (auto simp: and_then_Inr intro: frame_trans1 [OF release_fenced_frame append_assignment_event_frame])

lemma frame_charges: "frame {} db (fold (\<lambda>t. charge_wall (g t) (h t)) ts db)"
  by (induction ts arbitrary: db) (auto intro: frame_trans1 [OF frame_charge])

lemma release_member_claims_frame:
  assumes "release_member_claims clk m db = (n, db')"
  shows "frame {} db db'"
proof -
  let ?rows = "filter (member_holds m) (threads db)"
  let ?db1 = "fold (\<lambda>t. charge_wall (t_id t) (worked_secs (t_work_started_at t) clk)) ?rows db"
  have "db' = ?db1\<lparr>threads := update_where (member_holds m) (clear_claim clk) (threads ?db1)\<rparr>"
    using assms by (simp add: release_member_claims_def Let_def)
  moreover have "frame {} ?db1 (?db1\<lparr>threads := update_where (member_holds m) (clear_claim clk) (threads ?db1)\<rparr>)"
    by (rule frame_threads) simp
  ultimately show ?thesis using frame_trans1 [OF frame_charges] by simp
qed

lemma set_owner_frame: "set_owner clk tid ow db = Inr (t, db') \<Longrightarrow> frame {} db db'"
  unfolding set_owner_def by (auto elim!: frame_update_thread)

lemma set_title_frame: "set_title tid x db = Inr (t, db') \<Longrightarrow> frame {} db db'"
  unfolding set_title_def by (auto elim!: frame_update_thread)

subsection \<open>Frames of the sweeps and reports\<close>

lemma append_claim_expired_frame:
  "append_claim_expired clk t m db = Inr db' \<Longrightarrow> frame {} db db'"
  by (auto simp: append_claim_expired_def and_then_Inr frames)

text \<open>The ways a lapsed claim's end is reported: dead-lettered over budget, or expired.\<close>

lemma end_lapsed_claim_cases:
  assumes "end_lapsed_claim clk t m d st db = Inr db'"
  obtains (failed) ws ch b reason where
      "get_budget (charge_wall (t_id t) (worked_secs st d) db) (t_id t) = Some b"
      "exceeded b None = Some reason"
      "thread_scope (charge_wall (t_id t) (worked_secs st d) db) (t_id t) = Inr (ws, ch)"
      "db' = fail_claim clk ws ch t m reason b (charge_wall (t_id t) (worked_secs st d) db)"
  | (expired) "append_claim_expired clk t m (charge_wall (t_id t) (worked_secs st d) db) = Inr db'"
proof (cases "Option.bind (get_budget (charge_wall (t_id t) (worked_secs st d) db) (t_id t))
    (\<lambda>b. map_option (\<lambda>r. (b, r)) (exceeded b None))")
  case None
  with assms expired show thesis by (simp add: end_lapsed_claim_def Let_def)
next
  case (Some p)
  then obtain b reason where p: "p = (b, reason)"
    "get_budget (charge_wall (t_id t) (worked_secs st d) db) (t_id t) = Some b"
    "exceeded b None = Some reason"
    by (auto simp: bind_eq_Some_conv)
  with assms Some failed show thesis
    by (auto simp: end_lapsed_claim_def Let_def and_then_Inr)
qed

lemma end_lapsed_claim_frame:
  assumes "end_lapsed_claim clk t m d st db = Inr db'"
  shows "frame {} db db'"
  using assms
proof (cases rule: end_lapsed_claim_cases)
  case (failed ws ch b reason)
  then show ?thesis using frame_trans1 [OF frame_charge frame_fail] by simp
next
  case expired
  then show ?thesis by (rule frame_trans1 [OF frame_charge append_claim_expired_frame])
qed

lemma take_candidate_frame:
  "take_candidate clk l n tid m db = Inr (t, db') \<Longrightarrow> frame {l} db db'"
  unfolding take_candidate_def by (auto elim!: frame_update_thread)

lemma reap_one_frame:
  assumes "reap_one clk now c db = Inr db'"
  shows "frame {} db db'"
proof -
  obtain h d st where lc: "lapsed_claim c = Some (h, d, st)"
    using assms by (cases "lapsed_claim c") (auto simp: reap_one_def)
  let ?u = "update_thread (t_id c) (\<lambda>t. t_assignee t = Some h \<and> lapsed_before now t) (clear_claim clk) db"
  show ?thesis
  proof (cases ?u)
    case None
    with assms lc show ?thesis by (simp add: reap_one_def)
  next
    case (Some r)
    then obtain t db1 where u: "?u = Some (t, db1)" by (cases r) auto
    then have "frame {} db db1" by (rule frame_update_thread) simp
    moreover have "end_lapsed_claim clk t h d st db1 = Inr db'"
      using assms lc u by (simp add: reap_one_def)
    ultimately show ?thesis using frame_trans1 end_lapsed_claim_frame by blast
  qed
qed

lemma reap_all_frame: "reap_all clk now cs db = Inr db' \<Longrightarrow> frame {} db db'"
  by (induction cs arbitrary: db) (auto simp: and_then_Inr intro: frame_trans1 [OF reap_one_frame])

lemma reap_expired_claims_frame: "reap_expired_claims g clk now n db = Inr db' \<Longrightarrow> frame {} db db'"
  by (auto simp: reap_expired_claims_def split: if_splits intro: reap_all_frame)

lemma frame_statuses: "frame {} db (db\<lparr>statuses := x\<rparr>)"
  by (rule frame_same) (simp_all add: ledger_balanced_cong [of "db\<lparr>statuses := x\<rparr>" db])

lemma return_one_frame:
  assumes "return_one clk pol (t, s) db = Inr db'"
  shows "frame {} db db'"
proof -
  obtain t1 db1 ws ch e where r: "release_fenced clk (t_id t) (the (t_assignee t)) (the (t_lease t)) db = Inr (t1, db1)"
    and db': "db' = append_event e (db1\<lparr>statuses := filter (\<lambda>s'. s_thread s' \<noteq> t_id t) (statuses db1)\<rparr>)"
    using assms by (auto simp: return_one_def and_then_Inr Let_def)
  show ?thesis
    unfolding db'
    by (rule frame_trans1 [OF release_fenced_frame [OF r] frame_trans1 [OF frame_statuses frame_append]])
qed

lemma return_all_frame: "return_all clk pol cs db = Inr db' \<Longrightarrow> frame {} db db'"
proof (induction cs arbitrary: db)
  case (Cons c cs)
  then obtain db1 where "return_one clk pol c db = Inr db1" "return_all clk pol cs db1 = Inr db'"
    by (auto simp: and_then_Inr)
  with Cons.IH show ?case
    by (cases c) (auto intro: frame_trans1 [OF return_one_frame])
qed simp

lemma return_human_timeouts_frame:
  "return_human_timeouts clk now dbf pol n db = Inr db' \<Longrightarrow> frame {} db db'"
  unfolding return_human_timeouts_def by (rule return_all_frame)

lemma append_claim_unacknowledged_frame:
  "append_claim_unacknowledged clk t db = Inr db' \<Longrightarrow> frame {} db db'"
  by (auto simp: append_claim_unacknowledged_def and_then_Inr frames)

lemma unack_all_frame: "unack_all clk now cb cs db = Inr db' \<Longrightarrow> frame {} db db'"
proof (induction cs arbitrary: db)
  case (Cons c cs)
  let ?u = "update_thread (t_id c) (\<lambda>t. t_lease t = t_lease c \<and> stale_claim now cb t)
             (\<lambda>t. t\<lparr>t_unack_lease := t_lease t\<rparr>) db"
  show ?case
  proof (cases ?u)
    case None
    with Cons show ?thesis by simp
  next
    case (Some r)
    then obtain t db1 where u: "?u = Some (t, db1)" by (cases r) auto
    then have f1: "frame {} db db1" by (rule frame_update_thread) simp
    from Cons.prems u obtain db2 where a: "append_claim_unacknowledged clk t db1 = Inr db2"
      and rest: "unack_all clk now cb cs db2 = Inr db'"
      by (auto simp: and_then_Inr)
    show ?thesis
      by (rule frame_trans1 [OF f1 frame_trans1 [OF append_claim_unacknowledged_frame [OF a] Cons.IH [OF rest]]])
  qed
qed simp

lemma report_unacknowledged_claims_frame:
  "report_unacknowledged_claims clk now cb n db = Inr db' \<Longrightarrow> frame {} db db'"
  unfolding report_unacknowledged_claims_def by (rule unack_all_frame)

lemma stall_all_frame: "stall_all clk r co lim n cs db = Inr db' \<Longrightarrow> frame {} db db'"
proof (induction cs arbitrary: n db)
  case (Cons p cs)
  obtain c seen where p: "p = (c, seen)" by (cases p)
  let ?u = "update_thread (t_id c) (\<lambda>t. t_lease t = t_lease c \<and> scan_column r t \<noteq> t_lease t) (mark_column r) db"
  show ?case
  proof (cases "n \<ge> lim \<or> \<not> is_due seen r co \<or> ?u = None")
    case True
    with Cons show ?thesis by (auto simp: p split: if_splits)
  next
    case False
    then obtain t db1 where u: "?u = Some (t, db1)" by auto
    then have f1: "frame {} db db1" by (rule frame_update_thread) simp
    from Cons.prems False u obtain e where
      rest: "stall_all clk r co lim (n + 1) cs (append_event e db1) = Inr db'"
      by (auto simp: p and_then_Inr)
    show ?thesis
      by (rule frame_trans1 [OF f1 frame_trans1 [OF frame_append Cons.IH [OF rest]]])
  qed
qed simp

lemma report_stalled_claims_frame:
  "report_stalled_claims clk now r co n db = Inr db' \<Longrightarrow> frame {} db db'"
  unfolding report_stalled_claims_def by (rule stall_all_frame)

lemma report_usage_cases:
  assumes "report_usage clk tid d db = Inr ((b, stop), db')"
  obtains (going) "stop = None" "db' = add_usage tid d db" "b = the (get_budget (add_usage tid d db) tid)"
  | (stopped) reason m t t1 db3 ws ch where "stop = Some reason" "t_assignee t = Some m"
      "find (\<lambda>t. t_id t = tid \<and> live t) (threads db) = Some t"
      "exceeded (the (get_budget (add_usage tid d db) tid))
         (map_option (\<lambda>w. num_seconds (clk - w)) (t_work_started_at t)) = Some reason"
      "update_thread tid (\<lambda>_. True) (clear_claim clk)
         (keep_stopped_wall tid (map_option (\<lambda>w. num_seconds (clk - w)) (t_work_started_at t)) (add_usage tid d db)) = Some (t1, db3)"
      "db' = fail_claim clk ws ch t1 m reason b db3"
proof -
  let ?db1 = "add_usage tid d db"
  have th: "threads ?db1 = threads db" by (simp add: add_usage_def)
  from assms obtain t where t: "find (\<lambda>t. t_id t = tid \<and> live t) (threads db) = Some t"
    by (auto simp: report_usage_def Let_def and_then_Inr th)
  let ?wall = "map_option (\<lambda>w. num_seconds (clk - w)) (t_work_started_at t)"
  show thesis
  proof (cases "exceeded (the (get_budget ?db1 tid)) ?wall = None \<or> t_assignee t = None")
    case True
    with assms t show thesis
      by (intro going) (auto simp: report_usage_def Let_def and_then_Inr th split: option.splits)
  next
    case False
    then obtain reason m where rm: "exceeded (the (get_budget ?db1 tid)) ?wall = Some reason" "t_assignee t = Some m"
      by auto
    with assms t obtain ws ch t1 db3 where
      "update_thread tid (\<lambda>_. True) (clear_claim clk) (keep_stopped_wall tid ?wall ?db1) = Some (t1, db3)"
      "stop = Some reason" "db' = fail_claim clk ws ch t1 m reason b db3"
      by (auto simp: report_usage_def Let_def and_then_Inr th)
    with rm t stopped show thesis by blast
  qed
qed

lemma frame_keep_stopped_wall: "frame {} db (keep_stopped_wall tid w db)"
  by (auto simp: keep_stopped_wall_def frames split: option.splits)

lemma report_usage_frame:
  assumes "report_usage clk tid d db = Inr (r, db')"
  shows "frame {} db db'"
proof -
  obtain b stop where r: "r = (b, stop)" by (cases r)
  have f0: "frame {} db (add_usage tid d db)"
    unfolding add_usage_def by (rule frame_upsert) (simp add: keeps_tiers_def tiers_def)
  show ?thesis
    using assms [unfolded r]
  proof (cases rule: report_usage_cases)
    case going
    with f0 show ?thesis by simp
  next
    case (stopped reason m t t1 db3 ws ch)
    let ?w = "map_option (\<lambda>w. num_seconds (clk - w)) (t_work_started_at t)"
    have f1: "frame {} (keep_stopped_wall tid ?w (add_usage tid d db)) db3"
      using stopped(5) by (rule frame_update_thread) simp
    have f2: "frame {} db3 db'" unfolding stopped(6) by (rule frame_fail)
    show ?thesis
      by (rule frame_trans1 [OF f0 frame_trans1 [OF frame_keep_stopped_wall frame_trans1 [OF f1 f2]]])
  qed
qed

subsection \<open>The accounted report\<close>

lemma update_thread_usage: "update_thread tid P f db = Some (t, db') \<Longrightarrow> usage db' = usage db"
  by (erule update_thread_SomeD) simp

lemma keep_stopped_wall_usage [simp]: "usage (keep_stopped_wall tid w db) = usage db"
  by (simp add: keep_stopped_wall_def split: option.split)

lemma stop_run_frame:
  assumes "stop_run clk new ws ch b stopping db = Inr (failed, db')"
  shows "frame {} db db' \<and> usage db' = usage db"
  using assms
proof (cases rule: stop_run_cases)
  case (stopped reason t' db1)
  have f1: "frame {} db db1" using stopped(2) by (rule frame_update_thread) simp
  have f2: "frame {} db1 db'" unfolding stopped(3) by (rule frame_fail)
  have "usage db' = usage db1" unfolding stopped(3) by (simp add: fail_claim_def Let_def)
  then show ?thesis using frame_trans1 [OF f1 f2] update_thread_usage [OF stopped(2)] by simp
qed simp

lemma update_where_last:
  "\<forall>r \<in> set rows. ul_report r \<noteq> rid \<Longrightarrow> ul_report row = rid \<Longrightarrow>
   update_where (\<lambda>r. ul_report r = rid) f (rows @ [row]) = rows @ [f row]"
  by (simp add: row_simps update_where_id) (simp add: update_where_def)

lemma settle_report_frame:
  assumes "settle_report clk new t ws ch (db\<lparr>usage := usage db @ [row]\<rparr>) = Inr ((e, ids), db')"
    and "\<forall>r \<in> set (usage db). ul_report r \<noteq> nu_report new" "ul_report row = nu_report new"
    and "ul_thread row = nu_thread new" "ul_tokens row = nu_tokens new" "row_valid row"
  shows "frame {} db db'"
    and "\<exists>row'. usage db' = usage db @ [row'] \<and> row_to_entry row' = Inr e
           \<and> ul_report row' = ul_report row \<and> ul_thread row' = ul_thread row
           \<and> stamp_of row' = stamp_of row \<and> evidence_of row' = evidence_of row \<and> ul_turns row' = ul_turns row"
proof -
  let ?db1 = "db\<lparr>usage := usage db @ [row]\<rparr>"
  obtain db2 db3 db4 db5 b stopping failed where
    add: "add_accounted_usage new ?db1 = Inr db2"
    and db3: "db3 = (if stopping \<noteq> None then keep_stopped_wall (nu_thread new) (wall_of clk t) db2 else db2)"
    and db4: "db4 = append_event (UsageReported clk ws ch (nu_thread new) (nu_report new)
               (report_stamp new ws) (nu_turns new) b) db3"
    and stop: "stop_run clk new ws ch b stopping db4 = Inr (failed, db5)"
    and fin: "finish_in_tx (nu_report new) b (stopping \<noteq> None) stopping (length (log db4)) failed db5
         = Inr (e, db')"
    using settle_report_parts [OF assms(1)] by metis
  obtain f where db2: "db2 = upsert_budget f (nu_thread new) ?db1"
    using add_accounted_usage_Inr [OF add] by metis
  have f4: "frame {} db2 db4"
    unfolding db4 using frame_keep_stopped_wall [of db2] frame_append frame_trans1 by (simp add: db3) blast
  note f5 = stop_run_frame [OF stop]
  have frame5: "frame {} db2 db5" by (rule frame_trans1 [OF f4]) (use f5 in simp)
  have u5: "usage db5 = usage db @ [row]" using f5 by (simp add: db4 db3 db2 split: if_splits)
  have none: "find (\<lambda>r. ul_report r = nu_report new) (usage db) = None"
    using assms(2) by (simp add: find_None_iff)
  define row' where "row' = row\<lparr>ul_budget := Some b, ul_stopped := Some (stopping \<noteq> None), ul_reason := stopping,
      ul_usage_event := Some (length (log db4)), ul_claim_failed_event := failed\<rparr>"
  have rest: "db' = db5\<lparr>usage := usage db @ [row']\<rparr>" and entry: "row_to_entry row' = Inr e"
    using fin assms(3)
    unfolding finish_in_tx_def Let_def u5 update_where_last [OF assms(2,3)] row'_def
    by (auto simp: and_then_Inr find_snoc none)
  then show "\<exists>row'. usage db' = usage db @ [row'] \<and> row_to_entry row' = Inr e
      \<and> ul_report row' = ul_report row \<and> ul_thread row' = ul_thread row
      \<and> stamp_of row' = stamp_of row \<and> evidence_of row' = evidence_of row \<and> ul_turns row' = ul_turns row"
    by (intro exI [of _ row']) (simp add: row'_def stamp_of_def evidence_of_def)
  have "ledger_balanced db' = ledger_balanced db5"
    by (simp add: rest ledger_balanced_def counted_def get_budget_def ledger_sum_def u5 row'_def)
  moreover have "ledger_balanced db \<longrightarrow> ledger_balanced db2"
    using balanced_report [OF _ assms(4,5) add] by blast
  moreover have "row_valid row'" using assms(6) by (simp add: row_valid_def row'_def split: option.splits)
  ultimately show "frame {} db db'"
    using frame5 unfolding rest by (simp add: frame_def has_worked_def db2)
qed

lemma reserved_row_report [simp]: "ul_report (reserved_row clk new ws) = nu_report new"
  by (simp add: reserved_row_def Let_def)

lemma report_accounted_usage_frame:
  assumes "report_accounted_usage clk new db = Inr (r, db')"
  shows "frame {} db db'"
proof -
  obtain e ids where r: "r = (e, ids)" by (cases r)
  show ?thesis
    using assms [unfolded r]
  proof (cases rule: report_accounted_usage_cases)
    case (accepted t ws ch)
    then show ?thesis using settle_report_frame(1) [OF accepted(7) accepted(4)] reserved_row_valid [OF accepted(1)]
      by (simp add: reserved_row_def Let_def)
  qed simp
qed

lemma limits_keep_tiers: "keeps_tiers (set_limits l)"
  by (simp add: keeps_tiers_def tiers_def set_limits_def)

lemma set_budget_frame: "frame {} db (set_budget tid l db)"
  unfolding set_budget_def by (rule frame_upsert [OF limits_keep_tiers])

lemma patch_budget_frame: "frame {} db (patch_budget tid p db)"
  unfolding patch_budget_def Let_def by (rule frame_upsert [OF limits_keep_tiers])

end
