(* ===== verification/Claim_Next.thy ===== *)
theory Claim_Next
  imports Footprint_Store Thread_Access Claim_Frames
begin

text \<open>
  The queue: whether an open thread may be handed out (\<open>claimability.rs\<close>), which one a member is
  handed (\<open>claim_next.rs\<close> and \<open>sqlite/threads.rs\<close>) and the queue's counts (\<open>queue_counts.rs\<close>).
  SQLite reads a stored time back as whole milliseconds (\<open>julianday\<close>, and \<open>strftime('%s')\<close> in
  seconds); how it rounds is the database's, so that reading is the argument \<open>jd\<close>.
\<close>

subsection \<open>Claimability\<close>

definition held :: "instant \<Rightarrow> thread_row \<Rightarrow> bool" where
  "held now t \<longleftrightarrow> t_assignee t \<noteq> None \<and> (case t_expires_at t of None \<Rightarrow> True | Some d \<Rightarrow> d \<ge> now)"

definition available :: "instant \<Rightarrow> thread_row \<Rightarrow> bool" where
  "available now t \<longleftrightarrow> t_assignee t = None \<or> (case t_expires_at t of None \<Rightarrow> False | Some d \<Rightarrow> d < now)"

definition PARKED :: "('z) queue_db_scheme \<Rightarrow> thread_row \<Rightarrow> bool" where
  "PARKED db t \<longleftrightarrow> (\<exists>u \<in> set (unclaimable db). u_thread u = t_id t)"

definition DUPLICATE :: "('z) queue_db_scheme \<Rightarrow> thread_row \<Rightarrow> bool" where
  "DUPLICATE db t \<longleftrightarrow>
     (\<exists>fp \<in> set (fingerprints db). \<exists>orig \<in> set (threads db).
        fp_duplicate_of fp = Some (t_id orig) \<and> fp_thread fp = t_id t
      \<and> t_tombstoned_at orig = None \<and> t_state orig \<in> {Open, InReview})"

definition ISSUE_IN_REVIEW :: "('z) queue_db_scheme \<Rightarrow> thread_row \<Rightarrow> bool" where
  "ISSUE_IN_REVIEW db t \<longleftrightarrow>
     (\<exists>ia \<in> set (attributes db). \<exists>ich \<in> set (channels db). \<exists>oa \<in> set (attributes db).
      \<exists>orig \<in> set (threads db). \<exists>och \<in> set (channels db).
        c_id ich = t_channel t
      \<and> a_linear_issue oa = a_linear_issue ia \<and> a_thread oa \<noteq> a_thread ia
      \<and> t_id orig = a_thread oa \<and> c_id och = t_channel orig
      \<and> a_thread ia = t_id t \<and> a_kind ia = ''change'' \<and> a_linear_issue ia \<noteq> None
      \<and> a_kind oa = ''change'' \<and> c_workspace och = c_workspace ich
      \<and> t_tombstoned_at orig = None \<and> t_state orig = InReview
      \<and> \<not> (\<exists>cf \<in> set (fingerprints db). fp_thread cf = t_id t \<and> fp_cleared_at cf \<noteq> None))"

definition BLOCKED :: "('z) queue_db_scheme \<Rightarrow> thread_row \<Rightarrow> bool" where
  "BLOCKED db t \<longleftrightarrow> t_id t \<in> set (blocks db)"

definition WAITING :: "('z) queue_db_scheme \<Rightarrow> thread_row \<Rightarrow> bool" where
  "WAITING db t \<longleftrightarrow>
     (\<exists>d \<in> set (deps db). \<exists>dep \<in> set (threads db).
        t_id dep = dep_on d \<and> dep_thread d = t_id t
      \<and> (t_state dep \<notin> {Closed, Archived} \<or> t_id dep \<in> set (unlanded db)))"

definition GATED :: "('z) queue_db_scheme \<Rightarrow> thread_row \<Rightarrow> bool" where
  "GATED db t \<longleftrightarrow> (\<exists>g \<in> set (gates db). g_thread g = Some (t_id t) \<and> g_state g = Pending)"

text \<open>\<open>LAPSED_WORKED_SECS\<close>: the two stored times, each read in whole seconds.\<close>

definition lapsed_worked_secs :: "(instant \<Rightarrow> int) \<Rightarrow> thread_row \<Rightarrow> int" where
  "lapsed_worked_secs jd t =
     (case (t_assignee t, t_work_started_at t, t_expires_at t) of
        (Some _, Some w, Some d) \<Rightarrow> max 0 (jd d div 1000 - jd w div 1000)
      | _ \<Rightarrow> 0)"

definition over_budget :: "(instant \<Rightarrow> int) \<Rightarrow> ('z) queue_db_scheme \<Rightarrow> thread_row \<Rightarrow> bool" where
  "over_budget jd db t \<longleftrightarrow>
     (\<exists>bu \<in> set (budgets db). b_thread bu = t_id t
      \<and> (bound (b_used_tokens bu) (b_max_tokens bu)
       \<or> bound (b_used_usd bu) (b_max_usd bu)
       \<or> bound (b_used_turns bu) (b_max_turns bu)
       \<or> bound (b_used_wall bu + lapsed_worked_secs jd t) (b_max_wall bu)))"

definition finished :: "(instant \<Rightarrow> int) \<Rightarrow> ('z) queue_db_scheme \<Rightarrow> thread_row \<Rightarrow> bool" where
  "finished jd db t \<longleftrightarrow>
     (\<exists>r \<in> set (results db). r_thread r = t_id t
      \<and> \<not> (\<exists>tr \<in> set (transitions db). tr_thread tr = t_id t \<and> tr_to tr = Open
             \<and> jd (tr_occurred_at tr) \<ge> jd (r_produced_at r)))"

definition withheld :: "(instant \<Rightarrow> int) \<Rightarrow> ('z) queue_db_scheme \<Rightarrow> thread_row \<Rightarrow> bool" where
  "withheld jd db t \<longleftrightarrow>
     PARKED db t \<or> DUPLICATE db t \<or> ISSUE_IN_REVIEW db t \<or> over_budget jd db t \<or> finished jd db t"

definition stalled :: "('z) queue_db_scheme \<Rightarrow> instant \<Rightarrow> thread_row \<Rightarrow> bool" where
  "stalled db now t \<longleftrightarrow> BLOCKED db t \<or> WAITING db t \<or> GATED db t \<or> deferred db (t_id t) now"

definition claimable :: "(instant \<Rightarrow> int) \<Rightarrow> ('z) queue_db_scheme \<Rightarrow> instant \<Rightarrow> thread_row \<Rightarrow> bool" where
  "claimable jd db now t \<longleftrightarrow>
     t_tombstoned_at t = None \<and> t_state t = Open \<and> available now t \<and> \<not> withheld jd db t \<and> \<not> stalled db now t"

subsection \<open>The candidate\<close>

datatype claim_scope = InChannel channel_id | InWorkspace workspace_id

fun in_scope :: "claim_scope \<Rightarrow> thread_row \<Rightarrow> channel_row \<Rightarrow> bool" where
  "in_scope (InChannel c) t ch \<longleftrightarrow> t_channel t = c"
| "in_scope (InWorkspace w) t ch \<longleftrightarrow> c_workspace ch = w"

definition served_by :: "('z) queue_db_scheme \<Rightarrow> string option \<Rightarrow> string option \<Rightarrow> thread_row \<Rightarrow> bool" where
  "served_by db repo engine t \<longleftrightarrow>
     (repo = None \<or> (\<exists>rf \<in> set (footprints db). fr_thread rf = t_id t \<and> Some (fr_repo rf) = repo))
   \<and> (engine = None \<or> (\<exists>a \<in> set (attributes db). a_thread a = t_id t \<and> a_engine a = engine))"

definition readable_by :: "('z) queue_db_scheme \<Rightarrow> member_id \<Rightarrow> thread_row \<Rightarrow> bool" where
  "readable_by db m t \<longleftrightarrow>
     (case find (\<lambda>r. m_id r = m) (members db) of
        None \<Rightarrow> False
      | Some claimer \<Rightarrow> readable_thread db (m_workspace claimer) m (t_id t))"

text \<open>\<open>warm_for\<close>: the claimer holds the newest sequence number of the thread's workers.  A worker row
  without one compares with nothing.\<close>

definition warm_for :: "('z) queue_db_scheme \<Rightarrow> member_id \<Rightarrow> thread_row \<Rightarrow> int" where
  "warm_for db m t =
     (if \<exists>w \<in> set (workers db). w_thread w = t_id t \<and> w_member w = m \<and> w_seq w \<noteq> None
           \<and> (\<forall>w2 \<in> set (workers db). w_thread w2 = t_id t \<longrightarrow>
                (case w_seq w2 of None \<Rightarrow> True | Some s2 \<Rightarrow> s2 \<le> the (w_seq w)))
      then 1 else 0)"

definition WARM_HOLD_SECS :: int where "WARM_HOLD_SECS = 120"
definition WARM_TTL_SECS :: int where "WARM_TTL_SECS = 300"

definition shares_prefix :: "('z) queue_db_scheme \<Rightarrow> thread_row \<Rightarrow> thread_row \<Rightarrow> bool" where
  "shares_prefix db t sib \<longleftrightarrow>
     (\<exists>rc \<in> set (recipe_children db). \<exists>rs \<in> set (recipe_children db).
        rc_run rs = rc_run rc \<and> rc_thread rc = t_id t \<and> rc_thread rs = t_id sib)
   \<or> (\<exists>fc \<in> set (fingerprints db). \<exists>fs \<in> set (fingerprints db).
        fp_workspace fs = fp_workspace fc \<and> fp_print fs = fp_print fc
      \<and> fp_thread fc = t_id t \<and> fp_thread fs = t_id sib)"

definition sibling_warming ::
  "(instant \<Rightarrow> int) \<Rightarrow> ('z) queue_db_scheme \<Rightarrow> instant \<Rightarrow> instant \<Rightarrow> instant \<Rightarrow> thread_row \<Rightarrow> bool" where
  "sibling_warming jd db now hold_since ttl_since t \<longleftrightarrow>
     t_parent t \<noteq> None
   \<and> (\<exists>sib \<in> set (threads db). t_parent sib = t_parent t \<and> t_id sib \<noteq> t_id t \<and> shares_prefix db t sib
        \<and> t_assignee sib \<noteq> None \<and> t_lease sib \<noteq> None
        \<and> (case t_expires_at sib of None \<Rightarrow> True | Some d \<Rightarrow> d \<ge> now)
        \<and> (case t_claimed_at sib of None \<Rightarrow> False | Some c \<Rightarrow> jd c > jd hold_since)
        \<and> \<not> (\<exists>u \<in> set (usage db). ul_thread u = t_id sib \<and> Some (ul_lease u) = t_lease sib))
   \<and> \<not> (\<exists>u \<in> set (usage db). \<exists>usib \<in> set (threads db). t_id usib = ul_thread u
        \<and> t_parent usib = t_parent t \<and> shares_prefix db t usib \<and> jd (ul_accepted_at u) > jd ttl_since)"

definition lane_rank :: "('z) queue_db_scheme \<Rightarrow> string option \<Rightarrow> thread_row \<Rightarrow> int" where
  "lane_rank db lane t =
     (let cand_lane = Option.bind (find (\<lambda>a. a_thread a = t_id t) (attributes db)) a_lane
      in if unwrap_or cand_lane [] = unwrap_or lane [] then 0 else if cand_lane = None then 1 else 2)"

definition has_skills :: "('z) queue_db_scheme \<Rightarrow> member_id \<Rightarrow> thread_row \<Rightarrow> bool" where
  "has_skills db m t \<longleftrightarrow>
     \<not> (\<exists>trs \<in> set (required_skills db). sk_owner trs = t_id t
          \<and> \<not> (\<exists>ms \<in> set (member_skills db). sk_owner ms = m \<and> sk_skill ms = sk_skill trs))"

text \<open>SQLite's integer division truncates toward zero.\<close>

definition hours_waiting :: "(instant \<Rightarrow> int) \<Rightarrow> instant \<Rightarrow> thread_row \<Rightarrow> int" where
  "hours_waiting jd clk t =
     (let s = jd clk div 1000 - jd (t_created_at t) div 1000
      in if s \<ge> 0 then s div 3600 else - ((- s) div 3600))"

definition thread_priority :: "('z) queue_db_scheme \<Rightarrow> thread_row \<Rightarrow> int" where
  "thread_priority db t = (case find (\<lambda>p. pr_thread p = t_id t) (priorities db) of None \<Rightarrow> 0 | Some p \<Rightarrow> pr_priority p)"

definition eligible ::
  "(instant \<Rightarrow> int) \<Rightarrow> claim_scope \<Rightarrow> member_id \<Rightarrow> instant \<Rightarrow> instant \<Rightarrow> string option \<Rightarrow> string option \<Rightarrow>
   ('z) queue_db_scheme \<Rightarrow> thread_row \<Rightarrow> bool" where
  "eligible jd sc m clk now repo engine db t \<longleftrightarrow>
     (\<exists>ch \<in> set (channels db). c_id ch = t_channel t \<and> in_scope sc t ch)
   \<and> claimable jd db now t
   \<and> has_skills db m t
   \<and> m \<notin> set (freezes db)
   \<and> served_by db repo engine t
   \<and> shared_family db m (t_id t) = None
   \<and> readable_by db m t
   \<and> \<not> sibling_warming jd db now (clk - secs WARM_HOLD_SECS) (clk - secs WARM_TTL_SECS) t"

definition candidate_key ::
  "(instant \<Rightarrow> int) \<Rightarrow> member_id \<Rightarrow> instant \<Rightarrow> string option \<Rightarrow> ('z) queue_db_scheme \<Rightarrow> thread_row \<Rightarrow>
   int \<times> int \<times> int \<times> instant \<times> thread_id" where
  "candidate_key jd m clk lane db t =
     (- (thread_priority db t + hours_waiting jd clk t), - warm_for db m t, lane_rank db lane t,
      t_created_at t, t_id t)"

definition claim_next_candidate ::
  "(instant \<Rightarrow> int) \<Rightarrow> claim_scope \<Rightarrow> member_id \<Rightarrow> instant \<Rightarrow> instant \<Rightarrow> string option \<Rightarrow> string option \<Rightarrow>
   string option \<Rightarrow> ('z) queue_db_scheme \<Rightarrow> thread_row option" where
  "claim_next_candidate jd sc m clk now repo engine lane db =
     (case sort_key (candidate_key jd m clk lane db) (filter (eligible jd sc m clk now repo engine db) (threads db)) of
        [] \<Rightarrow> None
      | t # _ \<Rightarrow> Some t)"

subsection \<open>Handing it out\<close>

definition end_candidate_claim ::
  "instant \<Rightarrow> thread_row \<Rightarrow> thread_row \<Rightarrow> ('z) queue_db_scheme \<Rightarrow> store_error + ('z) queue_db_scheme" where
  "end_candidate_claim clk candidate t db =
     (case lapsed_claim candidate of
        Some (holder, deadline, started) \<Rightarrow> end_lapsed_claim clk t holder deadline started db
      | None \<Rightarrow> Inr db)"

definition claim_next ::
  "(instant \<Rightarrow> int) \<Rightarrow> grace \<Rightarrow> attribution option \<Rightarrow> instant \<Rightarrow> lease_id \<Rightarrow> channel_id \<Rightarrow> member_id \<Rightarrow> int option
    \<Rightarrow> string option \<Rightarrow> ('z) queue_db_scheme \<Rightarrow> store_error + thread_row option \<times> ('z) queue_db_scheme" where
  "claim_next jd g scope clk lease ch m lease_secs engine db =
     (case claim_next_candidate jd (InChannel ch) m clk (lease_clock g clk) None engine None db of
        None \<Rightarrow> Inr (None, db)
      | Some candidate \<Rightarrow>
          and_then (take_candidate clk lease lease_secs (t_id candidate) m db) (\<lambda>(t, db1).
          and_then (end_candidate_claim clk candidate t (record_worker scope (t_id t) m db1)) (\<lambda>db2.
          Inr (Some t, db2))))"

definition claim_next_with_event ::
  "(instant \<Rightarrow> int) \<Rightarrow> grace \<Rightarrow> attribution option \<Rightarrow> instant \<Rightarrow> lease_id \<Rightarrow> claim_scope \<Rightarrow> member_id \<Rightarrow> int option
    \<Rightarrow> string option \<Rightarrow> string option \<Rightarrow> string option \<Rightarrow> ('z) queue_db_scheme
    \<Rightarrow> store_error + thread_row option \<times> ('z) queue_db_scheme" where
  "claim_next_with_event jd g scope clk lease sc m lease_secs repo engine lane db =
     (case claim_next_candidate jd sc m clk (lease_clock g clk) repo engine lane db of
        None \<Rightarrow> Inr (None, db)
      | Some candidate \<Rightarrow>
          and_then (take_candidate clk lease lease_secs (t_id candidate) m db) (\<lambda>(t, db1).
          and_then (end_candidate_claim clk candidate t db1) (\<lambda>db2.
          and_then (append_assignment_event scope clk t m None None db2) (\<lambda>db3.
          Inr (Some t, db3)))))"

subsection \<open>Counts\<close>

definition open_threads ::
  "claim_scope \<Rightarrow> member_id option \<Rightarrow> string option \<Rightarrow> string option \<Rightarrow> ('z) queue_db_scheme \<Rightarrow> thread_row list" where
  "open_threads sc reader repo engine db =
     filter (\<lambda>t. (\<exists>ch \<in> set (channels db). c_id ch = t_channel t \<and> in_scope sc t ch)
        \<and> t_state t = Open \<and> t_tombstoned_at t = None
        \<and> (case reader of None \<Rightarrow> True | Some m \<Rightarrow> readable_by db m t)
        \<and> served_by db repo engine t) (threads db)"

definition count :: "('a \<Rightarrow> bool) \<Rightarrow> 'a list \<Rightarrow> nat" where
  "count P xs = length (filter P xs)"

record queue_depth_rec =
  qd_open :: nat
  qd_ready :: nat
  qd_assigned :: nat
  qd_blocked :: nat
  qd_unclaimable :: nat

definition queue_depth ::
  "(instant \<Rightarrow> int) \<Rightarrow> grace \<Rightarrow> instant \<Rightarrow> claim_scope \<Rightarrow> member_id option \<Rightarrow> string option \<Rightarrow> string option \<Rightarrow>
   ('z) queue_db_scheme \<Rightarrow> queue_depth_rec" where
  "queue_depth jd g clk sc reader repo engine db =
     (let now = lease_clock g clk;
          ts = open_threads sc reader repo engine db
      in \<lparr>qd_open = length ts,
          qd_ready = count (\<lambda>t. available now t \<and> \<not> withheld jd db t \<and> \<not> stalled db now t) ts,
          qd_assigned = count (held now) ts,
          qd_blocked = count (\<lambda>t. available now t \<and> \<not> withheld jd db t \<and> stalled db now t) ts,
          qd_unclaimable = count (\<lambda>t. available now t \<and> withheld jd db t) ts\<rparr>)"

record occupancy_rec =
  oc_open :: nat
  oc_queued :: nat
  oc_claimed :: nat
  oc_working :: nat
  oc_blocked :: nat

definition occupancy_columns ::
  "(instant \<Rightarrow> int) \<Rightarrow> instant \<Rightarrow> ('z) queue_db_scheme \<Rightarrow> thread_row list \<Rightarrow> occupancy_rec" where
  "occupancy_columns jd now db ts =
     (let queued = (\<lambda>t. available now t \<and> t_state t = Open \<and> \<not> withheld jd db t \<and> \<not> stalled db now t)
      in \<lparr>oc_open = length ts,
          oc_queued = count queued ts,
          oc_claimed = count (\<lambda>t. held now t \<and> t_work_started_at t = None) ts,
          oc_working = count (\<lambda>t. held now t \<and> t_work_started_at t \<noteq> None) ts,
          oc_blocked = count (\<lambda>t. available now t \<and> \<not> queued t) ts\<rparr>)"

definition occupancy ::
  "(instant \<Rightarrow> int) \<Rightarrow> grace \<Rightarrow> instant \<Rightarrow> claim_scope \<Rightarrow> member_id option \<Rightarrow> ('z) queue_db_scheme \<Rightarrow> occupancy_rec" where
  "occupancy jd g clk sc reader db = occupancy_columns jd (lease_clock g clk) db (open_threads sc reader None None db)"

subsection \<open>Counts partition the queue\<close>

lemma held_iff: "held now t \<longleftrightarrow> \<not> available now t"
  by (auto simp: held_def available_def split: option.splits)

lemma held_fun: "held now = (\<lambda>t. \<not> available now t)"
  by (simp add: fun_eq_iff held_iff)

lemma count_split: "count P xs = count (\<lambda>x. P x \<and> Q x) xs + count (\<lambda>x. P x \<and> \<not> Q x) xs"
  by (induction xs) (auto simp: count_def)

lemma count_True: "count (\<lambda>x. True) xs = length xs"
  by (simp add: count_def)

lemma count_cong: "(\<And>x. x \<in> set xs \<Longrightarrow> P x = Q x) \<Longrightarrow> count P xs = count Q xs"
  by (simp add: count_def cong: filter_cong)

lemma claimable_open:
  "t \<in> set (open_threads sc reader repo engine db) \<Longrightarrow>
   claimable jd db now t \<longleftrightarrow> available now t \<and> \<not> withheld jd db t \<and> \<not> stalled db now t"
  by (auto simp: open_threads_def claimable_def)

text \<open>
  C30: queue depth partitions the open threads into assigned, ready, blocked and unclaimable, where
  ready counts exactly the claimable ones; occupancy splits the same threads by the working clock, so
  its four counts add up to the same total, its queued is queue depth's ready, and claimed and
  working together are queue depth's assigned.
\<close>

theorem queue_counts_partition:
  "let q = queue_depth jd g clk sc reader repo engine db;
       oc = occupancy_columns jd (lease_clock g clk) db (open_threads sc reader repo engine db)
   in qd_open q = qd_assigned q + qd_ready q + qd_blocked q + qd_unclaimable q
    \<and> qd_ready q = count (claimable jd db (lease_clock g clk)) (open_threads sc reader repo engine db)
    \<and> oc_open oc = oc_queued oc + oc_claimed oc + oc_working oc + oc_blocked oc
    \<and> oc_queued oc = qd_ready q \<and> oc_claimed oc + oc_working oc = qd_assigned q"
proof -
  let ?ts = "open_threads sc reader repo engine db"
  let ?now = "lease_clock g clk"
  have op: "t \<in> set ?ts \<Longrightarrow> t_state t = Open" for t by (simp add: open_threads_def)
  have a: "length ?ts = count (held ?now) ?ts + count (available ?now) ?ts"
    using count_split [of "\<lambda>_. True" ?ts "held ?now"] by (simp add: count_True held_fun)
  have b: "count (available ?now) ?ts =
      count (\<lambda>t. available ?now t \<and> withheld jd db t) ?ts
    + (count (\<lambda>t. available ?now t \<and> \<not> withheld jd db t \<and> \<not> stalled db ?now t) ?ts
     + count (\<lambda>t. available ?now t \<and> \<not> withheld jd db t \<and> stalled db ?now t) ?ts)"
    using count_split [of "available ?now" ?ts "withheld jd db"]
      count_split [of "\<lambda>t. available ?now t \<and> \<not> withheld jd db t" ?ts "\<lambda>t. \<not> stalled db ?now t"]
    by (simp add: conj_ac)
  have c: "count (held ?now) ?ts = count (\<lambda>t. held ?now t \<and> t_work_started_at t = None) ?ts
      + count (\<lambda>t. held ?now t \<and> t_work_started_at t \<noteq> None) ?ts"
    by (rule count_split)
  have q: "count (\<lambda>t. available ?now t \<and> t_state t = Open \<and> \<not> withheld jd db t \<and> \<not> stalled db ?now t) ?ts =
      count (\<lambda>t. available ?now t \<and> \<not> withheld jd db t \<and> \<not> stalled db ?now t) ?ts"
    by (rule count_cong) (use op in auto)
  have d: "count (available ?now) ?ts =
      count (\<lambda>t. available ?now t \<and> t_state t = Open \<and> \<not> withheld jd db t \<and> \<not> stalled db ?now t) ?ts
    + count (\<lambda>t. available ?now t \<and> \<not> (available ?now t \<and> t_state t = Open \<and> \<not> withheld jd db t \<and> \<not> stalled db ?now t)) ?ts"
    using count_split [of "available ?now" ?ts
        "\<lambda>t. available ?now t \<and> t_state t = Open \<and> \<not> withheld jd db t \<and> \<not> stalled db ?now t"]
    by simp
  have r: "count (claimable jd db ?now) ?ts =
      count (\<lambda>t. available ?now t \<and> \<not> withheld jd db t \<and> \<not> stalled db ?now t) ?ts"
    by (rule count_cong) (rule claimable_open)
  show ?thesis
    unfolding Let_def queue_depth_def occupancy_columns_def
    using a b c d q r by simp
qed

subsection \<open>The candidate is the best eligible thread\<close>

lemma claim_next_candidate_Some:
  assumes "claim_next_candidate jd sc m clk now repo engine lane db = Some t"
  shows "t \<in> set (threads db)" "eligible jd sc m clk now repo engine db t"
    "\<And>u. u \<in> set (threads db) \<Longrightarrow> eligible jd sc m clk now repo engine db u \<Longrightarrow>
       candidate_key jd m clk lane db t \<le> candidate_key jd m clk lane db u"
proof -
  let ?k = "candidate_key jd m clk lane db"
  let ?xs = "filter (eligible jd sc m clk now repo engine db) (threads db)"
  obtain us where s: "sort_key ?k ?xs = t # us"
    using assms by (auto simp: claim_next_candidate_def split: list.splits)
  have m: "set ?xs = insert t (set us)" using arg_cong [OF s, of set] by simp
  then show "t \<in> set (threads db)" "eligible jd sc m clk now repo engine db t" by auto
  fix u assume "u \<in> set (threads db)" "eligible jd sc m clk now repo engine db u"
  with m have "u = t \<or> u \<in> set us" by auto
  moreover have "sorted (map ?k (t # us))" unfolding s [symmetric] by (rule sorted_sort_key)
  ultimately show "?k t \<le> ?k u" by auto
qed

lemma claim_next_candidate_None:
  "claim_next_candidate jd sc m clk now repo engine lane db = None \<longleftrightarrow>
   (\<forall>t \<in> set (threads db). \<not> eligible jd sc m clk now repo engine db t)"
proof -
  let ?k = "candidate_key jd m clk lane db"
  let ?xs = "filter (eligible jd sc m clk now repo engine db) (threads db)"
  have "claim_next_candidate jd sc m clk now repo engine lane db = None \<longleftrightarrow> set (sort_key ?k ?xs) = {}"
    by (simp add: claim_next_candidate_def del: set_sort split: list.splits)
  also have "\<dots> \<longleftrightarrow> set ?xs = {}" by simp
  also have "\<dots> \<longleftrightarrow> (\<forall>t \<in> set (threads db). \<not> eligible jd sc m clk now repo engine db t)" by auto
  finally show ?thesis .
qed

subsection \<open>Reads through a frame\<close>

lemma find_list_all2:
  "list_all2 R xs ys \<Longrightarrow> (\<And>x y. R x y \<Longrightarrow> P x = Q y) \<Longrightarrow>
   rel_option R (find P xs) (find Q ys)"
  by (induction rule: list_all2_induct) auto

lemma frame_thread_scope:
  assumes "frame L db db'"
  shows "thread_scope db' tid = thread_scope db tid"
proof -
  have "rel_option (evolves L) (find_thread db tid) (find_thread db' tid)"
    unfolding find_thread_def using assms
    by (intro find_list_all2) (auto simp: frame_def evolves_def)
  then show ?thesis
    using assms
    by (cases "find_thread db tid"; cases "find_thread db' tid")
      (auto simp: thread_scope_def frame_def evolves_def find_channel_def)
qed

lemma thread_scope_ok:
  assumes "t \<in> set (threads db)" "distinct (map t_id (threads db))"
    and "ch \<in> set (channels db)" "c_id ch = t_channel t"
  shows "\<exists>ws c. thread_scope db (t_id t) = Inr (ws, c)"
proof -
  have f: "find_thread db (t_id t) = Some t"
    unfolding find_thread_def using find_Some_iff_key assms(1,2) by metis
  have "find_channel db (t_channel t) \<noteq> None"
    using assms(3,4) by (auto simp: find_channel_def find_None_iff)
  with f show ?thesis by (auto simp: thread_scope_def)
qed

lemma end_lapsed_claim_total:
  assumes "thread_scope db (t_id t) = Inr p"
  shows "\<exists>db'. end_lapsed_claim clk t m d st db = Inr db'"
proof -
  have "thread_scope (charge_wall (t_id t) w db) (t_id t) = Inr p" for w
    using assms frame_thread_scope [OF frame_charge] by metis
  then show ?thesis
    by (cases p) (auto simp: end_lapsed_claim_def append_claim_expired_def Let_def split: option.splits)
qed

lemma end_lapsed_claim_threads:
  assumes "end_lapsed_claim clk t m d st db = Inr db'"
  shows "threads db' = threads db"
  using assms
proof (cases rule: end_lapsed_claim_cases)
  case (failed ws ch b reason)
  then show ?thesis by (simp add: fail_claim_def Let_def)
next
  case expired
  then show ?thesis by (auto simp: append_claim_expired_def and_then_Inr)
qed

lemma append_assignment_event_threads:
  "append_assignment_event scope clk t actor prev note db = Inr db' \<Longrightarrow> threads db' = threads db"
  by (auto simp: append_assignment_event_def and_then_Inr Let_def split: option.splits)

lemma append_assignment_event_total:
  assumes "thread_scope db (t_id t) = Inr p"
  shows "\<exists>db'. append_assignment_event scope clk t actor prev note db = Inr db'"
proof -
  have "thread_scope (record_worker scope (t_id t) a db) (t_id t) = Inr p" for a
    using assms frame_thread_scope [OF frame_record] by metis
  with assms show ?thesis
    by (cases p) (auto simp: append_assignment_event_def Let_def split: option.splits)
qed

lemma append_assignment_event_records:
  "append_assignment_event scope clk t actor prev note db = Inr db' \<Longrightarrow> t_assignee t = Some m \<Longrightarrow>
   has_worked db' (t_id t) m"
proof -
  assume "append_assignment_event scope clk t actor prev note db = Inr db'" "t_assignee t = Some m"
  then obtain e where "db' = append_event e (record_worker scope (t_id t) m db)"
    by (auto simp: append_assignment_event_def and_then_Inr Let_def)
  moreover have "has_worked (record_worker scope (t_id t) m db) (t_id t) m" by (simp add: has_worked_record)
  ultimately show ?thesis by (simp add: has_worked_def)
qed

lemma end_candidate_claim_total:
  "thread_scope db (t_id t) = Inr p \<Longrightarrow> \<exists>db'. end_candidate_claim clk c t db = Inr db'"
  using end_lapsed_claim_total [of db t p] by (cases "lapsed_claim c") (auto simp: end_candidate_claim_def)

lemma end_candidate_claim_frame: "end_candidate_claim clk c t db = Inr db' \<Longrightarrow> frame {} db db'"
  by (auto simp: end_candidate_claim_def split: option.splits intro: end_lapsed_claim_frame)

lemma end_candidate_claim_threads: "end_candidate_claim clk c t db = Inr db' \<Longrightarrow> threads db' = threads db"
  by (auto simp: end_candidate_claim_def split: option.splits dest: end_lapsed_claim_threads)

lemma take_candidate_ok:
  assumes "t \<in> set (threads db)" "distinct (map t_id (threads db))"
  shows "take_candidate clk l n (t_id t) m db =
    Inr (give_claim clk m (map_option (\<lambda>s. clk + secs s) n) l t,
         db\<lparr>threads := update_where (\<lambda>u. t_id u = t_id t)
              (give_claim clk m (map_option (\<lambda>s. clk + secs s) n) l) (threads db)\<rparr>)"
proof -
  have "find (\<lambda>u. t_id u = t_id t) (threads db) = Some t"
    using find_Some_iff_key assms by metis
  then show ?thesis by (simp add: take_candidate_def update_thread_def ok_or_def)
qed

text \<open>
  C7: \<open>claim_next\<close> never fails on a well-keyed store.  It hands out nothing, and changes nothing, only
  when no thread is eligible for the member; otherwise it hands out an eligible thread of the lowest
  key (highest priority aged by its wait, then warm, lane, age, id) under the new fencing token,
  changes no other thread, and the member is in the thread's worker ledger.
\<close>

theorem claim_next_hands_out_the_best:
  assumes "distinct (map t_id (threads db))"
  shows "\<exists>r db'. claim_next_with_event jd g scope clk lease sc m n repo engine lane db = Inr (r, db') \<and>
    (case r of
       None \<Rightarrow> db' = db \<and> (\<forall>t \<in> set (threads db). \<not> eligible jd sc m clk (lease_clock g clk) repo engine db t)
     | Some t' \<Rightarrow>
         (\<exists>t \<in> set (threads db). eligible jd sc m clk (lease_clock g clk) repo engine db t \<and>
            (\<forall>u \<in> set (threads db). eligible jd sc m clk (lease_clock g clk) repo engine db u \<longrightarrow>
               candidate_key jd m clk lane db t \<le> candidate_key jd m clk lane db u) \<and>
            t' = give_claim clk m (map_option (\<lambda>s. clk + secs s) n) lease t \<and>
            threads db' = update_where (\<lambda>u. t_id u = t_id t)
              (give_claim clk m (map_option (\<lambda>s. clk + secs s) n) lease) (threads db) \<and>
            has_worked db' (t_id t) m))"
proof (cases "claim_next_candidate jd sc m clk (lease_clock g clk) repo engine lane db")
  case None
  then have "claim_next_with_event jd g scope clk lease sc m n repo engine lane db = Inr (None, db)"
    by (simp add: claim_next_with_event_def)
  with None show ?thesis by (auto simp: claim_next_candidate_None)
next
  case (Some t)
  note c = claim_next_candidate_Some [OF Some]
  let ?give = "give_claim clk m (map_option (\<lambda>s. clk + secs s) n) lease"
  let ?db1 = "db\<lparr>threads := update_where (\<lambda>u. t_id u = t_id t) ?give (threads db)\<rparr>"
  have tk: "take_candidate clk lease n (t_id t) m db = Inr (?give t, ?db1)"
    by (rule take_candidate_ok [OF c(1) assms])
  have id: "t_id (?give t) = t_id t" and as: "t_assignee (?give t) = Some m" by (simp_all add: give_claim_def)
  obtain ch where "ch \<in> set (channels db)" "c_id ch = t_channel t"
    using c(2) by (auto simp: eligible_def)
  then obtain p where p: "thread_scope db (t_id t) = Inr p"
    using thread_scope_ok [OF c(1) assms] by blast
  then have p1: "thread_scope ?db1 (t_id (?give t)) = Inr p"
    using frame_thread_scope [OF take_candidate_frame [OF tk]] id by simp
  then obtain db2 where e: "end_candidate_claim clk t (?give t) ?db1 = Inr db2"
    using end_candidate_claim_total by blast
  then have "thread_scope db2 (t_id (?give t)) = Inr p"
    using frame_thread_scope [OF end_candidate_claim_frame] p1 by metis
  then obtain db3 where a: "append_assignment_event scope clk (?give t) m None None db2 = Inr db3"
    using append_assignment_event_total by blast
  have r: "claim_next_with_event jd g scope clk lease sc m n repo engine lane db = Inr (Some (?give t), db3)"
    using Some tk e a by (simp add: claim_next_with_event_def)
  have th: "threads db3 = update_where (\<lambda>u. t_id u = t_id t) ?give (threads db)"
    using append_assignment_event_threads [OF a] end_candidate_claim_threads [OF e] by simp
  have w: "has_worked db3 (t_id t) m"
    using append_assignment_event_records [OF a as] id by simp
  show ?thesis
    unfolding r using c th w by auto
qed

theorem claim_next_hands_out_the_best_witness:
  "claim_next_with_event (\<lambda>t. t div 1000) 0 None (secs 9) 31 (InWorkspace 1) 5 (Some 60) None None None
     (store_with [fresh_thread 7 2]) \<noteq> Inl NotFound \<and>
   map_option t_id (fst (projr (claim_next_with_event (\<lambda>t. t div 1000) 0 None (secs 9) 31 (InWorkspace 1) 5
     (Some 60) None None None (store_with [fresh_thread 7 2])))) = Some 7"
proof -
  let ?db = "store_with [fresh_thread 7 2]"
  have d: "distinct (map t_id (threads ?db))" by code_simp
  have "eligible (\<lambda>t. t div 1000) (InWorkspace 1) 5 (secs 9) (lease_clock 0 (secs 9)) None None ?db (fresh_thread 7 2)"
    by code_simp
  then have "\<not> (\<forall>t \<in> set (threads ?db). \<not> eligible (\<lambda>t. t div 1000) (InWorkspace 1) 5 (secs 9)
      (lease_clock 0 (secs 9)) None None ?db t)" by (simp add: store_with_def)
  with claim_next_hands_out_the_best [OF d, of "\<lambda>t. t div 1000" 0 None "secs 9" 31 "InWorkspace 1" 5 "Some 60" None None None]
  show ?thesis by (auto simp: store_with_def fresh_thread_def give_claim_def split: option.splits)
qed

text \<open>A thread queue depth counts as ready, which nobody is handed: its recipe sibling was claimed a
  moment ago and has reported no usage yet.\<close>

definition warming_store :: queue_db where
  "warming_store =
     (store_with [(fresh_thread 7 2)\<lparr>t_parent := Some 1\<rparr>,
                  give_claim (secs 9) 6 (Some (secs 69)) 30 ((fresh_thread 8 2)\<lparr>t_parent := Some 1\<rparr>)])
       \<lparr>recipe_children := [\<lparr>rc_run = 4, rc_thread = 7\<rparr>, \<lparr>rc_run = 4, rc_thread = 8\<rparr>]\<rparr>"

text \<open>
  Queue depth's \<open>ready\<close> bounds what \<open>claim_next\<close> hands out but is not equal to it: whenever a
  reader is handed a thread, that thread is claimable and counted ready for the same reader, scope and
  filters; yet there is a store where a thread is counted ready for an unrestricted reader (no required
  skill, no freeze, no repository or engine filter, no author family) and \<open>claim_next\<close> hands that
  reader nothing, because a sibling is warming their shared prefix.
\<close>

theorem ready_bounds_claim_next:
  "(eligible jd sc m clk (lease_clock g clk) repo engine db t \<and> t \<in> set (threads db) \<longrightarrow>
      t \<in> set (open_threads sc (Some m) repo engine db) \<and> claimable jd db (lease_clock g clk) t) \<and>
   (let jd = (\<lambda>t. t div 1000)
    in qd_ready (queue_depth jd 0 (secs 10) (InWorkspace 1) (Some 5) None None warming_store) = 1 \<and>
       required_skills warming_store = [] \<and> freezes warming_store = [] \<and> attributes warming_store = [] \<and>
       claim_next_candidate jd (InWorkspace 1) 5 (secs 10) (lease_clock 0 (secs 10)) None None None warming_store = None)"
proof (intro conjI impI)
  assume "eligible jd sc m clk (lease_clock g clk) repo engine db t \<and> t \<in> set (threads db)"
  then show "t \<in> set (open_threads sc (Some m) repo engine db)" "claimable jd db (lease_clock g clk) t"
    by (auto simp: eligible_def open_threads_def claimable_def)
qed code_simp

theorem ready_bounds_claim_next_witness:
  "fresh_thread 7 2 \<in> set (open_threads (InWorkspace 1) (Some 5) None None (store_with [fresh_thread 7 2]))"
proof -
  have "eligible (\<lambda>t. t div 1000) (InWorkspace 1) 5 (secs 9) (lease_clock 0 (secs 9)) None None
      (store_with [fresh_thread 7 2]) (fresh_thread 7 2)"
    by code_simp
  moreover have "fresh_thread 7 2 \<in> set (threads (store_with [fresh_thread 7 2]))" by (simp add: store_with_def)
  ultimately show ?thesis using ready_bounds_claim_next by blast
qed

end
