(* ===== verification/Queue_Discipline.thy ===== *)
theory Queue_Discipline
  imports Claim_Next
begin

text \<open>
  What the queue guarantees of the work that is out.  Threads handed out by \<open>claim_next\<close> never hold
  overlapping footprints, and no slot is held beyond its capacity.  The guarantee is an invariant of
  the step relation \<open>queue_step\<close>: every queue operation, run at the store's lease clock, as the clock
  only advances.
\<close>

definition live_ids :: "instant \<Rightarrow> ('z) queue_db_scheme \<Rightarrow> thread_id set" where
  "live_ids now db = t_id ` {t \<in> set (threads db). live_claim now t}"

definition no_overlap :: "instant \<Rightarrow> ('z) queue_db_scheme \<Rightarrow> bool" where
  "no_overlap now db \<longleftrightarrow> (\<forall>a \<in> live_ids now db. \<forall>b \<in> live_ids now db. \<not> threads_conflict db a b)"

definition slots_within :: "instant \<Rightarrow> ('z) queue_db_scheme \<Rightarrow> bool" where
  "slots_within now db \<longleftrightarrow>
     (\<forall>cap \<in> set (slot_capacities db).
        int (length (slot_holders db (sc_workspace cap) (sc_slot cap) now)) \<le> sc_capacity cap)"

definition disciplined :: "instant \<Rightarrow> ('z) queue_db_scheme \<Rightarrow> bool" where
  "disciplined now db \<longleftrightarrow>
     distinct (map t_id (threads db)) \<and> (\<forall>cap \<in> set (slot_capacities db). sc_capacity cap \<ge> 1)
   \<and> no_overlap now db \<and> slots_within now db"

subsection \<open>Slots as sets\<close>

definition slot_users :: "('z) queue_db_scheme \<Rightarrow> workspace_id \<Rightarrow> string \<Rightarrow> thread_id set" where
  "slot_users db ws key =
     fr_thread ` {sf \<in> set (footprints db). fr_workspace sf = ws \<and> fr_namespace sf = ''slot'' \<and> fr_key sf = key}"

lemma live_ids_iff: "x \<in> live_ids now db \<longleftrightarrow> (\<exists>t \<in> set (threads db). t_id t = x \<and> live_claim now t)"
  by (auto simp: live_ids_def)

lemma slot_users_iff:
  "x \<in> slot_users db ws key \<longleftrightarrow>
     (\<exists>sf \<in> set (footprints db). fr_thread sf = x \<and> fr_workspace sf = ws \<and> fr_namespace sf = ''slot'' \<and> fr_key sf = key)"
  by (auto simp: slot_users_def)

lemma finite_slot_users [simp]: "finite (slot_users db ws key)"
  by (simp add: slot_users_def)

lemma slot_holders_set: "set (slot_holders db ws key now) = slot_users db ws key \<inter> live_ids now db"
proof (rule set_eqI)
  fix x
  have "x \<in> set (slot_holders db ws key now) \<longleftrightarrow>
      (\<exists>sf \<in> set (footprints db). fr_thread sf = x \<and> fr_workspace sf = ws \<and> fr_namespace sf = ''slot'' \<and> fr_key sf = key
        \<and> (\<exists>held \<in> set (threads db). t_id held = fr_thread sf \<and> live_claim now held))"
    by (auto simp: slot_holders_def)
  then show "x \<in> set (slot_holders db ws key now) \<longleftrightarrow> x \<in> slot_users db ws key \<inter> live_ids now db"
    by (simp add: slot_users_iff live_ids_iff) blast
qed

lemma slot_holders_card: "length (slot_holders db ws key now) = card (slot_users db ws key \<inter> live_ids now db)"
proof -
  have "distinct (slot_holders db ws key now)" by (simp add: slot_holders_def)
  then show ?thesis by (metis slot_holders_set distinct_card)
qed

lemma slot_in_use_card:
  "slot_in_use db ws key tid now = int (card (slot_users db ws key \<inter> live_ids now db - {tid}))"
proof -
  have "distinct (filter (\<lambda>t. t \<noteq> tid) (slot_holders db ws key now))" by (simp add: slot_holders_def)
  moreover have "set (filter (\<lambda>t. t \<noteq> tid) (slot_holders db ws key now)) = slot_users db ws key \<inter> live_ids now db - {tid}"
    by (auto simp: slot_holders_set)
  ultimately show ?thesis unfolding slot_in_use_def by (metis distinct_card)
qed

lemma slot_full_iff:
  "slot_full db tid now \<longleftrightarrow>
     (\<exists>cap \<in> set (slot_capacities db). tid \<in> slot_users db (sc_workspace cap) (sc_slot cap)
        \<and> sc_capacity cap \<le> int (card (slot_users db (sc_workspace cap) (sc_slot cap) \<inter> live_ids now db - {tid})))"
proof -
  have "(\<exists>sl \<in> set (footprints db). \<exists>cap \<in> set (slot_capacities db).
      sc_workspace cap = fr_workspace sl \<and> sc_slot cap = fr_key sl \<and> fr_thread sl = tid \<and> fr_namespace sl = ''slot''
    \<and> sc_capacity cap \<le> f (fr_workspace sl) (fr_key sl)) \<longleftrightarrow>
     (\<exists>cap \<in> set (slot_capacities db). tid \<in> slot_users db (sc_workspace cap) (sc_slot cap)
        \<and> sc_capacity cap \<le> f (sc_workspace cap) (sc_slot cap))" for f
    unfolding slot_users_iff by metis
  then show ?thesis unfolding slot_full_def slot_in_use_card .
qed

lemma conflicts_iff:
  "conflicts_with_live_claims db tid now \<longleftrightarrow> (\<exists>b \<in> live_ids now db. threads_conflict db tid b)"
  unfolding conflicts_with_live_claims_iff live_ids_def by blast

subsection \<open>Fewer claims, or one more that was not deferred\<close>

lemma same_footprints:
  "footprints db' = footprints db \<Longrightarrow> threads_conflict db' = threads_conflict db \<and> slot_users db' = slot_users db"
  by (simp add: threads_conflict_def slot_users_def fun_eq_iff)

lemma discipline_shrink:
  assumes "disciplined now db" "map t_id (threads db') = map t_id (threads db)"
    and "footprints db' = footprints db" "slot_capacities db' = slot_capacities db"
    and "live_ids now' db' \<subseteq> live_ids now db"
  shows "disciplined now' db'"
proof -
  have "card (slot_users db ws key \<inter> live_ids now' db') \<le> card (slot_users db ws key \<inter> live_ids now db)" for ws key
    using assms(5) by (intro card_mono) auto
  note less = this
  have "slots_within now' db'"
    unfolding slots_within_def slot_holders_card assms(4) same_footprints [OF assms(3), THEN conjunct2]
  proof
    fix cap assume "cap \<in> set (slot_capacities db)"
    then have "int (card (slot_users db (sc_workspace cap) (sc_slot cap) \<inter> live_ids now db)) \<le> sc_capacity cap"
      using assms(1) by (simp add: disciplined_def slots_within_def slot_holders_card)
    with less [of "sc_workspace cap" "sc_slot cap"]
    show "int (card (slot_users db (sc_workspace cap) (sc_slot cap) \<inter> live_ids now' db')) \<le> sc_capacity cap"
      by linarith
  qed
  moreover have "no_overlap now' db'"
    using assms same_footprints [OF assms(3)] unfolding disciplined_def no_overlap_def by auto
  ultimately show ?thesis using assms unfolding disciplined_def by simp
qed

lemma discipline_grow:
  assumes "disciplined now db" "map t_id (threads db') = map t_id (threads db)"
    and "footprints db' = footprints db" "slot_capacities db' = slot_capacities db"
    and "live_ids now db' \<subseteq> insert tid (live_ids now db)"
    and "\<not> deferred db tid now"
  shows "disciplined now db'"
proof -
  have f: "threads_conflict db' = threads_conflict db" "slot_users db' = slot_users db"
    using same_footprints [OF assms(3)] by auto
  have nc: "\<not> threads_conflict db tid b" "\<not> threads_conflict db b tid" if "b \<in> live_ids now db" for b
    using assms(6) that threads_conflict_sym [of db b tid] by (auto simp: deferred_def conflicts_iff)
  have "no_overlap now db'"
    unfolding no_overlap_def f
  proof (intro ballI)
    fix a b assume "a \<in> live_ids now db'" "b \<in> live_ids now db'"
    then have "a = tid \<or> a \<in> live_ids now db" "b = tid \<or> b \<in> live_ids now db" using assms(5) by auto
    then show "\<not> threads_conflict db a b"
      using nc assms(1) threads_conflict_irrefl by (auto simp: disciplined_def no_overlap_def)
  qed
  moreover have "slots_within now db'"
    unfolding slots_within_def slot_holders_card f assms(4)
  proof
    fix cap assume cap: "cap \<in> set (slot_capacities db)"
    let ?U = "slot_users db (sc_workspace cap) (sc_slot cap)"
    let ?L = "live_ids now db" and ?L' = "live_ids now db'"
    show "int (card (?U \<inter> ?L')) \<le> sc_capacity cap"
    proof (cases "tid \<in> ?U")
      case True
      then have "int (card (?U \<inter> ?L - {tid})) < sc_capacity cap"
        using assms(6) cap by (force simp: deferred_def slot_full_iff)
      moreover have "card (?U \<inter> ?L') \<le> Suc (card (?U \<inter> ?L - {tid}))"
      proof -
        have "?U \<inter> ?L' \<subseteq> insert tid (?U \<inter> ?L - {tid})" using assms(5) by auto
        then have "card (?U \<inter> ?L') \<le> card (insert tid (?U \<inter> ?L - {tid}))" by (intro card_mono) auto
        also have "\<dots> = Suc (card (?U \<inter> ?L - {tid}))" by (subst card_insert_disjoint) auto
        finally show ?thesis .
      qed
      ultimately show ?thesis by linarith
    next
      case False
      then have "card (?U \<inter> ?L') \<le> card (?U \<inter> ?L)" using assms(5) by (intro card_mono) auto
      moreover have "int (card (?U \<inter> ?L)) \<le> sc_capacity cap"
        using assms(1) cap by (simp add: disciplined_def slots_within_def slot_holders_card)
      ultimately show ?thesis by linarith
    qed
  qed
  ultimately show ?thesis using assms unfolding disciplined_def by simp
qed

lemma live_claim_mono: "now \<le> now' \<Longrightarrow> live_claim now' t \<Longrightarrow> live_claim now t"
  by (auto simp: live_claim_def split: option.splits)

lemma live_ids_mono: "now \<le> now' \<Longrightarrow> live_ids now' db \<subseteq> live_ids now db"
  using live_claim_mono by (auto simp: live_ids_def)

subsection \<open>Quiet writes\<close>

text \<open>A write that gives nobody a live claim: rows keep their ids and only lose liveness.\<close>

definition quiet :: "instant \<Rightarrow> ('z) queue_db_scheme \<Rightarrow> ('z) queue_db_scheme \<Rightarrow> bool" where
  "quiet now db db' \<longleftrightarrow>
     list_all2 (\<lambda>t t'. t_id t' = t_id t \<and> (live_claim now t' \<longrightarrow> live_claim now t)) (threads db) (threads db')
   \<and> footprints db' = footprints db \<and> slot_capacities db' = slot_capacities db"

lemma quiet_refl [simp]: "quiet now db db"
  by (simp add: quiet_def list_all2_same)

lemma quiet_trans: "quiet now db db1 \<Longrightarrow> quiet now db1 db2 \<Longrightarrow> quiet now db db2"
proof -
  let ?R = "\<lambda>t t'. t_id t' = t_id t \<and> (live_claim now t' \<longrightarrow> live_claim now t)"
  assume q: "quiet now db db1" "quiet now db1 db2"
  have "list_all2 ?R (threads db) (threads db2)"
    by (rule list_all2_trans [of ?R ?R ?R]) (use q in \<open>auto simp: quiet_def\<close>)
  with q show ?thesis by (simp add: quiet_def)
qed

lemma quiet_ids: "quiet now db db' \<Longrightarrow> map t_id (threads db') = map t_id (threads db)"
  by (auto simp: quiet_def list_all2_conv_all_nth intro!: nth_equalityI)

lemma quiet_live: "quiet now db db' \<Longrightarrow> live_ids now db' \<subseteq> live_ids now db"
  unfolding quiet_def live_ids_def list_all2_conv_all_nth by (auto simp: in_set_conv_nth)

lemma quiet_disciplined: "quiet now db db' \<Longrightarrow> disciplined now db \<Longrightarrow> disciplined now db'"
  by (rule discipline_shrink [OF _ quiet_ids _ _ quiet_live]) (auto simp: quiet_def)

lemma quiet_same:
  "threads db' = threads db \<Longrightarrow> footprints db' = footprints db \<Longrightarrow> slot_capacities db' = slot_capacities db
    \<Longrightarrow> quiet now db db'"
  by (simp add: quiet_def list_all2_same)

lemma queue_part [simp]:
  "footprints (charge_wall tid w db) = footprints db" "slot_capacities (charge_wall tid w db) = slot_capacities db"
  "footprints (record_worker sc tid m db) = footprints db"
  "slot_capacities (record_worker sc tid m db) = slot_capacities db"
  "footprints (append_event e db) = footprints db" "slot_capacities (append_event e db) = slot_capacities db"
  "footprints (fail_claim clk ws ch t h r b db) = footprints db"
  "slot_capacities (fail_claim clk ws ch t h r b db) = slot_capacities db"
  "threads (fail_claim clk ws ch t h r b db) = threads db"
  by (simp_all add: charge_wall_def upsert_budget_def record_worker_def append_event_def fail_claim_def Let_def
      split: option.splits)

lemma quiet_charge [simp]: "quiet now db (charge_wall tid w db)"
  by (rule quiet_same) simp_all

lemma quiet_update_thread:
  assumes "update_thread tid P f db = Some (t', db')"
    and "\<And>t. P t \<Longrightarrow> t_id (f t) = t_id t \<and> (live_claim now (f t) \<longrightarrow> live_claim now t)"
  shows "quiet now db db'"
  using assms(1)
proof (rule update_thread_SomeD)
  assume "db' = db\<lparr>threads := update_where (\<lambda>t. t_id t = tid \<and> P t) f (threads db)\<rparr>"
  moreover have "list_all2 (\<lambda>t t'. t_id t' = t_id t \<and> (live_claim now t' \<longrightarrow> live_claim now t)) (threads db)
      (update_where (\<lambda>t. t_id t = tid \<and> P t) f (threads db))"
    by (rule list_all2_update_where) (use assms(2) in blast)+
  ultimately show ?thesis by (simp add: quiet_def)
qed

lemma clear_claim_quiet: "t_id (clear_claim clk t) = t_id t \<and> (live_claim now (clear_claim clk t) \<longrightarrow> live_claim now t)"
  by (simp add: clear_claim_def live_claim_def)

lemma append_assignment_event_quiet:
  "append_assignment_event scope clk t actor prev note db = Inr db' \<Longrightarrow> quiet now db db'"
  by (rule quiet_same) (auto simp: append_assignment_event_def Let_def and_then_Inr split: option.splits)

lemma end_lapsed_claim_quiet:
  assumes "end_lapsed_claim clk t m d st db = Inr db'"
  shows "quiet now db db'"
  using assms
proof (cases rule: end_lapsed_claim_cases)
  case (failed ws ch b reason)
  then show ?thesis by (intro quiet_same) simp_all
next
  case expired
  then show ?thesis by (intro quiet_same) (auto simp: append_claim_expired_def and_then_Inr)
qed

lemma end_candidate_claim_quiet: "end_candidate_claim clk c t db = Inr db' \<Longrightarrow> quiet now db db'"
  by (auto simp: end_candidate_claim_def split: option.splits intro: end_lapsed_claim_quiet)

lemma clear_assignee_quiet:
  assumes "clear_assignee clk tid db = Inr (t, db')"
  shows "quiet now db db'"
proof -
  obtain db1 where c: "charge_open_claim clk tid db = Inr db1"
    and u: "update_thread tid (\<lambda>t. True) (clear_claim clk) db1 = Some (t, db')"
    using assms by (auto simp: clear_assignee_def and_then_Inr)
  have "quiet now db1 db'" using u by (rule quiet_update_thread) (rule clear_claim_quiet)
  moreover have "quiet now db db1" using c by (auto simp: charge_open_claim_def split: option.splits)
  ultimately show ?thesis using quiet_trans by blast
qed

lemma release_fenced_quiet:
  assumes "release_fenced clk tid m l db = Inr (t, db')"
  shows "quiet now db db'"
proof -
  obtain w where u: "update_thread tid (fence m l) (clear_claim clk) (charge_wall tid w db) = Some (t, db')"
    using assms by (auto simp: release_fenced_def and_then_Inr Let_def)
  have "quiet now (charge_wall tid w db) db'" using u by (rule quiet_update_thread) (rule clear_claim_quiet)
  with quiet_trans [OF quiet_charge] show ?thesis by blast
qed

lemma acknowledge_claim_quiet: "acknowledge_claim clk tid m l db = Inr (t, db') \<Longrightarrow> quiet now db db'"
  unfolding acknowledge_claim_def by (auto elim!: quiet_update_thread simp: live_claim_def)

lemma reap_one_quiet:
  assumes "reap_one clk at c db = Inr db'"
  shows "quiet now db db'"
proof -
  obtain h d st where lc: "lapsed_claim c = Some (h, d, st)"
    using assms by (cases "lapsed_claim c") (auto simp: reap_one_def)
  let ?u = "update_thread (t_id c) (\<lambda>t. t_assignee t = Some h \<and> lapsed_before at t) (clear_claim clk) db"
  show ?thesis
  proof (cases ?u)
    case None
    with assms lc show ?thesis by (simp add: reap_one_def)
  next
    case (Some r)
    then obtain t db1 where u: "?u = Some (t, db1)" by (cases r) auto
    then have "quiet now db db1" by (rule quiet_update_thread) (rule clear_claim_quiet)
    moreover have "end_lapsed_claim clk t h d st db1 = Inr db'"
      using assms lc u by (simp add: reap_one_def)
    ultimately show ?thesis using quiet_trans end_lapsed_claim_quiet by blast
  qed
qed

lemma reap_all_quiet: "reap_all clk at cs db = Inr db' \<Longrightarrow> quiet now db db'"
proof (induction cs arbitrary: db)
  case (Cons c cs)
  then obtain db1 where "reap_one clk at c db = Inr db1" "reap_all clk at cs db1 = Inr db'"
    by (auto simp: and_then_Inr)
  with Cons.IH show ?case by (blast intro: quiet_trans [OF reap_one_quiet])
qed simp

lemma reap_expired_claims_quiet: "reap_expired_claims g clk at n db = Inr db' \<Longrightarrow> quiet now db db'"
  by (auto simp: reap_expired_claims_def split: if_splits intro: reap_all_quiet)

subsection \<open>Handing out keeps the discipline\<close>

lemma eligible_not_deferred: "eligible jd sc m clk now repo engine db t \<Longrightarrow> \<not> deferred db (t_id t) now"
  by (simp add: eligible_def claimable_def stalled_def)

lemma give_live_ids:
  "live_ids now (db\<lparr>threads := update_where (\<lambda>u. t_id u = tid) (give_claim clk m e l) (threads db)\<rparr>)
     \<subseteq> insert tid (live_ids now db)"
  by (auto simp: live_ids_def set_update_where give_claim_def)

lemma take_candidate_disciplined:
  assumes "disciplined now db" "claim_next_candidate jd sc m clk now repo engine lane db = Some c"
    and "take_candidate clk l n (t_id c) m db = Inr (t, db1)"
  shows "disciplined now db1"
proof -
  note c = claim_next_candidate_Some [OF assms(2)]
  have d: "distinct (map t_id (threads db))" using assms(1) by (simp add: disciplined_def)
  have db1: "db1 = db\<lparr>threads := update_where (\<lambda>u. t_id u = t_id c)
      (give_claim clk m (map_option (\<lambda>s. clk + secs s) n) l) (threads db)\<rparr>"
    using take_candidate_ok [OF c(1) d] assms(3) by simp
  show ?thesis
  proof (rule discipline_grow [OF assms(1)])
    show "map t_id (threads db1) = map t_id (threads db)"
      by (simp add: db1 update_where_def give_claim_def o_def if_distrib cong: if_cong)
    show "live_ids now db1 \<subseteq> insert (t_id c) (live_ids now db)" unfolding db1 by (rule give_live_ids)
    show "\<not> deferred db (t_id c) now" using c(2) by (rule eligible_not_deferred)
  qed (simp_all add: db1)
qed

lemma claim_next_with_event_disciplined:
  assumes "disciplined (lease_clock g clk) db"
    and "claim_next_with_event jd g scope clk l sc m n repo engine lane db = Inr (r, db')"
  shows "disciplined (lease_clock g clk) db'"
proof (cases "claim_next_candidate jd sc m clk (lease_clock g clk) repo engine lane db")
  case None
  with assms show ?thesis by (simp add: claim_next_with_event_def)
next
  case (Some c)
  then obtain t db1 db2 where
    "take_candidate clk l n (t_id c) m db = Inr (t, db1)"
    "end_candidate_claim clk c t db1 = Inr db2"
    "append_assignment_event scope clk t m None None db2 = Inr db'"
    using assms(2) by (auto simp: claim_next_with_event_def and_then_Inr)
  with Some assms(1) show ?thesis
    by (blast intro: take_candidate_disciplined quiet_disciplined end_candidate_claim_quiet append_assignment_event_quiet)
qed

lemma claim_next_disciplined:
  assumes "disciplined (lease_clock g clk) db"
    and "claim_next jd g scope clk l ch m n engine db = Inr (r, db')"
  shows "disciplined (lease_clock g clk) db'"
proof (cases "claim_next_candidate jd (InChannel ch) m clk (lease_clock g clk) None engine None db")
  case None
  with assms show ?thesis by (simp add: claim_next_def)
next
  case (Some c)
  then obtain t db1 where
    t: "take_candidate clk l n (t_id c) m db = Inr (t, db1)"
    and e: "end_candidate_claim clk c t (record_worker scope (t_id t) m db1) = Inr db'"
    using assms(2) by (auto simp: claim_next_def and_then_Inr)
  have "quiet (lease_clock g clk) db1 (record_worker scope (t_id t) m db1)"
    by (rule quiet_same) simp_all
  with take_candidate_disciplined [OF assms(1) Some t] end_candidate_claim_quiet [OF e] show ?thesis
    by (blast intro: quiet_disciplined)
qed

subsection \<open>Rewriting a footprint keeps the discipline\<close>

lemma threads_conflict_other:
  assumes "\<forall>f \<in> set (footprints db'). fr_thread f \<noteq> tid \<longrightarrow> f \<in> set (footprints db)" "a \<noteq> tid" "b \<noteq> tid"
  shows "threads_conflict db' a b \<Longrightarrow> threads_conflict db a b"
  using assms unfolding threads_conflict_def by blast

lemma discipline_rewrite:
  assumes "disciplined now db" "threads db' = threads db" "slot_capacities db' = slot_capacities db"
    and others: "\<forall>f \<in> set (footprints db'). fr_thread f \<noteq> tid \<longrightarrow> f \<in> set (footprints db)"
    and mine: "tid \<in> live_ids now db \<Longrightarrow> \<not> conflicts_with_live_claims db' tid now \<and> \<not> slot_full db' tid now"
  shows "disciplined now db'"
proof -
  have L: "live_ids now db' = live_ids now db" using assms(2) by (simp add: live_ids_def)
  have "no_overlap now db'"
    unfolding no_overlap_def L
  proof (intro ballI)
    fix a b assume ab: "a \<in> live_ids now db" "b \<in> live_ids now db"
    show "\<not> threads_conflict db' a b"
    proof (cases "a = tid \<or> b = tid")
      case True
      with ab mine have "\<forall>c \<in> live_ids now db. \<not> threads_conflict db' tid c"
        by (auto simp: conflicts_iff L)
      with True ab threads_conflict_sym [of db' a b] show ?thesis by auto
    next
      case False
      moreover have "\<not> threads_conflict db a b" using ab assms(1) by (simp add: disciplined_def no_overlap_def)
      ultimately show ?thesis using threads_conflict_other [OF others, of a b] by blast
    qed
  qed
  moreover have "slots_within now db'"
    unfolding slots_within_def slot_holders_card L assms(3)
  proof
    fix cap assume cap: "cap \<in> set (slot_capacities db)"
    let ?U = "slot_users db (sc_workspace cap) (sc_slot cap)"
    let ?U' = "slot_users db' (sc_workspace cap) (sc_slot cap)"
    let ?L = "live_ids now db"
    have sub: "?U' - {tid} \<subseteq> ?U" using others by (auto simp: slot_users_def)
    have old: "int (card (?U \<inter> ?L)) \<le> sc_capacity cap"
      using assms(1) cap by (simp add: disciplined_def slots_within_def slot_holders_card)
    show "int (card (?U' \<inter> ?L)) \<le> sc_capacity cap"
    proof (cases "tid \<in> ?U' \<and> tid \<in> ?L")
      case True
      with mine cap assms(3) have "int (card (?U' \<inter> ?L - {tid})) < sc_capacity cap"
        by (force simp: slot_full_iff L)
      moreover have "card (?U' \<inter> ?L) = Suc (card (?U' \<inter> ?L - {tid}))"
        using True by (intro card.remove) auto
      ultimately show ?thesis by linarith
    next
      case False
      with sub have "card (?U' \<inter> ?L) \<le> card (?U \<inter> ?L)" by (intro card_mono) auto
      with old show ?thesis by linarith
    qed
  qed
  ultimately show ?thesis using assms(1-3) by (simp add: disciplined_def)
qed

lemma set_footprint_disciplined:
  assumes "disciplined (lease_clock g clk) db" and "set_footprint g clk tid fp db = Inr (cs, db')"
  shows "disciplined (lease_clock g clk) db'"
proof -
  let ?now = "lease_clock g clk"
  let ?db1 = "db\<lparr>footprints := filter (\<lambda>f. fr_thread f \<noteq> tid) (footprints db)\<rparr>"
  obtain t ws ch fp' where t: "find_thread db tid = Some t" and sc: "thread_scope db tid = Inr (ws, ch)"
    and step: "(case fp' of None \<Rightarrow> (Inr ([], ?db1) :: store_error + _)
           | Some f \<Rightarrow>
               (let db2 = insert_items tid ws f ?db1
                in if live_claim ?now t \<and> conflicts_select db2 tid ?now \<noteq> []
                   then Inr (conflicts_select db2 tid ?now, db)
                   else Inr ([], db2))) = Inr (cs, db')"
    using assms(2) unfolding set_footprint_def Let_def and_then_Inr ok_or_ok by (auto simp: and_then_Inr)
  have row: "\<And>u. u \<in> set (threads db) \<Longrightarrow> t_id u = tid \<Longrightarrow> u = t"
    using find_thread_Some [OF t] assms(1) by (auto simp: disciplined_def distinct_map dest: inj_onD)
  have lv: "tid \<in> live_ids ?now db \<Longrightarrow> live_claim ?now t"
    using row by (auto simp: live_ids_def)
  show ?thesis
  proof (cases fp')
    case None
    with step have db': "db' = ?db1" by simp
    have "\<not> conflicts_with_live_claims db' tid ?now" "\<not> slot_full db' tid ?now"
      by (auto simp: db' conflicts_with_live_claims_def slot_full_def)
    then show ?thesis
      by (intro discipline_rewrite [OF assms(1), of _ tid]) (auto simp: db')
  next
    case (Some f)
    let ?db2 = "insert_items tid ws f ?db1"
    have fr: "\<forall>x \<in> set (footprints ?db2). fr_thread x \<noteq> tid \<longrightarrow> x \<in> set (footprints db)"
      by (auto simp: insert_items_def item_row_def)
    show ?thesis
    proof (cases "live_claim ?now t \<and> conflicts_select ?db2 tid ?now \<noteq> []")
      case True
      with step Some assms(1) show ?thesis by (simp add: Let_def)
    next
      case False
      then have db': "db' = ?db2" using step Some by (simp add: Let_def split: if_splits)
      have caps: "\<forall>cap \<in> set (slot_capacities ?db2). sc_capacity cap \<ge> 1"
        using assms(1) by (simp add: disciplined_def insert_items_def)
      show ?thesis
      proof (rule discipline_rewrite [OF assms(1), of _ tid])
        show "threads db' = threads db" "slot_capacities db' = slot_capacities db"
          by (simp_all add: db' insert_items_def)
        show "\<forall>x \<in> set (footprints db'). fr_thread x \<noteq> tid \<longrightarrow> x \<in> set (footprints db)"
          using fr by (simp add: db')
        assume "tid \<in> live_ids ?now db"
        with lv False have "conflicts_select ?db2 tid ?now = []" by blast
        with conflicts_select_iff [OF caps, of tid ?now]
        show "\<not> conflicts_with_live_claims db' tid ?now \<and> \<not> slot_full db' tid ?now" by (simp add: db')
      qed
    qed
  qed
qed

subsection \<open>The steps\<close>

text \<open>
  \<open>queue_step (now, db) (now', db')\<close>: a queue operation at the lease clock \<open>now\<close>, or the clock moving
  on.  A renewal is of a lease that has not lapsed, and a slot's capacity is never set below what is
  out; \<open>claim\<close> and \<open>assign\<close>, which do not look at footprints, are not queue operations.
\<close>

inductive queue_step :: "(instant \<Rightarrow> int) \<Rightarrow> (instant \<times> queue_db) \<Rightarrow> (instant \<times> queue_db) \<Rightarrow> bool" for jd :: "instant \<Rightarrow> int" where
  next_event: "lease_clock g clk = now \<Longrightarrow>
     claim_next_with_event jd g scope clk l sc m n repo engine lane db = Inr (r, db') \<Longrightarrow>
     queue_step jd (now, db) (now, db')"
| next_plain: "lease_clock g clk = now \<Longrightarrow>
     claim_next jd g scope clk l ch m n engine db = Inr (r, db') \<Longrightarrow> queue_step jd (now, db) (now, db')"
| acknowledge: "acknowledge_claim clk tid m l db = Inr (t, db') \<Longrightarrow> queue_step jd (now, db) (now, db')"
| renew: "renew_claim clk tid m l n db = Inr (t, db') \<Longrightarrow>
     \<forall>t \<in> set (threads db). fence m l t \<longrightarrow> held now t \<Longrightarrow> queue_step jd (now, db) (now, db')"
| release: "release_claim_with_event scope clk tid m l db = Inr (t, db') \<Longrightarrow> queue_step jd (now, db) (now, db')"
| unassigned: "unassign_with_event scope clk tid actor db = Inr (t, db') \<Longrightarrow> queue_step jd (now, db) (now, db')"
| reap: "reap_expired_claims g clk at n db = Inr db' \<Longrightarrow> queue_step jd (now, db) (now, db')"
| footprint: "lease_clock g clk = now \<Longrightarrow> set_footprint g clk tid fp db = Inr (cs, db') \<Longrightarrow>
     queue_step jd (now, db) (now, db')"
| pause: "queue_step jd (now, db) (now, pause_repo ws repo db)"
| resume: "queue_step jd (now, db) (now, snd (resume_repo ws repo db))"
| capacity: "set_slot_capacity ws slot k db = Inr db' \<Longrightarrow> int (length (slot_holders db ws slot now)) \<le> k \<Longrightarrow>
     queue_step jd (now, db) (now, db')"
| uncapped: "queue_step jd (now, db) (now, snd (clear_slot_capacity ws slot db))"
| tick: "now \<le> now' \<Longrightarrow> queue_step jd (now, db) (now', db)"

lemma renew_claim_quiet:
  assumes "renew_claim clk tid m l n db = Inr (t, db')"
    and "\<forall>t \<in> set (threads db). fence m l t \<longrightarrow> held now t"
  shows "quiet now db db'"
proof -
  let ?f = "\<lambda>t. t\<lparr>t_expires_at := Some (clk + secs n), t_updated_at := clk\<rparr>"
  obtain u where "db' = db\<lparr>threads := update_where (\<lambda>t. t_id t = tid \<and> fence m l t) ?f (threads db)\<rparr>"
    using assms(1) unfolding renew_claim_def ok_or_ok by (rule update_thread_SomeD)
  moreover have "list_all2 (\<lambda>t t'. t_id t' = t_id t \<and> (live_claim now t' \<longrightarrow> live_claim now t)) (threads db)
      (update_where (\<lambda>t. t_id t = tid \<and> fence m l t) ?f (threads db))"
  proof (rule list_all2_update_where)
    fix r assume "r \<in> set (threads db)" "t_id r = tid \<and> fence m l r"
    with assms(2) have "held now r" by blast
    then show "t_id (?f r) = t_id r \<and> (live_claim now (?f r) \<longrightarrow> live_claim now r)"
      by (auto simp: live_claim_def held_def)
  qed simp
  ultimately show ?thesis by (simp add: quiet_def)
qed

lemma capacity_disciplined:
  assumes "disciplined now db" "set_slot_capacity ws slot k db = Inr db'"
    and "int (length (slot_holders db ws slot now)) \<le> k"
  shows "disciplined now db'"
proof -
  have k: "1 \<le> k" using assms(2) by (simp add: set_slot_capacity_def Let_def split: if_splits)
  have cap: "(cap \<in> set (slot_capacities db)) \<or> (sc_workspace cap = ws \<and> sc_slot cap = slot \<and> sc_capacity cap = k)"
    if "cap \<in> set (slot_capacities db')" for cap
    using that assms(2) by (auto simp: set_slot_capacity_def Let_def set_update_where split: if_splits)
  have [simp]: "threads db' = threads db" "footprints db' = footprints db"
    using assms(2) by (auto simp: set_slot_capacity_def Let_def split: if_splits)
  have [simp]: "live_ids now db' = live_ids now db" "threads_conflict db' = threads_conflict db"
      "slot_holders db' w s now = slot_holders db w s now" for w s
    by (simp_all add: live_ids_def threads_conflict_def fun_eq_iff slot_holders_def)
  have "int (length (slot_holders db (sc_workspace cap) (sc_slot cap) now)) \<le> sc_capacity cap \<and> 1 \<le> sc_capacity cap"
    if "cap \<in> set (slot_capacities db')" for cap
    using cap [OF that] assms k by (elim disjE) (auto simp: disciplined_def slots_within_def)
  with assms(1) show ?thesis by (simp add: disciplined_def no_overlap_def slots_within_def)
qed

lemma uncapped_disciplined:
  "disciplined now db \<Longrightarrow> disciplined now (snd (clear_slot_capacity ws slot db))"
  by (auto simp: disciplined_def no_overlap_def slots_within_def clear_slot_capacity_def live_ids_def
      threads_conflict_def slot_holders_def)

lemma pause_resume_quiet: "quiet now db (pause_repo ws repo db)" "quiet now db (snd (resume_repo ws repo db))"
  by (rule quiet_same; simp add: pause_repo_def resume_repo_def)+

lemma release_claim_with_event_quiet:
  "release_claim_with_event scope clk tid m l db = Inr (t, db') \<Longrightarrow> quiet now db db'"
  unfolding release_claim_with_event_def
  by (auto simp: and_then_Inr intro: quiet_trans [OF release_fenced_quiet append_assignment_event_quiet])

lemma unassign_with_event_quiet:
  "unassign_with_event scope clk tid actor db = Inr (t, db') \<Longrightarrow> quiet now db db'"
  unfolding unassign_with_event_def
  by (auto simp: and_then_Inr intro: quiet_trans [OF clear_assignee_quiet append_assignment_event_quiet])

lemma queue_step_disciplined:
  "queue_step jd s s' \<Longrightarrow> disciplined (fst s) (snd s) \<Longrightarrow> disciplined (fst s') (snd s')"
proof (induction rule: queue_step.induct)
  case next_event
  then show ?case unfolding fst_conv snd_conv using claim_next_with_event_disciplined by blast
next
  case next_plain
  then show ?case unfolding fst_conv snd_conv using claim_next_disciplined by blast
next
  case acknowledge
  then show ?case unfolding fst_conv snd_conv using quiet_disciplined acknowledge_claim_quiet by blast
next
  case renew
  then show ?case unfolding fst_conv snd_conv using quiet_disciplined renew_claim_quiet by blast
next
  case release
  then show ?case unfolding fst_conv snd_conv using quiet_disciplined release_claim_with_event_quiet by blast
next
  case unassigned
  then show ?case unfolding fst_conv snd_conv using quiet_disciplined unassign_with_event_quiet by blast
next
  case reap
  then show ?case unfolding fst_conv snd_conv using quiet_disciplined reap_expired_claims_quiet by blast
next
  case footprint
  then show ?case unfolding fst_conv snd_conv using set_footprint_disciplined by blast
next
  case pause
  then show ?case unfolding fst_conv snd_conv by (rule quiet_disciplined [OF pause_resume_quiet(1)])
next
  case resume
  then show ?case unfolding fst_conv snd_conv by (rule quiet_disciplined [OF pause_resume_quiet(2)])
next
  case capacity
  then show ?case unfolding fst_conv snd_conv using capacity_disciplined by blast
next
  case uncapped
  then show ?case unfolding fst_conv snd_conv by (rule uncapped_disciplined)
next
  case (tick now now' db)
  then show ?case using discipline_shrink [of now db db now'] live_ids_mono by auto
qed

interpretation queue_run: step_invariant "queue_step jd" "\<lambda>s. disciplined (fst s) (snd s)" for jd
  by unfold_locales (rule queue_step_disciplined)


definition slot_store :: queue_db where
  "slot_store = (store_with [fresh_thread 7 2, fresh_thread 8 2])
     \<lparr>footprints := [\<lparr>fr_thread = 7, fr_workspace = 1, fr_repo = ''r'', fr_mode = Exclusive, fr_kind = Path,
        fr_value = ''src'', fr_namespace = ''path'', fr_key = ''src/''\<rparr>],
      slot_capacities := [\<lparr>sc_workspace = 1, sc_slot = ''gpu'', sc_capacity = 1\<rparr>]\<rparr>"


subsection \<open>The boundary of the guarantee\<close>

text \<open>Two threads on the same path, each open to one of the two members by a required skill.\<close>

definition skilled_store :: queue_db where
  "skilled_store = (store_with [fresh_thread 7 2, fresh_thread 8 2])
     \<lparr>footprints := map (\<lambda>t. \<lparr>fr_thread = t, fr_workspace = 1, fr_repo = ''r'', fr_mode = Exclusive, fr_kind = Path,
        fr_value = ''src'', fr_namespace = ''path'', fr_key = ''src/''\<rparr>) [7, 8],
      required_skills := [\<lparr>sk_owner = 7, sk_skill = ''a''\<rparr>, \<lparr>sk_owner = 8, sk_skill = ''b''\<rparr>],
      member_skills := [\<lparr>sk_owner = 5, sk_skill = ''a''\<rparr>, \<lparr>sk_owner = 6, sk_skill = ''b''\<rparr>]\<rparr>"


end
