(* ===== verification/Claim_Safety.thy ===== *)
theory Claim_Safety
  imports Claim_Next
begin

text \<open>
  Fencing.  \<open>set_result\<close> is the fenced write of \<open>sqlite/thread_results.rs\<close>.  The step relation
  \<open>claim_step\<close> has one rule per operation that touches a claim, in any order and any interleaving;
  its state carries the fencing tokens minted so far, so that a fresh token is one not minted before.
  Every step is a frame, and the invariants and the fencing theorem are read off the frames.
\<close>

subsection \<open>The fenced result\<close>

text \<open>\<open>ON CONFLICT (thread_id) DO UPDATE\<close>.\<close>

definition put_result :: "result_row \<Rightarrow> ('z) queue_db_scheme \<Rightarrow> ('z) queue_db_scheme" where
  "put_result row db =
     (if \<exists>r \<in> set (results db). r_thread r = r_thread row
      then db\<lparr>results := update_where (\<lambda>r. r_thread r = r_thread row) (\<lambda>_. row) (results db)\<rparr>
      else db\<lparr>results := results db @ [row]\<rparr>)"

definition set_result ::
  "attribution option \<Rightarrow> instant \<Rightarrow> thread_id \<Rightarrow> member_id \<Rightarrow> lease_id \<Rightarrow> string \<Rightarrow> ('z) queue_db_scheme
    \<Rightarrow> store_error + result_row \<times> ('z) queue_db_scheme" where
  "set_result scope clk tid m lease res db =
     (if \<exists>t \<in> set (threads db). t_id t = tid \<and> fence m lease t
      then let row = \<lparr>r_thread = tid, r_result = res, r_produced_by = m,
                      r_produced_actor = Some (unwrap_or (delegate_acting_for scope m) m), r_produced_at = clk\<rparr>
           in Inr (row, put_result row db)
      else Inl (ClaimLost lease))"

definition get_result :: "('z) queue_db_scheme \<Rightarrow> thread_id \<Rightarrow> result_row option" where
  "get_result db tid = find (\<lambda>r. r_thread r = tid) (results db)"

lemma put_result_frame: "frame {} db (put_result row db)"
  by (rule frame_same) (simp_all add: put_result_def ledger_balanced_def counted_def get_budget_def)

lemma set_result_frame: "set_result scope clk tid m l res db = Inr (r, db') \<Longrightarrow> frame {} db db'"
  by (auto simp: set_result_def Let_def put_result_frame split: if_splits)

lemma get_put_result: "get_result (put_result row db) tid = (if tid = r_thread row then Some row else get_result db tid)"
proof -
  have "find (\<lambda>r. r_thread r = tid) (update_where (\<lambda>r. r_thread r = r_thread row) (\<lambda>_. row) rs) =
      (if tid = r_thread row then Some row else find (\<lambda>r. r_thread r = tid) rs)"
    if "tid = r_thread row \<longrightarrow> (\<exists>r \<in> set rs. r_thread r = r_thread row)" for rs
    using that by (induction rs) (fastforce simp: update_where_def)+
  moreover have "find (\<lambda>r. r_thread r = tid) (rs @ [row]) =
      (if tid = r_thread row then Some row else find (\<lambda>r. r_thread r = tid) rs)"
    if "\<not> (\<exists>r \<in> set rs. r_thread r = r_thread row)" for rs
    using that by (induction rs) auto
  ultimately show ?thesis
    by (cases "tid = r_thread row"; cases "\<exists>r \<in> set (results db). r_thread r = r_thread row")
      (simp_all add: put_result_def get_result_def)
qed

subsection \<open>Frames of the queue\<close>

lemma claim_next_with_event_frame:
  assumes "claim_next_with_event jd g scope clk l sc m n repo engine lane db = Inr (r, db')"
  shows "frame {l} db db'"
proof (cases "claim_next_candidate jd sc m clk (lease_clock g clk) repo engine lane db")
  case None
  with assms show ?thesis by (simp add: claim_next_with_event_def)
next
  case (Some c)
  then obtain t db1 db2 where
    t: "take_candidate clk l n (t_id c) m db = Inr (t, db1)"
    and e: "end_candidate_claim clk c t db1 = Inr db2"
    and a: "append_assignment_event scope clk t m None None db2 = Inr db'"
    using assms by (auto simp: claim_next_with_event_def and_then_Inr)
  show ?thesis
    by (rule frame_trans2 [OF frame_trans2 [OF take_candidate_frame [OF t] end_candidate_claim_frame [OF e]]
          append_assignment_event_frame [OF a]])
qed

lemma claim_next_frame:
  assumes "claim_next jd g scope clk l ch m n engine db = Inr (r, db')"
  shows "frame {l} db db'"
proof (cases "claim_next_candidate jd (InChannel ch) m clk (lease_clock g clk) None engine None db")
  case None
  with assms show ?thesis by (simp add: claim_next_def)
next
  case (Some c)
  then obtain t db1 where
    t: "take_candidate clk l n (t_id c) m db = Inr (t, db1)"
    and e: "end_candidate_claim clk c t (record_worker scope (t_id t) m db1) = Inr db'"
    using assms by (auto simp: claim_next_def and_then_Inr)
  show ?thesis
    by (rule frame_trans2 [OF frame_trans2 [OF take_candidate_frame [OF t] frame_record] end_candidate_claim_frame [OF e]])
qed

subsection \<open>The steps\<close>

inductive claim_step ::
  "(instant \<Rightarrow> int) \<Rightarrow> lease_id set \<times> ('z) queue_db_scheme \<Rightarrow> lease_id set \<times> ('z) queue_db_scheme \<Rightarrow> bool"
  for jd :: "instant \<Rightarrow> int" where
  assigned: "l \<notin> U \<Longrightarrow> assign scope clk l tid m db = Inr (t, db') \<Longrightarrow> claim_step jd (U, db) (insert l U, db')"
| assigned_event: "l \<notin> U \<Longrightarrow> assign_with_event scope clk l tid m actor note db = Inr (t, db') \<Longrightarrow>
     claim_step jd (U, db) (insert l U, db')"
| claimed: "l \<notin> U \<Longrightarrow> claim scope clk l tid m db = Inr (w, db') \<Longrightarrow> claim_step jd (U, db) (insert l U, db')"
| claimed_event: "l \<notin> U \<Longrightarrow> claim_with_event scope clk l tid m db = Inr (w, db') \<Longrightarrow>
     claim_step jd (U, db) (insert l U, db')"
| next_plain: "l \<notin> U \<Longrightarrow> claim_next jd g scope clk l ch m n engine db = Inr (r, db') \<Longrightarrow>
     claim_step jd (U, db) (insert l U, db')"
| next_event: "l \<notin> U \<Longrightarrow> claim_next_with_event jd g scope clk l sc m n repo engine lane db = Inr (r, db') \<Longrightarrow>
     claim_step jd (U, db) (insert l U, db')"
| unassigned: "unassign clk tid db = Inr (t, db') \<Longrightarrow> claim_step jd (U, db) (U, db')"
| unassigned_event: "unassign_with_event scope clk tid actor db = Inr (t, db') \<Longrightarrow> claim_step jd (U, db) (U, db')"
| renewed: "renew_claim clk tid m l n db = Inr (t, db') \<Longrightarrow> claim_step jd (U, db) (U, db')"
| acknowledged: "acknowledge_claim clk tid m l db = Inr (t, db') \<Longrightarrow> claim_step jd (U, db) (U, db')"
| released: "release_claim clk tid m l db = Inr (t, db') \<Longrightarrow> claim_step jd (U, db) (U, db')"
| released_event: "release_claim_with_event scope clk tid m l db = Inr (t, db') \<Longrightarrow> claim_step jd (U, db) (U, db')"
| member_left: "release_member_claims clk m db = (k, db') \<Longrightarrow> claim_step jd (U, db) (U, db')"
| reaped: "reap_expired_claims g clk at n db = Inr db' \<Longrightarrow> claim_step jd (U, db) (U, db')"
| timed_out: "return_human_timeouts clk at before pol n db = Inr db' \<Longrightarrow> claim_step jd (U, db) (U, db')"
| unacknowledged: "report_unacknowledged_claims clk at before n db = Inr db' \<Longrightarrow> claim_step jd (U, db) (U, db')"
| stalls: "report_stalled_claims clk at reason before n db = Inr db' \<Longrightarrow> claim_step jd (U, db) (U, db')"
| used: "report_usage clk tid d db = Inr (r, db') \<Longrightarrow> claim_step jd (U, db) (U, db')"
| limited: "claim_step jd (U, db) (U, set_budget tid lim db)"
| patched: "claim_step jd (U, db) (U, patch_budget tid patch db)"
| accounted: "report_accounted_usage clk new db = Inr (e, db') \<Longrightarrow> claim_step jd (U, db) (U, db')"
| owned: "set_owner clk tid w db = Inr (t, db') \<Longrightarrow> claim_step jd (U, db) (U, db')"
| titled: "set_title tid x db = Inr (t, db') \<Longrightarrow> claim_step jd (U, db) (U, db')"
| result: "set_result scope clk tid m l res db = Inr (r, db') \<Longrightarrow> claim_step jd (U, db) (U, db')"

lemma claim_step_frame:
  assumes "claim_step jd s s'"
  shows "\<exists>L. frame L (snd s) (snd s') \<and> L \<inter> fst s = {} \<and> fst s' = fst s \<union> L"
  using assms
proof cases
  case (assigned l U scope clk tid m db t db')
  then show ?thesis using assign_frame by (intro exI [of _ "{l}"]) auto
next
  case (assigned_event l U scope clk tid m actor nt db t db')
  then show ?thesis using assign_with_event_frame by (intro exI [of _ "{l}"]) auto
next
  case (claimed l U scope clk tid m db w db')
  then show ?thesis using claim_frame by (cases w) (intro exI [of _ "{l}"], auto)
next
  case (claimed_event l U scope clk tid m db w db')
  then show ?thesis using claim_with_event_frame by (cases w) (intro exI [of _ "{l}"], auto)
next
  case (next_plain l U g scope clk ch m n engine db r db')
  then show ?thesis using claim_next_frame by (intro exI [of _ "{l}"]) auto
next
  case (next_event l U g scope clk sc m n repo engine lane db r db')
  then show ?thesis using claim_next_with_event_frame by (intro exI [of _ "{l}"]) auto
qed (auto intro!: exI [of _ "{}"] intro: unassign_frame unassign_with_event_frame renew_claim_frame
      acknowledge_claim_frame release_fenced_frame release_claim_with_event_frame release_member_claims_frame
      reap_expired_claims_frame return_human_timeouts_frame report_unacknowledged_claims_frame
      report_stalled_claims_frame report_usage_frame set_budget_frame
      patch_budget_frame report_accounted_usage_frame set_owner_frame set_title_frame set_result_frame
      simp: release_claim_def)

subsection \<open>Invariants\<close>

text \<open>Every current token was minted, every claim is whole, and the keys are keys.\<close>

definition claims_ok :: "lease_id set \<times> ('z) queue_db_scheme \<Rightarrow> bool" where
  "claims_ok = (\<lambda>(U, db).
     distinct (map t_id (threads db)) \<and> (\<forall>t \<in> set (threads db). claim_ok t)
   \<and> (\<forall>t \<in> set (threads db). \<forall>l. t_lease t = Some l \<longrightarrow> l \<in> U))"

lemma frame_mem:
  assumes "frame L db db'" "t' \<in> set (threads db')"
  obtains t where "t \<in> set (threads db)" "evolves L t t'"
proof -
  have l: "list_all2 (evolves L) (threads db) (threads db')" using assms(1) by (simp add: frame_def)
  obtain i where "i < length (threads db')" "threads db' ! i = t'" using assms(2) by (auto simp: in_set_conv_nth)
  with l that [of "threads db ! i"] show thesis by (auto simp: list_all2_conv_all_nth)
qed

lemma frame_ids: "frame L db db' \<Longrightarrow> map t_id (threads db') = map t_id (threads db)"
  by (auto simp: frame_def evolves_def list_all2_conv_all_nth intro!: nth_equalityI)

lemma claim_step_claims_ok:
  assumes "claim_step jd s s'" "claims_ok s"
  shows "claims_ok s'"
proof -
  obtain L where f: "frame L (snd s) (snd s')" and U: "fst s' = fst s \<union> L"
    using claim_step_frame [OF assms(1)] by blast
  have "claim_ok t' \<and> (\<forall>l. t_lease t' = Some l \<longrightarrow> l \<in> fst s')" if t': "t' \<in> set (threads (snd s'))" for t'
  proof -
    obtain t where t: "t \<in> set (threads (snd s))" "evolves L t t'" using frame_mem [OF f t'] .
    with assms(2) have "claim_ok t" "\<forall>l. t_lease t = Some l \<longrightarrow> l \<in> fst s" by (auto simp: claims_ok_def split_def)
    with t U show ?thesis by (auto simp: evolves_def holder_evolves_def)
  qed
  with assms(2) frame_ids [OF f] show ?thesis by (auto simp: claims_ok_def split_def)
qed

interpretation claims_run: step_invariant "claim_step jd" claims_ok for jd
  by unfold_locales (rule claim_step_claims_ok)

lemmas claim_steps_claims_ok = claims_run.run_keeps

text \<open>A minted token that is not a thread's current one never becomes it again.\<close>

definition retired :: "thread_id \<Rightarrow> lease_id \<Rightarrow> lease_id set \<times> ('z) queue_db_scheme \<Rightarrow> bool" where
  "retired tid l s \<longleftrightarrow> l \<in> fst s \<and> (\<forall>t \<in> set (threads (snd s)). t_id t = tid \<longrightarrow> t_lease t \<noteq> Some l)"

lemma claim_step_retired:
  assumes "claim_step jd s s'" "retired tid l s"
  shows "retired tid l s'"
proof -
  obtain L where f: "frame L (snd s) (snd s')" and U: "L \<inter> fst s = {}" "fst s' = fst s \<union> L"
    using claim_step_frame [OF assms(1)] by blast
  have "t_lease t' \<noteq> Some l" if t': "t' \<in> set (threads (snd s'))" "t_id t' = tid" for t'
  proof -
    obtain t where t: "t \<in> set (threads (snd s))" "evolves L t t'" using frame_mem [OF f t'(1)] .
    with assms(2) t'(2) have "t_lease t \<noteq> Some l" by (auto simp: retired_def evolves_def)
    moreover have "l \<notin> L" using assms(2) U by (auto simp: retired_def)
    ultimately show ?thesis using t by (auto simp: evolves_def holder_evolves_def)
  qed
  with assms(2) U show ?thesis by (simp add: retired_def)
qed

interpretation retired_run: step_invariant "claim_step jd" "retired tid l" for jd tid l
  by unfold_locales (rule claim_step_retired)

lemmas claim_steps_retired = retired_run.run_keeps

text \<open>What a retired token can do: nothing.\<close>

lemma update_thread_None:
  "\<forall>t \<in> set (threads db). t_id t = tid \<longrightarrow> \<not> P t \<Longrightarrow> update_thread tid P f db = None"
  by (auto simp: update_thread_def find_None_iff split: option.splits dest: find_key_mem)

lemma retired_refused:
  assumes "retired tid l (U, db)"
  shows "renew_claim clk tid m l n db = Inl NotFound" "acknowledge_claim clk tid m l db = Inl NotFound"
    "release_claim clk tid m l db = Inl NotFound"
    "release_claim_with_event scope clk tid m l db = Inl NotFound"
    "set_result scope clk tid m l res db = Inl (ClaimLost l)"
proof -
  have no: "\<forall>t \<in> set (threads db). t_id t = tid \<longrightarrow> \<not> fence m l t"
    using assms by (auto simp: retired_def fence_def)
  have f: "find (\<lambda>t. t_id t = tid \<and> fence m l t) (threads db) = None"
    using no by (auto simp: find_None_iff)
  show "renew_claim clk tid m l n db = Inl NotFound" "acknowledge_claim clk tid m l db = Inl NotFound"
    by (simp_all add: renew_claim_def acknowledge_claim_def update_thread_None [OF no] ok_or_def)
  show "release_claim clk tid m l db = Inl NotFound" "release_claim_with_event scope clk tid m l db = Inl NotFound"
    by (simp_all add: release_claim_def release_claim_with_event_def release_fenced_def f ok_or_def)
  show "set_result scope clk tid m l res db = Inl (ClaimLost l)"
    using no by (auto simp: set_result_def)
qed


text \<open>A claim under token 30, released, and claimed again by another member under token 31.\<close>

definition held_store :: queue_db where
  "held_store = store_with [give_claim 0 5 (Some (secs 60)) 30 (fresh_thread 7 2)]"


subsection \<open>The worker ledger\<close>

text \<open>Whoever holds a thread is in its worker ledger, and nobody ever leaves it.  While a claim is being
  handed over there may be one row, \<open>tid\<close> held by \<open>m\<close>, not yet recorded.\<close>

definition recorded :: "('z) claim_db_scheme \<Rightarrow> bool" where
  "recorded db \<longleftrightarrow> (\<forall>t \<in> set (threads db). \<forall>m. t_assignee t = Some m \<longrightarrow> has_worked db (t_id t) m)"

definition recorded_but :: "thread_id \<Rightarrow> member_id \<Rightarrow> ('z) claim_db_scheme \<Rightarrow> bool" where
  "recorded_but tid m db \<longleftrightarrow>
     (\<forall>t \<in> set (threads db). \<forall>a. t_assignee t = Some a \<longrightarrow> has_worked db (t_id t) a \<or> t_id t = tid \<and> a = m)"

lemma frame_recorded:
  assumes "frame {} db db'" "recorded db"
  shows "recorded db'"
  unfolding recorded_def
proof (intro ballI allI impI)
  fix t' m assume t': "t' \<in> set (threads db')" "t_assignee t' = Some m"
  obtain t where t: "t \<in> set (threads db)" "evolves {} t t'" using frame_mem [OF assms(1) t'(1)] .
  then have "t_id t' = t_id t" "t_assignee t = Some m" using t'(2) by (auto simp: evolves_def holder_evolves_def)
  with t assms show "has_worked db' (t_id t') m" by (auto simp: recorded_def frame_def)
qed

lemma frame_recorded_but:
  assumes "frame {} db db'" "recorded_but tid m db"
  shows "recorded_but tid m db'"
  unfolding recorded_but_def
proof (intro ballI allI impI)
  fix t' a assume t': "t' \<in> set (threads db')" "t_assignee t' = Some a"
  obtain t where t: "t \<in> set (threads db)" "evolves {} t t'" using frame_mem [OF assms(1) t'(1)] .
  then have "t_id t' = t_id t" "t_assignee t = Some a" using t'(2) by (auto simp: evolves_def holder_evolves_def)
  with t assms show "has_worked db' (t_id t') a \<or> t_id t' = tid \<and> a = m" by (auto simp: recorded_but_def frame_def)
qed

lemma give_recorded_but:
  assumes "update_thread tid P (give_claim clk m e l) db = Some (t, db')" "recorded db"
  shows "recorded_but tid m db' \<and> t_id t = tid \<and> t_assignee t = Some m"
  using assms(1)
proof (rule update_thread_SomeD)
  fix u assume u: "t_id u = tid" "t = give_claim clk m e l u"
    "db' = db\<lparr>threads := update_where (\<lambda>t. t_id t = tid \<and> P t) (give_claim clk m e l) (threads db)\<rparr>"
  have "has_worked db' t m' = has_worked db t m'" for t m' by (simp add: u(3) has_worked_def)
  with assms(2) show ?thesis
    by (auto simp: u recorded_but_def recorded_def set_update_where give_claim_def)
qed

lemma record_worker_recorded: "recorded_but tid m db \<Longrightarrow> recorded (record_worker scope tid m db)"
  by (auto simp: recorded_but_def recorded_def has_worked_record)

lemma append_assignment_event_recorded:
  assumes "append_assignment_event scope clk t actor prev nt db = Inr db'" "recorded_but (t_id t) m db" "t_assignee t = Some m"
  shows "recorded db'"
proof -
  obtain e where "db' = append_event e (record_worker scope (t_id t) m db)"
    using assms(1,3) by (auto simp: append_assignment_event_def and_then_Inr Let_def)
  moreover have "recorded (append_event e (record_worker scope (t_id t) m db))"
    by (rule frame_recorded [OF frame_append record_worker_recorded [OF assms(2)]])
  ultimately show ?thesis by simp
qed

lemma charge_open_claim_recorded: "charge_open_claim clk tid db = Inr db1 \<Longrightarrow> recorded db \<Longrightarrow> recorded db1"
  using frame_recorded [OF charge_open_claim_frame] .

lemma assign_recorded:
  assumes "assign scope clk l tid m db = Inr (t, db')" "recorded db"
  shows "recorded db'"
proof -
  obtain db1 t2 db2 P where c: "charge_open_claim clk tid db = Inr db1"
    and u: "update_thread tid P (give_claim clk m None l) db1 = Some (t2, db2)"
    and r: "db' = record_worker scope tid m db2"
    using assms(1) by (auto simp: assign_def and_then_Inr split: option.splits)
  show ?thesis
    unfolding r by (rule record_worker_recorded)
      (use give_recorded_but [OF u] charge_open_claim_recorded [OF c assms(2)] in blast)
qed

lemma assign_with_event_recorded:
  assumes "assign_with_event scope clk l tid m actor nt db = Inr (t, db')" "recorded db"
  shows "recorded db'"
proof -
  obtain db1 t2 db2 p P where c: "charge_open_claim clk tid db = Inr db1"
    and u: "update_thread tid P (give_claim clk m None l) db1 = Some (t2, db2)"
    and r: "append_assignment_event scope clk t2 actor p nt db2 = Inr db'"
    using assms(1) by (auto simp: assign_with_event_def and_then_Inr split: option.splits)
  note g = give_recorded_but [OF u charge_open_claim_recorded [OF c assms(2)]]
  show ?thesis by (rule append_assignment_event_recorded [OF r]) (use g in auto)
qed

lemma claim_recorded:
  assumes "claim scope clk l tid m db = Inr (w, db')" "recorded db"
  shows "recorded db'"
proof (cases "update_thread tid (\<lambda>t. t_assignee t = None \<and> live t \<and> shared_family db m tid = None)
            (give_claim clk m None l) db")
  case None
  with assms show ?thesis by (auto simp: claim_def and_then_Inr)
next
  case (Some a)
  then obtain t1 db1 where u: "update_thread tid (\<lambda>t. t_assignee t = None \<and> live t \<and> shared_family db m tid = None)
            (give_claim clk m None l) db = Some (t1, db1)" by (cases a) auto
  then have "db' = record_worker scope tid m db1" using assms(1) by (auto simp: claim_def and_then_Inr)
  with record_worker_recorded give_recorded_but [OF u assms(2)] show ?thesis by blast
qed

lemma claim_with_event_recorded:
  assumes "claim_with_event scope clk l tid m db = Inr (w, db')" "recorded db"
  shows "recorded db'"
proof (cases "update_thread tid (\<lambda>t. t_assignee t = None \<and> live t \<and> shared_family db m tid = None)
            (give_claim clk m None l) db")
  case None
  with assms show ?thesis by (auto simp: claim_with_event_def and_then_Inr)
next
  case (Some a)
  then obtain t1 db1 where u: "update_thread tid (\<lambda>t. t_assignee t = None \<and> live t \<and> shared_family db m tid = None)
            (give_claim clk m None l) db = Some (t1, db1)" by (cases a) auto
  then have r: "append_assignment_event scope clk t1 m None None db1 = Inr db'"
    using assms(1) by (auto simp: claim_with_event_def and_then_Inr)
  show ?thesis by (rule append_assignment_event_recorded [OF r]) (use give_recorded_but [OF u assms(2)] in auto)
qed

lemma claim_next_recorded:
  assumes "claim_next jd g scope clk l ch m n engine db = Inr (r, db')" "recorded db"
  shows "recorded db'"
proof (cases "claim_next_candidate jd (InChannel ch) m clk (lease_clock g clk) None engine None db")
  case None
  with assms show ?thesis by (simp add: claim_next_def)
next
  case (Some c)
  then obtain t db1 P e where
    u: "update_thread (t_id c) P (give_claim clk m e l) db = Some (t, db1)"
    and x: "end_candidate_claim clk c t (record_worker scope (t_id t) m db1) = Inr db'"
    using assms(1) by (auto simp: claim_next_def and_then_Inr take_candidate_def)
  have "recorded (record_worker scope (t_id t) m db1)"
    by (rule record_worker_recorded) (use give_recorded_but [OF u assms(2)] in auto)
  then show ?thesis by (rule frame_recorded [OF end_candidate_claim_frame [OF x]])
qed

lemma claim_next_with_event_recorded:
  assumes "claim_next_with_event jd g scope clk l sc m n repo engine lane db = Inr (r, db')" "recorded db"
  shows "recorded db'"
proof (cases "claim_next_candidate jd sc m clk (lease_clock g clk) repo engine lane db")
  case None
  with assms show ?thesis by (simp add: claim_next_with_event_def)
next
  case (Some c)
  then obtain t db1 db2 P e where
    u: "update_thread (t_id c) P (give_claim clk m e l) db = Some (t, db1)"
    and x: "end_candidate_claim clk c t db1 = Inr db2"
    and a: "append_assignment_event scope clk t m None None db2 = Inr db'"
    using assms(1) by (auto simp: claim_next_with_event_def and_then_Inr take_candidate_def)
  note g = give_recorded_but [OF u assms(2)]
  have "recorded_but (t_id t) m db2"
    by (rule frame_recorded_but [OF end_candidate_claim_frame [OF x]]) (use g in auto)
  then show ?thesis by (rule append_assignment_event_recorded [OF a]) (use g in auto)
qed

lemma claim_step_recorded:
  assumes "claim_step jd s s'" "recorded (snd s)"
  shows "recorded (snd s')"
  using assms(1)
proof cases
  case (assigned l U scope clk tid m db t db')
  with assms(2) assign_recorded show ?thesis by auto
next
  case (assigned_event l U scope clk tid m actor nt db t db')
  with assms(2) assign_with_event_recorded show ?thesis by auto
next
  case (claimed l U scope clk tid m db w db')
  with assms(2) show ?thesis using claim_recorded [OF claimed(4)] by simp
next
  case (claimed_event l U scope clk tid m db w db')
  with assms(2) show ?thesis using claim_with_event_recorded [OF claimed_event(4)] by simp
next
  case (next_plain l U g scope clk ch m n engine db r db')
  with assms(2) show ?thesis using claim_next_recorded [OF next_plain(4)] by simp
next
  case (next_event l U g scope clk sc m n repo engine lane db r db')
  with assms(2) show ?thesis using claim_next_with_event_recorded [OF next_event(4)] by simp
qed (use assms(2) in \<open>auto intro: frame_recorded unassign_frame unassign_with_event_frame renew_claim_frame
      acknowledge_claim_frame release_fenced_frame release_claim_with_event_frame release_member_claims_frame
      reap_expired_claims_frame return_human_timeouts_frame report_unacknowledged_claims_frame
      report_stalled_claims_frame report_usage_frame set_budget_frame
      patch_budget_frame report_accounted_usage_frame set_owner_frame set_title_frame set_result_frame
      simp: release_claim_def\<close>)

interpretation recorded_run: step_invariant "claim_step jd" "\<lambda>s. recorded (snd s)" for jd
  by unfold_locales (rule claim_step_recorded)

definition keeps_workers :: "lease_id set \<times> ('z) queue_db_scheme \<Rightarrow> lease_id set \<times> ('z) queue_db_scheme \<Rightarrow> bool" where
  "keeps_workers s s' \<longleftrightarrow>
     (\<forall>tid m. has_worked (snd s) tid m \<longrightarrow> has_worked (snd s') tid m) \<and> prefix (log (snd s)) (log (snd s'))"

interpretation workers_run: step_order "claim_step jd" keeps_workers for jd
proof unfold_locales
  fix s s' assume c: "claim_step jd s s'"
  obtain L where "frame L (snd s) (snd s')" using claim_step_frame [OF c] by blast
  then show "keeps_workers s s'" by (simp add: keeps_workers_def frame_def)
qed (auto simp: keeps_workers_def intro: prefix_order.trans)

text \<open>
  C11: the worker ledger is complete and permanent.  After any sequence of claim operations, whoever
  holds a thread is recorded as having worked on it, everyone recorded before is still recorded, and
  the event log has only been appended to; so no claim path escapes separation of duties.
\<close>

theorem worker_ledger_complete:
  assumes "(claim_step jd)\<^sup>*\<^sup>* (U, db) (U', db')" and "recorded db"
  shows "(\<forall>t \<in> set (threads db'). \<forall>m. t_assignee t = Some m \<longrightarrow> has_worked db' (t_id t) m) \<and>
    (\<forall>tid m. has_worked db tid m \<longrightarrow> has_worked db' tid m) \<and> prefix (log db) (log db')"
proof -
  have "recorded db'" using recorded_run.run_keeps [OF assms(1)] assms(2) by simp
  moreover have "keeps_workers (U, db) (U', db')" by (rule workers_run.run_le [OF assms(1)])
  ultimately show ?thesis by (simp add: recorded_def keeps_workers_def)
qed

theorem worker_ledger_complete_witness:
  "\<exists>db'. claim_step (\<lambda>t. t div 1000) ({}, store_with [fresh_thread 7 2]) ({31}, db') \<and>
     (\<forall>t \<in> set (threads db'). \<forall>m. t_assignee t = Some m \<longrightarrow> has_worked db' (t_id t) m)"
proof -
  let ?db = "store_with [fresh_thread 7 2]"
  let ?r = "claim None (secs 10) 31 7 6 ?db"
  have "isl ?r = False" by code_simp
  then obtain w db' where r: "?r = Inr (w, db')" by (cases ?r) auto
  have s: "claim_step (\<lambda>t. t div 1000) ({}, ?db) ({31}, db')"
    using claim_step.claimed [OF _ r, of "{}"] by simp
  have p: "(claim_step (\<lambda>t. t div 1000))\<^sup>*\<^sup>* ({}, ?db) ({31}, db')" using s ..
  have "recorded ?db" by (simp add: recorded_def store_with_def fresh_thread_def)
  with s worker_ledger_complete [OF p] show ?thesis by blast
qed

end
