(* ===== verification/Claim_Endings.thy ===== *)
theory Claim_Endings
  imports Claim_Safety
begin

text \<open>
  How claims end: the reaper, the hand-back of a claim by its holder, and the takeover of a lapsed
  claim by \<open>claim_next\<close>, with what each charges to the thread's wall budget.
\<close>

subsection \<open>The reaper\<close>

definition scoped :: "('z) claim_db_scheme \<Rightarrow> bool" where
  "scoped db \<longleftrightarrow> (\<forall>t \<in> set (threads db). \<exists>p. thread_scope db (t_id t) = Inr p)"

lemma lapsed_before_claim:
  "lapsed_before now t \<Longrightarrow> \<exists>h d. lapsed_claim t = Some (h, d, t_work_started_at t) \<and> t_assignee t = Some h"
  by (auto simp: lapsed_before_def lapsed_claim_def split: option.splits)

lemma clear_not_lapsed: "\<not> lapsed_before now (clear_claim clk t)"
  by (simp add: lapsed_before_def clear_claim_def)

lemma end_lapsed_claim_log:
  assumes "end_lapsed_claim clk t m d st db = Inr db'"
  shows "\<exists>e. log db' = log db @ [e]"
  using assms
proof (cases rule: end_lapsed_claim_cases)
  case (failed ws ch b reason)
  then show ?thesis by (simp add: fail_claim_def Let_def)
next
  case expired
  then show ?thesis by (auto simp: append_claim_expired_def and_then_Inr)
qed

lemma reap_one_spec:
  assumes "distinct (map t_id (threads db))" "scoped db" "c \<in> set (threads db)" "lapsed_before now c"
  obtains db' e where "reap_one clk now c db = Inr db'"
    "threads db' = update_where (\<lambda>t. t = c) (clear_claim clk) (threads db)" "log db' = log db @ [e]" "frame {} db db'"
proof -
  obtain h d where lc: "lapsed_claim c = Some (h, d, t_work_started_at c)" "t_assignee c = Some h"
    using lapsed_before_claim [OF assms(4)] by blast
  let ?P = "\<lambda>t. t_assignee t = Some h \<and> lapsed_before now t"
  have key: "(t_id t = t_id c \<and> ?P t) = (t = c)" if "t \<in> set (threads db)" for t
    using that assms(1,3,4) lc(2) by (auto simp: distinct_map dest: inj_onD)
  have f: "find (\<lambda>t. t_id t = t_id c \<and> ?P t) (threads db) = Some c"
  proof (cases "find (\<lambda>t. t_id t = t_id c \<and> ?P t) (threads db)")
    case None
    then show ?thesis using assms(3,4) lc(2) by (auto simp: find_None_iff)
  next
    case (Some t)
    with find_key_mem [OF Some] key [of t] show ?thesis by blast
  qed
  let ?db1 = "db\<lparr>threads := update_where (\<lambda>t. t = c) (clear_claim clk) (threads db)\<rparr>"
  have th: "update_where (\<lambda>t. t_id t = t_id c \<and> ?P t) (clear_claim clk) (threads db) =
      update_where (\<lambda>t. t = c) (clear_claim clk) (threads db)"
    unfolding update_where_def using key by (intro map_cong) auto
  have u: "update_thread (t_id c) ?P (clear_claim clk) db = Some (clear_claim clk c, ?db1)"
    by (simp add: update_thread_def f th)
  have id: "t_id (clear_claim clk c) = t_id c" by (simp add: clear_claim_def)
  obtain p where "thread_scope db (t_id c) = Inr p" using assms(2,3) by (auto simp: scoped_def)
  moreover have fr: "frame {} db ?db1" using u by (rule frame_update_thread) simp
  ultimately have "thread_scope ?db1 (t_id (clear_claim clk c)) = Inr p" using frame_thread_scope id by metis
  then obtain db' where e: "end_lapsed_claim clk (clear_claim clk c) h d (t_work_started_at c) ?db1 = Inr db'"
    using end_lapsed_claim_total by blast
  obtain ev where "log db' = log ?db1 @ [ev]" using end_lapsed_claim_log [OF e] by blast
  moreover have "reap_one clk now c db = Inr db'" using lc u e by (simp add: reap_one_def)
  moreover have "threads db' = threads ?db1" using e by (rule end_lapsed_claim_threads)
  moreover have "frame {} db db'" by (rule frame_trans1 [OF fr end_lapsed_claim_frame [OF e]])
  ultimately show thesis using that by simp
qed

lemma frame_scoped:
  assumes "frame L db db'" "scoped db"
  shows "scoped db'"
  unfolding scoped_def
proof
  fix t' assume t': "t' \<in> set (threads db')"
  obtain t where "t \<in> set (threads db)" "evolves L t t'" using frame_mem [OF assms(1) t'] .
  with assms(2) show "\<exists>p. thread_scope db' (t_id t') = Inr p"
    by (auto simp: scoped_def evolves_def frame_thread_scope [OF assms(1)])
qed

lemma reap_all_spec:
  assumes "distinct (map t_id (threads db))" "scoped db" "set cs \<subseteq> set (threads db)" "distinct cs"
    and "\<forall>c \<in> set cs. lapsed_before now c"
  shows "\<exists>db' es. reap_all clk now cs db = Inr db' \<and> length es = length cs \<and> log db' = log db @ es \<and>
    threads db' = update_where (\<lambda>t. t \<in> set cs) (clear_claim clk) (threads db)"
  using assms
proof (induction cs arbitrary: db)
  case Nil
  show ?case by (simp add: update_where_def)
next
  case (Cons c cs)
  have cin: "c \<in> set (threads db)" "lapsed_before now c" using Cons.prems(3,5) by auto
  obtain db1 e where r: "reap_one clk now c db = Inr db1"
    and th: "threads db1 = update_where (\<lambda>t. t = c) (clear_claim clk) (threads db)"
    and lg: "log db1 = log db @ [e]" and fr: "frame {} db db1"
    using reap_one_spec [OF Cons.prems(1,2) cin] .
  have "set cs \<subseteq> set (threads db1)"
    using Cons.prems(3,4) by (auto simp: th set_update_where)
  then obtain db' es where rest: "reap_all clk now cs db1 = Inr db'" "length es = length cs" "log db' = log db1 @ es"
    and th': "threads db' = update_where (\<lambda>t. t \<in> set cs) (clear_claim clk) (threads db1)"
    using Cons.IH [of db1] Cons.prems frame_ids [OF fr] frame_scoped [OF fr] by auto
  have nc: "clear_claim clk c \<notin> set cs" using Cons.prems(5) clear_not_lapsed by auto
  have "threads db' = update_where (\<lambda>t. t \<in> set (c # cs)) (clear_claim clk) (threads db)"
    unfolding th' th update_where_def using nc by auto
  moreover have "log db' = log db @ (e # es)" using lg rest(3) by simp
  ultimately show ?case using r rest by (intro exI [of _ db'] exI [of _ "e # es"]) simp
qed

text \<open>
  C13: the reaper.  During the boot grace it frees nothing.  Otherwise it never fails on a well-keyed
  store: it clears exactly the \<open>limit\<close> lapsed claims with the earliest deadlines, each whole, leaves
  every other thread alone, and reports each one with exactly one event.
\<close>

theorem reaper_frees_exactly_the_lapsed:
  assumes "distinct (map t_id (threads db))" and "scoped db"
  shows "if holding g now then reap_expired_claims g clk now limit db = Inr db
    else \<exists>db' es chosen.
      chosen = sql_limit limit (sort_key (\<lambda>t. (the (t_expires_at t), t_id t)) (filter (lapsed_before now) (threads db))) \<and>
      reap_expired_claims g clk now limit db = Inr db' \<and>
      threads db' = update_where (\<lambda>t. t \<in> set chosen) (clear_claim clk) (threads db) \<and>
      log db' = log db @ es \<and> length es = length chosen"
proof (cases "holding g now")
  case True
  then show ?thesis by (simp add: reap_expired_claims_def)
next
  case False
  let ?s = "sort_key (\<lambda>t. (the (t_expires_at t), t_id t)) (filter (lapsed_before now) (threads db))"
  let ?c = "sql_limit limit ?s"
  have "distinct (threads db)" using assms(1) by (simp add: distinct_map)
  then have dc: "distinct ?c" by (auto simp: sql_limit_def)
  have sub: "set ?c \<subseteq> set (filter (lapsed_before now) (threads db))"
    using set_take_subset [of "nat limit" ?s] by (auto simp: sql_limit_def)
  have s1: "set ?c \<subseteq> set (threads db)" and s2: "\<forall>c \<in> set ?c. lapsed_before now c" using sub by auto
  obtain db' es where "reap_all clk now ?c db = Inr db'" "length es = length ?c" "log db' = log db @ es"
    "threads db' = update_where (\<lambda>t. t \<in> set ?c) (clear_claim clk) (threads db)"
    using reap_all_spec [OF assms s1 dc s2, of clk] by blast
  moreover have "reap_expired_claims g clk now limit db = reap_all clk now ?c db"
    using False by (simp add: reap_expired_claims_def)
  ultimately show ?thesis
    unfolding if_not_P [OF False] by (intro exI [of _ db'] exI [of _ es] exI [of _ ?c] conjI) (rule refl | simp)+
qed

theorem reaper_frees_exactly_the_lapsed_witness:
  "\<exists>db'. reap_expired_claims 0 (secs 100) (secs 100) 10 held_store = Inr db' \<and>
     map t_lease (threads db') = [None]"
proof -
  have d: "distinct (map t_id (threads held_store))" by code_simp
  have s: "scoped held_store"
    by (simp add: scoped_def held_store_def store_with_def thread_scope_def find_thread_def find_channel_def
        give_claim_def fresh_thread_def)
  have h: "\<not> holding 0 (secs 100)" by code_simp
  have c: "sql_limit 10 (sort_key (\<lambda>t. (the (t_expires_at t), t_id t)) (filter (lapsed_before (secs 100)) (threads held_store))) =
      threads held_store" by code_simp
  obtain db' where r: "reap_expired_claims 0 (secs 100) (secs 100) 10 held_store = Inr db'"
    and th: "threads db' = update_where (\<lambda>t. t \<in> set (threads held_store)) (clear_claim (secs 100)) (threads held_store)"
    using reaper_frees_exactly_the_lapsed [OF d s, of 0 "secs 100" "secs 100" 10] h unfolding c by metis
  have "update_where (\<lambda>t. t \<in> set xs) f xs = map f xs" for xs :: "thread_row list" and f
    by (simp add: update_where_def)
  then have "map t_lease (threads db') = map (\<lambda>_. None) (threads held_store)"
    unfolding th by (simp add: clear_claim_def)
  then have "map t_lease (threads db') = [None]" by (simp add: held_store_def store_with_def)
  with r show ?thesis by (intro exI [of _ db'] conjI)
qed

subsection \<open>What an ending charges\<close>

lemma charged_wall_threads [simp]: "charged_wall (db\<lparr>threads := x\<rparr>) tid = charged_wall db tid"
  by (simp add: charged_wall_def get_budget_def)

lemma find_fenced:
  assumes "t \<in> set (threads db)" "distinct (map t_id (threads db))" "P t"
  shows "find (\<lambda>u. t_id u = t_id t \<and> P u) (threads db) = Some t"
proof (cases "find (\<lambda>u. t_id u = t_id t \<and> P u) (threads db)")
  case None
  with assms show ?thesis by (auto simp: find_None_iff)
next
  case (Some u)
  with find_key_mem [OF Some] assms show ?thesis by (auto simp: distinct_map dest: inj_onD)
qed

lemma update_thread_ok:
  assumes "t \<in> set (threads db)" "distinct (map t_id (threads db))" "P t"
  shows "update_thread (t_id t) P f db =
    Some (f t, db\<lparr>threads := update_where (\<lambda>u. t_id u = t_id t \<and> P u) f (threads db)\<rparr>)"
  using find_fenced [of t db P] assms by (simp add: update_thread_def)

text \<open>
  C28: handing a claim back charges exactly the time worked.  A fenced release by the holder and an
  operator's unassign both succeed, clear the whole claim, and add to the thread's wall usage the whole
  seconds since the claim was acknowledged (nothing if it never was); no other thread is charged.
\<close>

theorem hand_back_charges_the_worked_time:
  assumes "t \<in> set (threads db)" and "distinct (map t_id (threads db))" and "fence m l t"
  shows "\<exists>db1 db2. release_claim clk (t_id t) m l db = Inr (clear_claim clk t, db1) \<and>
    unassign clk (t_id t) db = Inr (clear_claim clk t, db2) \<and>
    (\<forall>tid. charged_wall db1 tid = charged_wall db tid +
       (if tid = t_id t then (case t_work_started_at t of None \<Rightarrow> 0 | Some w \<Rightarrow> max 0 (num_seconds (clk - w))) else 0)) \<and>
    (\<forall>tid. charged_wall db2 tid = charged_wall db1 tid)"
proof -
  let ?w = "worked_secs (t_work_started_at t) clk"
  let ?c = "charge_wall (t_id t) ?w db"
  have c: "t \<in> set (threads ?c)" "distinct (map t_id (threads ?c))" using assms by simp_all
  have f: "find (\<lambda>u. t_id u = t_id t \<and> fence m l u) (threads db) = Some t"
    by (rule find_fenced) (use assms in auto)
  have ft: "find_thread db (t_id t) = Some t"
    using find_fenced [of t db "\<lambda>_. True"] assms by (simp add: find_thread_def)
  have r: "release_claim clk (t_id t) m l db =
      Inr (clear_claim clk t, ?c\<lparr>threads := update_where (\<lambda>u. t_id u = t_id t \<and> fence m l u) (clear_claim clk) (threads ?c)\<rparr>)"
    using update_thread_ok [OF c, of "fence m l"] assms(3) f
    by (simp add: release_claim_def release_fenced_def Let_def ok_or_def)
  have u: "unassign clk (t_id t) db =
      Inr (clear_claim clk t, ?c\<lparr>threads := update_where (\<lambda>u. t_id u = t_id t \<and> True) (clear_claim clk) (threads ?c)\<rparr>)"
    using update_thread_ok [OF c, of "\<lambda>_. True"] ft
    by (simp add: unassign_def clear_assignee_def charge_open_claim_def ok_or_def)
  have w: "unwrap_or ?w 0 = (case t_work_started_at t of None \<Rightarrow> 0 | Some w \<Rightarrow> max 0 (num_seconds (clk - w)))"
    by (simp add: worked_secs_def unwrap_or_def split: option.splits)
  show ?thesis unfolding r u by (simp add: charged_wall_charge w)
qed

theorem hand_back_charges_the_worked_time_witness:
  "\<exists>db1. release_claim (secs 9) 7 5 30 (store_with [(give_claim 0 5 None 30 (fresh_thread 7 2))\<lparr>t_work_started_at := Some (secs 2)\<rparr>])
      = Inr (clear_claim (secs 9) ((give_claim 0 5 None 30 (fresh_thread 7 2))\<lparr>t_work_started_at := Some (secs 2)\<rparr>), db1) \<and>
    charged_wall db1 7 = 7"
proof -
  let ?t = "(give_claim 0 5 None 30 (fresh_thread 7 2))\<lparr>t_work_started_at := Some (secs 2)\<rparr>"
  have 1: "?t \<in> set (threads (store_with [?t]))" by (simp add: store_with_def)
  have 2: "distinct (map t_id (threads (store_with [?t])))" by (simp add: store_with_def)
  have 3: "fence 5 30 ?t" by code_simp
  have id: "t_id ?t = 7" by (simp add: give_claim_def fresh_thread_def)
  have z: "charged_wall (store_with [?t]) 7 = 0" by (simp add: charged_wall_def get_budget_def store_with_def)
  have n: "(case t_work_started_at ?t of None \<Rightarrow> 0 | Some w \<Rightarrow> max 0 (num_seconds (secs 9 - w))) = 7" by code_simp
  show ?thesis
    using hand_back_charges_the_worked_time [OF 1 2 3, of "secs 9"] unfolding id n by (auto simp: z)
qed

subsection \<open>Takeovers\<close>

lemma floor_diff: "(a - b) div M \<le> a div M - b div M" for a b M :: int
proof -
  have "a div M = (a - b) div M + b div M + ((a - b) mod M + b mod M) div M"
    using div_add1_eq [of "a - b" b M] by simp
  moreover have "0 \<le> ((a - b) mod M + b mod M) div M" if "M > 0"
    using that by (simp add: pos_imp_zdiv_nonneg_iff)
  moreover have "0 \<le> ((a - b) mod M + b mod M) div M" if "M < 0"
    using that by (simp add: div_nonpos_pos_le0 neg_imp_zdiv_nonneg_iff add_nonpos_nonpos)
  ultimately show ?thesis by (cases "M = 0") force+
qed

lemma worked_within_lapsed:
  assumes "\<forall>t. jd t div 1000 = t div 1000000" "lapsed_claim c = Some (h, d, st)"
  shows "unwrap_or (worked_secs st d) 0 \<le> lapsed_worked_secs jd c"
  using assms floor_diff [of d "the st" 1000000]
  by (auto simp: lapsed_claim_def worked_secs_def unwrap_or_def lapsed_worked_secs_def num_seconds_def
      bind_eq_Some_conv split: option.splits)

lemma bound_clamp: "bound (saturating_add x (max 0 0)) m \<Longrightarrow> bound x m"
  by (auto simp: bound_def saturating_add_def I64_MAX_def split: option.splits)

lemma bound_mono: "bound x m \<Longrightarrow> x \<le> y \<Longrightarrow> bound y m"
  by (auto simp: bound_def split: option.splits)

lemma not_over_budget_exceeded:
  assumes "\<not> over_budget jd db c" "unwrap_or w 0 \<le> lapsed_worked_secs jd c"
    and "get_budget (charge_wall (t_id c) w db) (t_id c) = Some b'"
  shows "exceeded b' None = None"
proof (cases "get_budget db (t_id c)")
  case None
  then have "b_max_tokens b' = None" "b_max_usd b' = None" "b_max_turns b' = None" "b_max_wall b' = None"
    using assms(3)
    by (auto simp: charge_wall_def get_upsert_budget fresh_budget_def unwrap_or_def split: option.splits)
  then show ?thesis by (simp add: exceeded_def bound_def)
next
  case (Some b)
  then have b': "b' = b\<lparr>b_used_wall := b_used_wall b + unwrap_or w 0\<rparr>" using assms(3) limits_charge by fastforce
  from Some have "b \<in> set (budgets db)" "b_thread b = t_id c"
    by (auto simp: get_budget_def dest: find_key_mem)
  with assms(1) have nb: "\<not> bound (b_used_tokens b) (b_max_tokens b)" "\<not> bound (b_used_usd b) (b_max_usd b)"
    "\<not> bound (b_used_turns b) (b_max_turns b)" "\<not> bound (b_used_wall b + lapsed_worked_secs jd c) (b_max_wall b)"
    by (auto simp: over_budget_def)
  have "\<not> bound (saturating_add (b_used_wall b + unwrap_or w 0) (max 0 0)) (b_max_wall b)"
    using bound_clamp bound_mono nb(4) assms(2) by (metis add_left_mono)
  with nb show ?thesis by (simp add: exceeded_def b')
qed

lemma end_lapsed_claim_dlq:
  assumes "end_lapsed_claim clk t h d st db = Inr db'"
    and "\<And>b. get_budget (charge_wall (t_id t) (worked_secs st d) db) (t_id t) = Some b \<Longrightarrow> exceeded b None = None"
  shows "dlq db' = dlq db"
  using assms(1)
proof (cases rule: end_lapsed_claim_cases)
  case failed
  with assms(2) show ?thesis by force
next
  case expired
  then show ?thesis by (auto simp: append_claim_expired_def and_then_Inr)
qed

lemma over_budget_threads [simp]: "over_budget jd (db\<lparr>threads := x\<rparr>) t = over_budget jd db t"
  by (simp add: over_budget_def)

lemma over_budget_row: "t_id t = t_id c \<Longrightarrow> lapsed_worked_secs jd t = lapsed_worked_secs jd c \<Longrightarrow>
  over_budget jd db t = over_budget jd db c"
  by (simp add: over_budget_def)

text \<open>
  C29: the queue's budget test is at least as strict as the stop it stands in for.  When SQLite reads a
  stored time's whole seconds, a thread \<open>claim_next\<close> takes over from a lapsed claim is never
  dead-lettered by that takeover: charging the lapsed claim's worked time cannot exceed a budget the
  candidate query let through.
\<close>

theorem takeover_never_dead_letters:
  assumes "\<forall>t. jd t div 1000 = t div 1000000"
    and "distinct (map t_id (threads db))"
    and "claim_next_with_event jd g scope clk lease sc m n repo engine lane db = Inr (r, db')"
  shows "dlq db' = dlq db"
proof (cases "claim_next_candidate jd sc m clk (lease_clock g clk) repo engine lane db")
  case None
  with assms show ?thesis by (simp add: claim_next_with_event_def)
next
  case (Some c)
  note c = claim_next_candidate_Some [OF Some]
  let ?give = "give_claim clk m (map_option (\<lambda>s. clk + secs s) n) lease"
  let ?db1 = "db\<lparr>threads := update_where (\<lambda>u. t_id u = t_id c) ?give (threads db)\<rparr>"
  obtain db2 where e: "end_candidate_claim clk c (?give c) ?db1 = Inr db2"
    and a: "append_assignment_event scope clk (?give c) m None None db2 = Inr db'"
    using assms(3) Some take_candidate_ok [OF c(1) assms(2)] by (auto simp: claim_next_with_event_def and_then_Inr)
  have nb: "\<not> over_budget jd ?db1 c" using c(2) by (simp add: eligible_def claimable_def withheld_def)
  have id: "t_id (?give c) = t_id c" by (simp add: give_claim_def)
  have "dlq db2 = dlq ?db1"
  proof (cases "lapsed_claim c")
    case None
    with e show ?thesis by (simp add: end_candidate_claim_def)
  next
    case (Some p)
    obtain h d st where p: "p = (h, d, st)" by (cases p)
    have x: "end_lapsed_claim clk (?give c) h d st ?db1 = Inr db2"
      using e Some p by (simp add: end_candidate_claim_def)
    have le: "unwrap_or (worked_secs st d) 0 \<le> lapsed_worked_secs jd c"
      using worked_within_lapsed assms(1) Some p by blast
    show ?thesis
      by (rule end_lapsed_claim_dlq [OF x]) (use not_over_budget_exceeded [OF nb le] id in simp)
  qed
  moreover have "dlq db' = dlq db2"
    using a by (auto simp: append_assignment_event_def and_then_Inr Let_def split: option.splits)
  ultimately show ?thesis by simp
qed

definition lapsed_store :: queue_db where
  "lapsed_store = (store_with [(give_claim 0 5 (Some (secs 60)) 30 (fresh_thread 7 2))\<lparr>t_work_started_at := Some (secs 2)\<rparr>])
     \<lparr>budgets := [(fresh_budget 7)\<lparr>b_max_wall := Some 59\<rparr>]\<rparr>"

theorem takeover_never_dead_letters_witness:
  "\<exists>r db'. claim_next_with_event (\<lambda>t. t div 1000) 0 None (secs 100) 31 (InWorkspace 1) 6 (Some 60) None None None
     lapsed_store = Inr (Some r, db') \<and> t_id r = 7 \<and> dlq db' = []"
proof -
  let ?r = "claim_next_with_event (\<lambda>t. t div 1000) 0 None (secs 100) 31 (InWorkspace 1) 6 (Some 60) None None None lapsed_store"
  have "isl ?r = False" "map_option t_id (fst (projr ?r)) = Some 7" by code_simp+
  then obtain r db' where r: "?r = Inr (Some r, db')" "t_id r = 7" by (cases ?r) auto
  have j: "\<forall>t. (t div 1000) div 1000 = t div (1000000 :: int)" 
    using zdiv_zmult2_eq [of 1000 _ 1000] by simp
  have d: "distinct (map t_id (threads lapsed_store))" by code_simp
  have z: "dlq lapsed_store = []" by (simp add: lapsed_store_def store_with_def)
  have "dlq db' = dlq lapsed_store" by (rule takeover_never_dead_letters [OF j d r(1)])
  with r z show ?thesis by (intro exI [of _ r] exI [of _ db'] conjI) simp_all
qed

end
