(* ===== verification/Canonical_Json.thy ===== *)
theory Canonical_Json
  imports Hex_Codec "HOL-Library.List_Lexorder" "HOL-Library.Char_ord"
begin

text \<open>
  JSON values and their canonical bytes: \<open>canonical_json\<close> and the credential scan of
  \<open>maidan-types/src/signed_export.rs\<close>, and \<open>normalize_payload_numbers\<close> of
  \<open>maidan-types/src/event_chain.rs\<close>.

  A value has serde\_json's constructors.  An object is the list of its entries in iteration
  order; a number is a \<open>u64\<close>, a negative \<open>i64\<close> or the 64 bits of an \<open>f64\<close>.  How serde\_json
  prints a string and a number is not part of the repository: \<open>ser\<close> and \<open>num\<close> are arguments of
  the definitions, and \<open>string_literals\<close> and \<open>number_literals\<close> below say what is relied on.
\<close>

subsection \<open>Values\<close>

datatype json_number = PosInt "64 word" | NegInt "64 word" | Float "64 word"

datatype json =
    Null
  | Bool bool
  | Number json_number
  | Str string
  | Arr "json list"
  | Obj "(string \<times> json) list"

text \<open>An \<open>f64\<close> by its bits: sign, biased exponent, fraction; a finite one is
  \<open>mantissa * 2 ^ (f64_exp - 1075)\<close> up to sign.\<close>

definition f64_negative :: "64 word \<Rightarrow> bool" where
  "f64_negative f \<longleftrightarrow> bit f 63"

definition f64_exp :: "64 word \<Rightarrow> nat" where
  "f64_exp f = unat (drop_bit 52 f AND 2047)"

definition f64_mantissa :: "64 word \<Rightarrow> nat" where
  "f64_mantissa f = unat (f AND mask 52) + (if f64_exp f = 0 then 0 else 2 ^ 52)"

definition f64_finite :: "64 word \<Rightarrow> bool" where
  "f64_finite f \<longleftrightarrow> f64_exp f \<noteq> 2047"

text \<open>\<open>fract() == 0.0\<close>, and the magnitude rounded toward zero.\<close>

definition f64_whole :: "64 word \<Rightarrow> bool" where
  "f64_whole f \<longleftrightarrow> 2 ^ (1075 - max 1 (f64_exp f)) dvd f64_mantissa f"

definition f64_magnitude :: "64 word \<Rightarrow> nat" where
  "f64_magnitude f =
     f64_mantissa f * 2 ^ (max 1 (f64_exp f) - 1075) div 2 ^ (1075 - max 1 (f64_exp f))"

text \<open>The integer a whole number denotes.\<close>

definition f64_int :: "64 word \<Rightarrow> int" where
  "f64_int f = (if f64_negative f then - int (f64_magnitude f) else int (f64_magnitude f))"

text \<open>The saturating casts \<open>f as u64\<close> and \<open>f as i64\<close>.\<close>

definition f64_as_u64 :: "64 word \<Rightarrow> 64 word" where
  "f64_as_u64 f = of_int (max 0 (min (2 ^ 64 - 1) (f64_int f)))"

definition f64_as_i64 :: "64 word \<Rightarrow> 64 word" where
  "f64_as_i64 f = of_int (max (- (2 ^ 63)) (min (2 ^ 63 - 1) (f64_int f)))"

subsection \<open>Number normalisation\<close>

text \<open>For a whole \<open>f\<close> the comparisons with zero and with \<open>u64::MAX as f64\<close>, which is
  \<open>2 ^ 64\<close>, and \<open>i64::MIN as f64\<close> are comparisons of the integer it denotes.\<close>

definition normalize_number :: "json_number \<Rightarrow> json_number" where
  "normalize_number n =
     (case n of
        PosInt _ \<Rightarrow> n
      | NegInt _ \<Rightarrow> n
      | Float f \<Rightarrow>
          if \<not> f64_finite f \<or> \<not> f64_whole f then n
          else if 0 \<le> f64_int f \<and> f64_int f \<le> 2 ^ 64 then PosInt (f64_as_u64 f)
          else if - (2 ^ 63) \<le> f64_int f \<and> f64_int f < 0 then NegInt (f64_as_i64 f)
          else n)"

fun normalize_payload_numbers :: "json \<Rightarrow> json" where
  "normalize_payload_numbers (Number n) = Number (normalize_number n)"
| "normalize_payload_numbers (Arr items) = Arr (map normalize_payload_numbers items)"
| "normalize_payload_numbers (Obj m) = Obj (map (\<lambda>(k, v). (k, normalize_payload_numbers v)) m)"
| "normalize_payload_numbers v = v"

subsection \<open>Canonical bytes\<close>

fun traverse :: "('a \<Rightarrow> 'e + 'b) \<Rightarrow> 'a list \<Rightarrow> 'e + 'b list" where
  "traverse f [] = Inr []"
| "traverse f (x # xs) = and_then (f x) (\<lambda>y. and_then (traverse f xs) (\<lambda>ys. Inr (y # ys)))"

lemma traverse_cong [fundef_cong]:
  "xs = ys \<Longrightarrow> (\<And>x. x \<in> set ys \<Longrightarrow> f x = g x) \<Longrightarrow> traverse f xs = traverse g ys"
  by (induction xs arbitrary: ys) auto

fun comma_join :: "string list \<Rightarrow> string" where
  "comma_join [] = []"
| "comma_join [s] = s"
| "comma_join (s # t # ss) = s @ '','' @ comma_join (t # ss)"

lemma map_of_size:
  assumes "k \<in> set (sort (map fst m))"
  shows "size (the (map_of m k)) < Suc (size_list (size_prod (\<lambda>_. 0) size) m)"
proof -
  obtain v where v: "map_of m k = Some v"
    using assms by (auto dest: weak_map_of_SomeI)
  then have "(k, v) \<in> set m" by (rule map_of_SomeD)
  then have "size v < Suc (size_list (size_prod (\<lambda>_. 0) size) m)" by (induction m) auto
  then show ?thesis using v by simp
qed

function write_canonical ::
  "(string \<Rightarrow> export_error + string) \<Rightarrow> (json_number \<Rightarrow> string) \<Rightarrow> json \<Rightarrow> export_error + string" where
  "write_canonical ser num Null = Inr ''null''"
| "write_canonical ser num (Bool b) = Inr (if b then ''true'' else ''false'')"
| "write_canonical ser num (Number n) = Inr (num n)"
| "write_canonical ser num (Str s) = ser s"
| "write_canonical ser num (Arr items) =
     and_then (traverse (write_canonical ser num) items) (\<lambda>parts.
     Inr (''['' @ comma_join parts @ '']''))"
| "write_canonical ser num (Obj m) =
     and_then (traverse (\<lambda>k.
       and_then (ser k) (\<lambda>key_json.
       and_then (write_canonical ser num (the (map_of m k))) (\<lambda>v.
       Inr (key_json @ '':'' @ v)))) (sort (map fst m))) (\<lambda>parts.
     Inr (''{'' @ comma_join parts @ ''}''))"
  by pat_completeness auto
termination
proof (relation "measure (\<lambda>(ser, num, v). size v)", goal_cases)
  case (2 ser num items x)
  then show ?case by (induction items) auto
next
  case (3 ser num m k kj)
  then show ?case using map_of_size by fastforce
qed simp

definition canonical_json ::
  "(string \<Rightarrow> export_error + string) \<Rightarrow> (json_number \<Rightarrow> string) \<Rightarrow> json \<Rightarrow> export_error + string" where
  "canonical_json ser num v = write_canonical ser num v"

subsection \<open>Credentials\<close>

definition FORBIDDEN_PAYLOAD_KEYS :: "string list" where
  "FORBIDDEN_PAYLOAD_KEYS =
     [''api_token'', ''api_tokens'', ''client_secret'', ''encryption_key'', ''fsm_hook_secret'',
      ''oidc_client_secret'', ''password'', ''peer_secret'', ''private_key'', ''secret'',
      ''session_secret'', ''slash_secret'', ''token_hash'', ''token_secret'', ''tokens'',
      ''vapid_private_key'', ''webhook_secret'']"

fun for_each :: "('a \<Rightarrow> 'e + unit) \<Rightarrow> 'a list \<Rightarrow> 'e + unit" where
  "for_each f [] = Inr ()"
| "for_each f (x # xs) = and_then (f x) (\<lambda>_. for_each f xs)"

lemma for_each_cong [fundef_cong]:
  "xs = ys \<Longrightarrow> (\<And>x. x \<in> set ys \<Longrightarrow> f x = g x) \<Longrightarrow> for_each f xs = for_each g ys"
  by (induction xs arbitrary: ys) auto

fun walk_reject :: "json \<Rightarrow> export_error + unit" where
  "walk_reject (Obj m) =
     for_each (\<lambda>(key, child).
       if key \<in> set FORBIDDEN_PAYLOAD_KEYS then Inl (ForbiddenField key) else walk_reject child) m"
| "walk_reject (Arr items) = for_each walk_reject items"
| "walk_reject _ = Inr ()"

definition reject_export_secrets :: "json \<Rightarrow> export_error + unit" where
  "reject_export_secrets payload = walk_reject payload"

subsection \<open>Normalisation\<close>

definition number_int :: "json_number \<Rightarrow> int option" where
  "number_int n =
     (case n of
        PosInt w \<Rightarrow> Some (uint w)
      | NegInt w \<Rightarrow> Some (sint w)
      | Float f \<Rightarrow> if f64_finite f \<and> f64_whole f then Some (f64_int f) else None)"

text \<open>What serde\_json's constructors guarantee: \<open>NegInt\<close> holds a negative number and no \<open>Float\<close>
  is infinite or not a number; an object has one entry per key.\<close>

definition wf_number :: "json_number \<Rightarrow> bool" where
  "wf_number n = (case n of PosInt _ \<Rightarrow> True | NegInt w \<Rightarrow> bit w 63 | Float f \<Rightarrow> f64_finite f)"

fun wf_json :: "json \<Rightarrow> bool" where
  "wf_json (Number n) = wf_number n"
| "wf_json (Arr items) = list_all wf_json items"
| "wf_json (Obj m) = (distinct (map fst m) \<and> list_all (\<lambda>(k, v). wf_json v) m)"
| "wf_json _ = True"

lemma uint_as_u64:
  assumes "0 \<le> f64_int f" "f64_int f \<le> 2 ^ 64"
  shows "uint (f64_as_u64 f) = (if f64_int f = 2 ^ 64 then 2 ^ 64 - 1 else f64_int f)"
proof -
  have "uint (of_int i :: 64 word) = i" if "0 \<le> i" "i < 2 ^ 64" for i
    using that by (simp add: uint_word_of_int)
  then show ?thesis using assms by (simp add: f64_as_u64_def)
qed

lemma sint_as_i64:
  assumes "- (2 ^ 63) \<le> f64_int f" "f64_int f < 0"
  shows "sint (f64_as_i64 f) = f64_int f"
proof -
  have "sint (of_int i :: 64 word) = i" if "- (2 ^ 63) \<le> i" "i < 0" for i
    using that signed_take_bit_int_eq_self [of 63 i] by (simp add: sint_sbintrunc')
  then show ?thesis using assms by (simp add: f64_as_i64_def)
qed

lemma number_int_normalize:
  "number_int (normalize_number n) = map_option (\<lambda>i. if i = 2 ^ 64 then 2 ^ 64 - 1 else i) (number_int n)"
proof (cases n)
  case (PosInt w)
  have "uint w < 2 ^ 64" using uint_lt2p [of w] by simp
  then show ?thesis using PosInt by (simp add: normalize_number_def number_int_def)
next
  case (NegInt w)
  have "sint w < 2 ^ 64" using sint_lt [of w] by simp
  then show ?thesis using NegInt by (simp add: normalize_number_def number_int_def)
next
  case (Float f)
  then show ?thesis
    using uint_as_u64 [of f] sint_as_i64 [of f]
    by (auto simp: normalize_number_def number_int_def)
qed

lemma normalize_number_int:
  assumes "wf_number n" "number_int n = Some i" "- (2 ^ 63) \<le> i" "i < 2 ^ 64"
  shows "normalize_number n = (if 0 \<le> i then PosInt (of_int i) else NegInt (of_int i))"
proof (cases n)
  case (PosInt w)
  then show ?thesis using assms by (auto simp: normalize_number_def number_int_def)
next
  case (NegInt w)
  then have "sint w < 0" using assms(1) by (simp add: wf_number_def bit_last_iff [symmetric])
  then show ?thesis using NegInt assms by (auto simp: normalize_number_def number_int_def)
next
  case (Float f)
  then have "f64_finite f" "f64_whole f" "f64_int f = i"
    using assms(2) by (auto simp: number_int_def split: if_splits)
  then show ?thesis
    using Float assms(3,4)
    by (auto simp: normalize_number_def f64_as_u64_def f64_as_i64_def)
qed

lemma normalize_number_idem: "normalize_number (normalize_number n) = normalize_number n"
  by (cases n) (auto simp: normalize_number_def)

lemma normalize_payload_numbers_idem:
  "normalize_payload_numbers (normalize_payload_numbers v) = normalize_payload_numbers v"
  by (induction v rule: normalize_payload_numbers.induct)
    (auto simp: normalize_number_idem)

lemma normalize_number_wf: "wf_number n \<Longrightarrow> wf_number (normalize_number n)"
  using sint_as_i64 bit_last_iff [of "f64_as_i64 f" for f]
  by (cases n) (auto simp: wf_number_def normalize_number_def)

lemma normalize_keeps_wf: "wf_json v \<Longrightarrow> wf_json (normalize_payload_numbers v)"
proof (induction v rule: normalize_payload_numbers.induct)
  case (3 m)
  have "map fst (map (\<lambda>(k, v). (k, normalize_payload_numbers v)) m) = map fst m"
    by (induction m) auto
  moreover have "list_all (\<lambda>(k, v). wf_json v) (map (\<lambda>(k, v). (k, normalize_payload_numbers v)) m)"
    using 3 by (auto simp: list_all_iff)
  ultimately show ?case
    using 3(2) unfolding normalize_payload_numbers.simps wf_json.simps by presburger
qed (auto simp: normalize_number_wf list_all_iff)

subsection \<open>Sameness of values\<close>

text \<open>Equality of \<open>serde_json::Value\<close>: objects are equal as maps.\<close>

inductive same_json :: "json \<Rightarrow> json \<Rightarrow> bool" where
  same_null: "same_json Null Null"
| same_bool: "same_json (Bool b) (Bool b)"
| same_number: "same_json (Number n) (Number n)"
| same_str: "same_json (Str s) (Str s)"
| same_arr: "list_all2 same_json xs ys \<Longrightarrow> same_json (Arr xs) (Arr ys)"
| same_obj: "set (map fst m) = set (map fst n) \<Longrightarrow>
    (\<And>k. k \<in> set (map fst m) \<Longrightarrow> same_json (the (map_of m k)) (the (map_of n k))) \<Longrightarrow>
    same_json (Obj m) (Obj n)"

lemma wf_lookup: "wf_json (Obj m) \<Longrightarrow> k \<in> set (map fst m) \<Longrightarrow> wf_json (the (map_of m k))"
  by (auto simp: list_all_iff)

lemma same_write:
  "same_json v w \<Longrightarrow> wf_json v \<Longrightarrow> wf_json w \<Longrightarrow> write_canonical ser num v = write_canonical ser num w"
proof (induction rule: same_json.induct)
  case (same_arr xs ys)
  have "traverse (write_canonical ser num) xs = traverse (write_canonical ser num) ys"
    using same_arr by (induction xs ys rule: list_all2_induct) auto
  then show ?case by simp
next
  case (same_obj m n)
  have "sort (map fst m) = sort (map fst n)"
    using same_obj(1,4,5) by (intro sorted_distinct_set_unique) simp_all
  moreover have "write_canonical ser num (the (map_of m k)) = write_canonical ser num (the (map_of n k))"
    if "k \<in> set (map fst m)" for k
    using same_obj that wf_lookup by metis
  ultimately have "traverse (\<lambda>k. and_then (ser k) (\<lambda>kj.
         and_then (write_canonical ser num (the (map_of m k))) (\<lambda>v. Inr (kj @ '':'' @ v)))) (sort (map fst m))
      = traverse (\<lambda>k. and_then (ser k) (\<lambda>kj.
         and_then (write_canonical ser num (the (map_of n k))) (\<lambda>v. Inr (kj @ '':'' @ v)))) (sort (map fst n))"
    using same_obj(1) by (intro traverse_cong) simp_all
  then show ?case by simp
qed simp_all

subsection \<open>Canonical bytes determine the value\<close>

text \<open>What is relied on of serde\_json: a string prints as a quoted literal that says itself where it
  ends, different strings differently; numbers print without JSON punctuation, different numbers
  differently.\<close>

definition string_literals :: "(string \<Rightarrow> export_error + string) \<Rightarrow> bool" where
  "string_literals ser \<longleftrightarrow>
     (\<forall>s. \<exists>e. ser s = Inr (CHR 0x22 # e)) \<and>
     (\<forall>s t e f x y. ser s = Inr e \<longrightarrow> ser t = Inr f \<longrightarrow> e @ x = f @ y \<longrightarrow> s = t \<and> x = y)"

definition number_chars :: string where
  "number_chars = ''+-.0123456789Ee''"

definition number_literals :: "(json_number \<Rightarrow> string) \<Rightarrow> bool" where
  "number_literals num \<longleftrightarrow>
     inj_on num {n. wf_number n} \<and>
     (\<forall>n. wf_number n \<longrightarrow> num n \<noteq> [] \<and> set (num n) \<subseteq> set number_chars)"

text \<open>What can follow a value inside canonical bytes.\<close>

definition stop :: "string \<Rightarrow> bool" where
  "stop x \<longleftrightarrow> x = [] \<or> hd x \<in> set '',]}''"

lemma comma_join_Cons: "comma_join (p # ps) = p @ concat (map (Cons CHR '','') ps)"
  by (induction ps arbitrary: p) simp_all

lemma stop_Cons [simp]: "stop (c # x) \<longleftrightarrow> c \<in> set '',]}''"
  by (simp add: stop_def)

lemma stop_tail:
  assumes "c \<in> set '']}''"
  shows "stop (concat (map (Cons CHR '','') ps) @ c # x)"
  using assms by (cases ps) auto

lemma tails_prefix:
  assumes "\<And>a b x y. a \<in> set A \<Longrightarrow> b \<in> set B \<Longrightarrow> stop x \<Longrightarrow> stop y \<Longrightarrow> p a @ x = q b @ y \<Longrightarrow> R a b \<and> x = y"
    and "concat (map (Cons CHR '','') (map p A)) @ c # x = concat (map (Cons CHR '','') (map q B)) @ c # y"
    and "c \<in> set '']}''"
  shows "list_all2 R A B \<and> x = y"
  using assms(1,2)
proof (induction A arbitrary: B)
  case Nil
  then show ?case using assms(3) by (cases B) auto
next
  case (Cons a A)
  then obtain b B' where B: "B = b # B'" using assms(3) by (cases B) auto
  let ?x = "concat (map (Cons CHR '','') (map p A)) @ c # x"
  let ?y = "concat (map (Cons CHR '','') (map q B')) @ c # y"
  have "p a @ ?x = q b @ ?y" using Cons.prems(2) B by simp
  moreover have "stop ?x" "stop ?y" by (rule stop_tail [OF assms(3)])+
  ultimately have "R a b \<and> ?x = ?y"
    using Cons.prems(1) [of a b ?x ?y] B by simp
  moreover have "list_all2 R A B' \<and> x = y" if eq: "?x = ?y"
  proof (rule Cons.IH [OF _ eq])
    fix a b x y
    assume "a \<in> set A" "b \<in> set B'" "stop x" "stop y" "p a @ x = q b @ y"
    then show "R a b \<and> x = y" using Cons.prems(1) [of a b x y] B by simp
  qed
  ultimately show ?case using B by simp
qed

lemma joined_prefix:
  assumes step: "\<And>a b x y. a \<in> set A \<Longrightarrow> b \<in> set B \<Longrightarrow> stop x \<Longrightarrow> stop y \<Longrightarrow> p a @ x = q b @ y \<Longrightarrow> R a b \<and> x = y"
    and eq: "comma_join (map p A) @ c # x = comma_join (map q B) @ c # y"
    and c: "c \<in> set '']}''"
    and heads: "\<And>a. a \<in> set A \<Longrightarrow> \<not> stop (p a)" "\<And>b. b \<in> set B \<Longrightarrow> \<not> stop (q b)"
  shows "list_all2 R A B \<and> x = y"
proof (cases "A = [] \<or> B = []")
  case True
  have no: "u @ z \<noteq> c # w" if "\<not> stop u" for u z w
    using that c by (cases u) (auto simp: stop_def)
  have "A = []"
  proof (rule ccontr)
    assume "A \<noteq> []"
    then obtain a A' where "A = a # A'" "B = []" using True by (cases A) auto
    then show False
      using eq heads(1) [of a] no [of "p a" "concat (map (Cons CHR '','') (map p A')) @ c # x" y]
      by (simp add: comma_join_Cons)
  qed
  moreover have "B = []"
  proof (rule ccontr)
    assume "B \<noteq> []"
    then obtain b B' where "B = b # B'" by (cases B) auto
    then show False
      using eq \<open>A = []\<close> heads(2) [of b] no [of "q b" "concat (map (Cons CHR '','') (map q B')) @ c # y" x]
      by (simp add: comma_join_Cons)
  qed
  ultimately show ?thesis using eq by simp
next
  case False
  have "concat (map (Cons CHR '','') (map p A)) @ c # x = concat (map (Cons CHR '','') (map q B)) @ c # y"
    using eq False by (cases A; cases B) (simp_all add: comma_join_Cons)
  then show ?thesis using tails_prefix [of A B p q R c x y] step c by blast
qed

text \<open>With \<open>string_literals\<close> every value prints; \<open>printed\<close> names its bytes.\<close>

abbreviation printed ::
  "(string \<Rightarrow> export_error + string) \<Rightarrow> (json_number \<Rightarrow> string) \<Rightarrow> json \<Rightarrow> string" where
  "printed ser num v \<equiv> projr (write_canonical ser num v)"

abbreviation entry ::
  "(string \<Rightarrow> export_error + string) \<Rightarrow> (json_number \<Rightarrow> string) \<Rightarrow> (string \<times> json) list \<Rightarrow> string \<Rightarrow> string" where
  "entry ser num m k \<equiv> projr (ser k) @ '':'' @ printed ser num (the (map_of m k))"

lemma traverse_total:
  "(\<And>x. x \<in> set xs \<Longrightarrow> f x = Inr (g x)) \<Longrightarrow> traverse f xs = Inr (map g xs)"
  by (induction xs) auto

lemma string_literals_Inr: "string_literals ser \<Longrightarrow> ser s = Inr (projr (ser s))"
  unfolding string_literals_def by (metis sum.sel(2))

lemma traverse_entries:
  assumes "string_literals ser"
    and "\<And>k. k \<in> set ks \<Longrightarrow> write_canonical ser num (the (map_of m k)) = Inr (printed ser num (the (map_of m k)))"
  shows "traverse (\<lambda>k. and_then (ser k) (\<lambda>kj.
      and_then (write_canonical ser num (the (map_of m k))) (\<lambda>v. Inr (kj @ '':'' @ v)))) ks
    = Inr (map (entry ser num m) ks)"
proof (rule traverse_total)
  fix k assume k: "k \<in> set ks"
  obtain a b where "ser k = Inr a" "write_canonical ser num (the (map_of m k)) = Inr b"
    using string_literals_Inr [OF assms(1), of k] assms(2) [OF k] by blast
  then show "and_then (ser k) (\<lambda>kj.
      and_then (write_canonical ser num (the (map_of m k))) (\<lambda>v. Inr (kj @ '':'' @ v)))
    = Inr (entry ser num m k)"
    by simp
qed

lemma write_printed:
  "string_literals ser \<Longrightarrow> write_canonical ser num v = Inr (printed ser num v)"
proof (induction ser num v rule: write_canonical.induct)
  case (4 ser num s)
  then show ?case using string_literals_Inr by simp
next
  case (5 ser num items)
  then have "traverse (write_canonical ser num) items = Inr (map (printed ser num) items)"
    by (intro traverse_total) simp
  then show ?case by simp
next
  case (6 ser num m)
  have "write_canonical ser num (the (map_of m k)) = Inr (printed ser num (the (map_of m k)))"
    if "k \<in> set (sort (map fst m))" for k
    using 6(1) [OF that string_literals_Inr [OF 6(2)]] 6(2) by blast
  from traverse_entries [of ser "sort (map fst m)" num m, OF 6(2) this] show ?case by simp
qed simp_all

lemma printed_Arr:
  assumes "string_literals ser"
  shows "printed ser num (Arr xs) = ''['' @ comma_join (map (printed ser num) xs) @ '']''"
proof -
  have "traverse (write_canonical ser num) xs = Inr (map (printed ser num) xs)"
    by (rule traverse_total) (rule write_printed [OF assms])
  then show ?thesis by simp
qed

lemma printed_Obj:
  assumes "string_literals ser"
  shows "printed ser num (Obj m) = ''{'' @ comma_join (map (entry ser num m) (sort (map fst m))) @ ''}''"
  using traverse_entries [of ser "sort (map fst m)" num m, OF assms write_printed [OF assms]] by simp

text \<open>The first character tells the constructor.\<close>

fun first_chars :: "json \<Rightarrow> string" where
  "first_chars Null = ''n''"
| "first_chars (Bool b) = (if b then ''t'' else ''f'')"
| "first_chars (Number n) = number_chars"
| "first_chars (Str s) = [CHR 0x22]"
| "first_chars (Arr xs) = ''[''"
| "first_chars (Obj m) = ''{''"

lemma printed_first:
  assumes ser: "string_literals ser" and num: "number_literals num" and wf: "wf_json v"
  shows "\<exists>c s. printed ser num v = c # s \<and> c \<in> set (first_chars v)"
proof (cases v)
  case (Number n)
  then have "num n \<noteq> []" "set (num n) \<subseteq> set number_chars"
    using num wf by (auto simp: number_literals_def)
  then show ?thesis using Number by (cases "num n") auto
next
  case (Str s)
  obtain e where "ser s = Inr (CHR 0x22 # e)" using ser unfolding string_literals_def by blast
  then show ?thesis using Str by simp
next
  case (Arr xs)
  then show ?thesis using printed_Arr [OF ser] by simp
next
  case (Obj m)
  then show ?thesis using printed_Obj [OF ser] by simp
qed simp_all

lemma printed_not_stop:
  assumes "string_literals ser" "number_literals num" "wf_json v"
  shows "\<not> stop (printed ser num v)"
proof -
  have "set (first_chars v) \<inter> set '',]}'' = {}"
    by (cases v) (auto simp: number_chars_def)
  then show ?thesis
    using printed_first [OF assms] by (auto simp del: set_simps)
qed

lemma entry_not_stop:
  assumes "string_literals ser"
  shows "\<not> stop (entry ser num m k)"
proof -
  obtain e where "ser k = Inr (CHR 0x22 # e)" using assms unfolding string_literals_def by blast
  then show ?thesis by simp
qed

lemma number_prefix:
  assumes "number_literals num" "wf_number n" "wf_number n'" "num n @ x = num n' @ y" "stop x" "stop y"
  shows "n = n' \<and> x = y"
proof -
  have *: "takeWhile (\<lambda>c. c \<in> set number_chars) (num k @ z) = num k"
    if "wf_number k" "stop z" for k z
  proof -
    have "set (num k) \<subseteq> set number_chars" using assms(1) that(1) by (simp add: number_literals_def)
    moreover have "takeWhile (\<lambda>c. c \<in> set number_chars) z = []"
      using that(2) by (cases z) (auto simp: number_chars_def)
    ultimately show ?thesis by (simp add: takeWhile_append subset_iff)
  qed
  have "num n = num n'" using * [of n x] * [of n' y] assms by simp
  then show ?thesis
    using assms by (auto simp: number_literals_def dest: inj_onD)
qed

lemma string_prefix:
  assumes "string_literals ser" "projr (ser s) @ x = projr (ser t) @ y"
  shows "s = t \<and> x = y"
  using assms string_literals_Inr [OF assms(1)] unfolding string_literals_def by blast

lemma arr_prefix:
  assumes ser: "string_literals ser" and num: "number_literals num"
    and wf: "wf_json (Arr xs)" "wf_json (Arr ys)"
    and IH: "\<And>v w x y. v \<in> set xs \<Longrightarrow> w \<in> set ys \<Longrightarrow> stop x \<Longrightarrow> stop y \<Longrightarrow>
      printed ser num v @ x = printed ser num w @ y \<Longrightarrow> same_json v w \<and> x = y"
    and eq: "printed ser num (Arr xs) @ x = printed ser num (Arr ys) @ y"
  shows "same_json (Arr xs) (Arr ys) \<and> x = y"
proof -
  have "comma_join (map (printed ser num) xs) @ CHR '']'' # x
      = comma_join (map (printed ser num) ys) @ CHR '']'' # y"
    using eq unfolding printed_Arr [OF ser] by simp
  then have "list_all2 same_json xs ys \<and> x = y"
  proof (rule joined_prefix [rotated])
    show "\<not> stop (printed ser num v)" if "v \<in> set xs" for v
      using wf(1) that by (intro printed_not_stop ser num) (simp add: list_all_iff)
    show "\<not> stop (printed ser num v)" if "v \<in> set ys" for v
      using wf(2) that by (intro printed_not_stop ser num) (simp add: list_all_iff)
  qed (use IH in simp_all)
  then show ?thesis by (simp add: same_arr)
qed

lemma obj_prefix:
  assumes ser: "string_literals ser"
    and IH: "\<And>k x y. k \<in> set (map fst m) \<Longrightarrow> k \<in> set (map fst n) \<Longrightarrow> stop x \<Longrightarrow> stop y \<Longrightarrow>
      printed ser num (the (map_of m k)) @ x = printed ser num (the (map_of n k)) @ y \<Longrightarrow>
      same_json (the (map_of m k)) (the (map_of n k)) \<and> x = y"
    and eq: "printed ser num (Obj m) @ x = printed ser num (Obj n) @ y"
  shows "same_json (Obj m) (Obj n) \<and> x = y"
proof -
  let ?R = "\<lambda>k l. k = l \<and> same_json (the (map_of m k)) (the (map_of n l))"
  have "comma_join (map (entry ser num m) (sort (map fst m))) @ CHR ''}'' # x
      = comma_join (map (entry ser num n) (sort (map fst n))) @ CHR ''}'' # y"
    using eq unfolding printed_Obj [OF ser] by simp
  then have R: "list_all2 ?R (sort (map fst m)) (sort (map fst n)) \<and> x = y"
  proof (rule joined_prefix [rotated])
    fix k l x y
    assume k: "k \<in> set (sort (map fst m))" and l: "l \<in> set (sort (map fst n))"
      and stops: "stop x" "stop y" and e: "entry ser num m k @ x = entry ser num n l @ y"
    have kl: "k = l \<and> '':'' @ printed ser num (the (map_of m k)) @ x = '':'' @ printed ser num (the (map_of n l)) @ y"
      using e by (intro string_prefix [OF ser]) simp
    then have "printed ser num (the (map_of m k)) @ x = printed ser num (the (map_of n k)) @ y" by auto
    then show "?R k l \<and> x = y" using IH [of k x y] k l stops kl by simp
  qed (use entry_not_stop [OF ser] in simp_all)
  then have "sort (map fst m) = sort (map fst n)"
    by (simp add: list_all2_conv_all_nth list_eq_iff_nth_eq)
  then have keys: "set (map fst m) = set (map fst n)"
    by (metis set_sort)
  have "same_json (the (map_of m k)) (the (map_of n k))" if "k \<in> set (map fst m)" for k
  proof -
    have "k \<in> set (sort (map fst m))" using that by simp
    then obtain i where "i < length (sort (map fst m))" "sort (map fst m) ! i = k"
      unfolding in_set_conv_nth by blast
    then show ?thesis using R by (auto simp: list_all2_conv_all_nth)
  qed
  then show ?thesis using same_obj [OF keys] R by blast
qed

lemma printed_prefix:
  assumes ser: "string_literals ser" and num: "number_literals num"
  shows "wf_json v \<Longrightarrow> wf_json w \<Longrightarrow> stop x \<Longrightarrow> stop y \<Longrightarrow>
    printed ser num v @ x = printed ser num w @ y \<Longrightarrow> same_json v w \<and> x = y"
proof (induction "size v" arbitrary: v w x y rule: less_induct)
  case less
  obtain c s where vc: "printed ser num v = c # s" "c \<in> set (first_chars v)"
    using printed_first [OF ser num less.prems(1)] by blast
  obtain d t where wd: "printed ser num w = d # t" "d \<in> set (first_chars w)"
    using printed_first [OF ser num less.prems(2)] by blast
  have cw: "c \<in> set (first_chars w)" using vc wd less.prems(5) by simp
  show ?case
  proof (cases v)
    case Null
    then have "w = Null" using vc(2) cw by (cases w) (auto simp: number_chars_def split: if_splits)
    then show ?thesis using Null less.prems(5) by (simp add: same_null)
  next
    case (Bool b)
    then have "w = Bool b"
      using vc(2) cw by (cases w) (auto simp: number_chars_def split: if_splits)
    then show ?thesis using Bool less.prems(5) by (simp add: same_bool)
  next
    case (Number n)
    then obtain n' where w: "w = Number n'"
      using vc(2) cw by (cases w) (auto simp: number_chars_def split: if_splits)
    then show ?thesis
      using Number less.prems number_prefix [OF num, of n n' x y] by (simp add: same_number)
  next
    case (Str u)
    then obtain u' where w: "w = Str u'"
      using vc(2) cw by (cases w) (auto simp: number_chars_def split: if_splits)
    then show ?thesis
      using Str less.prems string_prefix [OF ser, of u x u' y] by (simp add: same_str)
  next
    case (Arr xs)
    then obtain ys where w: "w = Arr ys"
      using vc(2) cw by (cases w) (auto simp: number_chars_def split: if_splits)
    have IH: "same_json a b \<and> x = y"
      if "a \<in> set xs" "b \<in> set ys" "stop x" "stop y" "printed ser num a @ x = printed ser num b @ y"
      for a b x y
    proof (rule less.hyps [OF _ _ _ that(3,4,5)])
      show "size a < size v" using that(1) Arr size_list_estimation' [of a xs "size a" size] by simp
    qed (use that less.prems Arr w in \<open>simp_all add: list_all_iff\<close>)
    show ?thesis
      unfolding Arr w
    proof (rule arr_prefix [OF ser num])
      show "wf_json (Arr xs)" "wf_json (Arr ys)" using less.prems(1,2) Arr w by simp_all
      show "printed ser num (Arr xs) @ x = printed ser num (Arr ys) @ y"
        using less.prems(5) unfolding Arr w .
    qed (rule IH)
  next
    case (Obj m)
    then obtain n where w: "w = Obj n"
      using vc(2) cw by (cases w) (auto simp: number_chars_def split: if_splits)
    have IH: "same_json (the (map_of m k)) (the (map_of n k)) \<and> x = y"
      if k: "k \<in> set (map fst m)" "k \<in> set (map fst n)" and "stop x" "stop y"
        and "printed ser num (the (map_of m k)) @ x = printed ser num (the (map_of n k)) @ y" for k x y
    proof (rule less.hyps [OF _ _ _ that(3,4,5)])
      show "size (the (map_of m k)) < size v" using map_of_size [of k m] k Obj by simp
      show "wf_json (the (map_of m k))" using wf_lookup k(1) less.prems(1) Obj by blast
      show "wf_json (the (map_of n k))" using wf_lookup k(2) less.prems(2) w by blast
    qed
    show ?thesis
      unfolding Obj w
    proof (rule obj_prefix [OF ser])
      show "printed ser num (Obj m) @ x = printed ser num (Obj n) @ y"
        using less.prems(5) unfolding Obj w .
    qed (rule IH)
  qed
qed

subsection \<open>A concrete printer\<close>

text \<open>Quoted, with the quote and the backslash escaped; numbers in decimal, a float by its bits.
  It shows that the two conditions can hold.\<close>

fun json_escape :: "string \<Rightarrow> string" where
  "json_escape [] = []"
| "json_escape (c # s) =
     (if c = CHR 0x22 \<or> c = CHR 0x5C then CHR 0x5C # c # json_escape s else c # json_escape s)"

definition json_quote :: "string \<Rightarrow> export_error + string" where
  "json_quote s = Inr (CHR 0x22 # json_escape s @ [CHR 0x22])"

definition json_num :: "json_number \<Rightarrow> string" where
  "json_num n =
     (case n of
        PosInt w \<Rightarrow> to_radix 10 (unat w)
      | NegInt w \<Rightarrow> CHR ''-'' # to_radix 10 (unat w)
      | Float f \<Rightarrow> CHR ''.'' # to_radix 10 (unat f))"

lemma json_escape_prefix:
  "json_escape s @ CHR 0x22 # x = json_escape t @ CHR 0x22 # y \<Longrightarrow> s = t \<and> x = y"
proof (induction s arbitrary: t)
  case Nil
  then show ?case by (cases t) (auto split: if_splits)
next
  case (Cons c s)
  then show ?case by (cases t) (auto split: if_splits)
qed

lemma json_quote_literals: "string_literals json_quote"
  unfolding string_literals_def
proof (intro conjI allI impI)
  show "\<exists>e. json_quote s = Inr (CHR 0x22 # e)" for s by (simp add: json_quote_def)
  fix s t e f x y
  assume "json_quote s = Inr e" "json_quote t = Inr f" "e @ x = f @ y"
  then have "json_escape s @ CHR 0x22 # x = json_escape t @ CHR 0x22 # y"
    by (auto simp: json_quote_def)
  then show "s = t" "x = y" by (auto dest: json_escape_prefix)
qed

lemma decimal_chars: "set (to_radix 10 n) \<subseteq> set ''0123456789''"
proof
  fix c assume "c \<in> set (to_radix 10 n)"
  then obtain k where "k < 10" "c = upper_digit k" using to_radix_digits [of 10 c n] by auto
  then show "c \<in> set ''0123456789''"
    using less_16_cases [of k] by (auto simp: upper_digit_def)
qed

lemma json_num_literals: "number_literals json_num"
proof -
  have no: "to_radix 10 n \<noteq> c # s" if "c \<notin> set ''0123456789''" for n c s
    using decimal_chars [of n] that by force
  have w: "a = b" if "to_radix 10 (unat a) = to_radix 10 (unat b)" for a b :: "64 word"
    using to_radix_inj [of 10, OF _ _ that] by (simp add: word_unat_eq_iff)
  have "inj_on json_num {n. wf_number n}"
  proof (rule inj_onI)
    fix m n assume "json_num m = json_num n"
    then show "m = n"
      using no [of "CHR ''-''"] no [of "CHR ''.''"]
      by (cases m; cases n) (auto simp: json_num_def intro: w dest: sym)
  qed
  moreover have "set (json_num n) \<subseteq> set number_chars" for n
    using decimal_chars by (cases n) (force simp: json_num_def number_chars_def)+
  moreover have "json_num n \<noteq> []" for n
    by (cases n) (simp_all add: json_num_def)
  ultimately show ?thesis by (simp add: number_literals_def)
qed

subsection \<open>Properties\<close>

fun all_keys :: "json \<Rightarrow> string list" where
  "all_keys (Obj m) = concat (map (\<lambda>(k, v). k # all_keys v) m)"
| "all_keys (Arr items) = concat (map all_keys items)"
| "all_keys _ = []"

lemma for_each_ok: "for_each f xs = Inr () \<longleftrightarrow> list_all (\<lambda>x. f x = Inr ()) xs"
  by (induction xs) (auto simp: and_then_Inr)

lemma list_all_concat_map: "list_all P (concat (map g xs)) \<longleftrightarrow> list_all (\<lambda>x. list_all P (g x)) xs"
  by (induction xs) auto

lemma walk_reject_ok:
  "walk_reject v = Inr () \<longleftrightarrow> list_all (\<lambda>k. k \<notin> set FORBIDDEN_PAYLOAD_KEYS) (all_keys v)"
proof (induction v rule: walk_reject.induct)
  case (1 m)
  show ?case
    unfolding walk_reject.simps all_keys.simps for_each_ok list_all_concat_map
  proof (rule list.pred_cong [OF refl])
    fix e assume e: "e \<in> set m"
    obtain k c where kc: "e = (k, c)" by (cases e)
    show "((case e of (key, child) \<Rightarrow>
            if key \<in> set FORBIDDEN_PAYLOAD_KEYS then Inl (ForbiddenField key) else walk_reject child) = Inr ())
        = list_all (\<lambda>k. k \<notin> set FORBIDDEN_PAYLOAD_KEYS) (case e of (k, v) \<Rightarrow> k # all_keys v)"
      using 1 [OF e kc [symmetric]] kc by simp
  qed
next
  case (2 items)
  then show ?case
    unfolding walk_reject.simps all_keys.simps for_each_ok list_all_concat_map
    by (intro list.pred_cong refl)
qed simp_all

lemma for_each_error: "for_each f xs = Inl e \<Longrightarrow> \<exists>x \<in> set xs. f x = Inl e"
  by (induction xs) (auto simp: and_then_Inl)

lemma walk_reject_error:
  "walk_reject v = Inl e \<Longrightarrow> \<exists>k. e = ForbiddenField k \<and> k \<in> set (all_keys v) \<and> k \<in> set FORBIDDEN_PAYLOAD_KEYS"
proof (induction v rule: walk_reject.induct)
  case (1 m)
  then obtain k c where kc: "(k, c) \<in> set m"
    "(if k \<in> set FORBIDDEN_PAYLOAD_KEYS then Inl (ForbiddenField k) else walk_reject c) = Inl e"
    by (auto dest!: for_each_error)
  then have sub: "k \<in> set (all_keys (Obj m))" "set (all_keys c) \<subseteq> set (all_keys (Obj m))" by force+
  show ?case
  proof (cases "k \<in> set FORBIDDEN_PAYLOAD_KEYS")
    case True
    then show ?thesis using kc(2) sub(1) by auto
  next
    case False
    then have "\<exists>k. e = ForbiddenField k \<and> k \<in> set (all_keys c) \<and> k \<in> set FORBIDDEN_PAYLOAD_KEYS"
      using 1(1) [OF kc(1) refl False] kc(2) by simp
    then show ?thesis using sub(2) by blast
  qed
next
  case (2 items)
  then obtain c where c: "c \<in> set items" "walk_reject c = Inl e"
    by (auto dest!: for_each_error)
  then have "set (all_keys c) \<subseteq> set (all_keys (Arr items))" by force
  then show ?case using 2(1) [OF c] by blast
qed simp_all

text \<open>C26: \<open>canonical_json\<close> is canonical.  For any way of printing strings and numbers that meets
  what is relied on of serde\_json, two values have the same canonical bytes exactly when they are
  equal as JSON: the order in which an object's entries are kept never shows, and nothing else is
  lost, so a hash of the bytes is a hash of the value.\<close>

theorem canonical_json_decides_equality:
  assumes "string_literals ser" "number_literals num" "wf_json v" "wf_json w"
  shows "canonical_json ser num v = canonical_json ser num w \<longleftrightarrow> same_json v w"
proof
  assume "canonical_json ser num v = canonical_json ser num w"
  then show "same_json v w"
    using printed_prefix [OF assms, of "[]" "[]"] by (simp add: canonical_json_def stop_def)
next
  assume "same_json v w"
  then show "canonical_json ser num v = canonical_json ser num w"
    using assms(3,4) by (simp add: canonical_json_def same_write)
qed

theorem canonical_json_decides_equality_witness:
  "same_json (Obj [(''b'', Arr [Null]), (''a'', Str ''x'')]) (Obj [(''a'', Str ''x''), (''b'', Arr [Null])])
   \<and> \<not> same_json (Obj [(''a'', Str ''1'')]) (Obj [(''a'', Number (PosInt 1))])"
proof
  have "canonical_json json_quote json_num (Obj [(''b'', Arr [Null]), (''a'', Str ''x'')])
      = canonical_json json_quote json_num (Obj [(''a'', Str ''x''), (''b'', Arr [Null])])"
    by code_simp
  then show "same_json (Obj [(''b'', Arr [Null]), (''a'', Str ''x'')]) (Obj [(''a'', Str ''x''), (''b'', Arr [Null])])"
    using canonical_json_decides_equality [OF json_quote_literals json_num_literals] by simp
  have "canonical_json json_quote json_num (Obj [(''a'', Str ''1'')])
      \<noteq> canonical_json json_quote json_num (Obj [(''a'', Number (PosInt 1))])"
    by code_simp
  then show "\<not> same_json (Obj [(''a'', Str ''1'')]) (Obj [(''a'', Number (PosInt 1))])"
    using canonical_json_decides_equality [OF json_quote_literals json_num_literals,
        of "Obj [(''a'', Str ''1'')]" "Obj [(''a'', Number (PosInt 1))]"]
    by (simp add: wf_number_def)
qed

lemmas f64_evals = number_int_def wf_number_def f64_finite_def f64_whole_def f64_int_def
  f64_magnitude_def f64_mantissa_def f64_exp_def f64_negative_def mask_eq_exp_minus_1

text \<open>Number normalisation gives every whole number in the range of the integer types one
  spelling: whichever way a payload wrote the integer \<open>i\<close> (as an integer, or as a float such as
  \<open>1e2\<close>), what is hashed and stored is the \<open>u64\<close> or the negative \<open>i64\<close> with that value.\<close>

theorem normalize_one_spelling:
  assumes "wf_number n" "number_int n = Some i" "- (2 ^ 63) \<le> i" "i < 2 ^ 64"
  shows "normalize_payload_numbers (Number n)
     = Number (if 0 \<le> i then PosInt (of_int i) else NegInt (of_int i))"
  using normalize_number_int [OF assms] by simp

theorem normalize_one_spelling_witness:
  "number_int (Float 0x4059000000000000) = Some 100 \<and>
   normalize_payload_numbers (Number (Float 0x4059000000000000)) = Number (PosInt 100)"
proof -
  have v: "number_int (Float 0x4059000000000000) = Some 100" by (simp add: f64_evals)
  have wf: "wf_number (Float 0x4059000000000000)" by (simp add: f64_evals)
  from v show ?thesis using normalize_one_spelling [OF wf v] by simp
qed

text \<open>C39: Normalisation is idempotent and keeps the integer value of every number but one: the float
  \<open>2 ^ 64\<close>, which no \<open>u64\<close> holds, passes the test against \<open>u64::MAX as f64\<close> (which rounds up to
  \<open>2 ^ 64\<close>) and is stored as \<open>2 ^ 64 - 1\<close>.  A number that is not whole is left as it is.\<close>

theorem normalize_shifts_only_two_to_the_64:
  "normalize_payload_numbers (normalize_payload_numbers v) = normalize_payload_numbers v \<and>
   number_int (normalize_number n) = map_option (\<lambda>i. if i = 2 ^ 64 then 2 ^ 64 - 1 else i) (number_int n) \<and>
   number_int (Float 0x43F0000000000000) = Some (2 ^ 64)"
proof (intro conjI)
  show "number_int (Float 0x43F0000000000000) = Some (2 ^ 64)" by (simp add: f64_evals)
qed (rule normalize_payload_numbers_idem number_int_normalize)+

text \<open>The export's credential scan accepts a payload exactly when no object in it, at any depth,
  has a credential field, and a refusal names such a field of the payload.\<close>

theorem reject_export_secrets_complete:
  "(reject_export_secrets v = Inr ()
      \<longleftrightarrow> list_all (\<lambda>k. k \<notin> set FORBIDDEN_PAYLOAD_KEYS) (all_keys v)) \<and>
   (case reject_export_secrets v of
      Inl (ForbiddenField k) \<Rightarrow> k \<in> set (all_keys v) \<and> k \<in> set FORBIDDEN_PAYLOAD_KEYS
    | Inl _ \<Rightarrow> False
    | Inr _ \<Rightarrow> True)"
  using walk_reject_error [of v] walk_reject_ok [of v]
  by (auto simp: reject_export_secrets_def split: sum.splits)

end
