(* ===== verification/Event_Chain.thy ===== *)
theory Event_Chain
  imports Canonical_Json
begin

text \<open>
  The hash chain of the event log, \<open>maidan-types/src/event_chain.rs\<close>, and the catch-up verifier and
  snapshot checks of \<open>maidan-types/src/log_snapshot.rs\<close>.

  SHA-256 and serde\_json's printers are library code: a value of type \<open>hashing\<close> is an argument of
  every definition that hashes.  What is relied on is stated where it is used: digests have 32 bytes
  (\<open>digests\<close>), and for tamper evidence no two of the finitely many byte strings hashed by the chains
  being compared collide.

  \<open>chain_ok\<close> says what a verified run of rows is, and the streaming verifier, the slice verifier and
  the catch-up verifier are shown to decide it.
\<close>

record hashing =
  sha256 :: "string \<Rightarrow> byte list"
  ser_string :: "string \<Rightarrow> export_error + string"
  ser_number :: "json_number \<Rightarrow> string"

definition HASH_PREFIX :: string where
  "HASH_PREFIX = ''sha256:''"

definition EVENT_CHAIN_ALG :: string where
  "EVENT_CHAIN_ALG = ''sha256''"

definition GENESIS_DOMAIN :: string where
  "GENESIS_DOMAIN = ''maidan.event-log.genesis/1''"

subsection \<open>Links and reports\<close>

record event_link =
  l_id :: int
  l_lsn :: int
  l_prev :: string
  l_content :: string

datatype break_reason = ContentHashMismatch | PrevHashMismatch | MalformedHash | IdNotIncreasing

record chain_report =
  cr_ok :: bool
  cr_algorithm :: string
  cr_genesis :: string
  cr_checked :: "32 word"
  cr_head :: "event_link option"
  cr_from_genesis :: bool
  cr_break_at :: "int option"
  cr_reason :: "break_reason option"

datatype chain_error = ChainJson export_error | ChainMalformedHash

definition chain_error_of :: "export_error \<Rightarrow> chain_error" where
  "chain_error_of e = (case e of InvalidHex \<Rightarrow> ChainMalformedHash | other \<Rightarrow> ChainJson other)"

subsection \<open>Hashes\<close>

definition encode_digest :: "byte list \<Rightarrow> string" where
  "encode_digest digest = HASH_PREFIX @ hex_encode digest"

definition hash_bytes :: "hashing \<Rightarrow> string \<Rightarrow> string" where
  "hash_bytes H bytes = encode_digest (sha256 H bytes)"

definition genesis_hash :: "hashing \<Rightarrow> string" where
  "genesis_hash H = encode_digest (sha256 H GENESIS_DOMAIN)"

definition content_hash :: "hashing \<Rightarrow> json \<Rightarrow> chain_error + string" where
  "content_hash H payload =
     (case canonical_json (ser_string H) (ser_number H) payload of
        Inl e \<Rightarrow> Inl (chain_error_of e)
      | Inr bytes \<Rightarrow> Inr (hash_bytes H bytes))"

definition chain_preimage :: "string \<Rightarrow> string \<Rightarrow> int \<Rightarrow> string" where
  "chain_preimage prev content i = prev @ [CHR 0x0A] @ content @ [CHR 0x0A] @ i64_to_string i"

definition chain_hash :: "hashing \<Rightarrow> string \<Rightarrow> string \<Rightarrow> int \<Rightarrow> string" where
  "chain_hash H prev content i = encode_digest (sha256 H (chain_preimage prev content i))"

definition next_prev_hash :: "hashing \<Rightarrow> event_link option \<Rightarrow> string" where
  "next_prev_hash H head =
     (case head of
        None \<Rightarrow> genesis_hash H
      | Some link \<Rightarrow> chain_hash H (l_prev link) (l_content link) (l_id link))"

definition link_for :: "hashing \<Rightarrow> int \<Rightarrow> json \<Rightarrow> event_link option \<Rightarrow> chain_error + event_link" where
  "link_for H i payload previous =
     and_then (content_hash H payload) (\<lambda>content.
     Inr \<lparr>l_id = i, l_lsn = i, l_prev = next_prev_hash H previous, l_content = content\<rparr>)"

definition is_well_formed_hash :: "string \<Rightarrow> bool" where
  "is_well_formed_hash s =
     (case strip_prefix HASH_PREFIX s of
        None \<Rightarrow> False
      | Some hex \<Rightarrow> length hex = 64 \<and> is_ok (hex_decode hex))"

subsection \<open>Verification\<close>

definition verify_link ::
  "hashing \<Rightarrow> event_link \<Rightarrow> json \<Rightarrow> event_link option \<Rightarrow> bool \<Rightarrow> break_reason + unit" where
  "verify_link H link payload previous from_genesis =
     (if \<not> is_well_formed_hash (l_prev link) \<or> \<not> is_well_formed_hash (l_content link)
      then Inl MalformedHash
      else and_then
       (case previous of
          Some prev \<Rightarrow>
            if l_id link \<le> l_id prev then Inl IdNotIncreasing
            else if l_prev link \<noteq> chain_hash H (l_prev prev) (l_content prev) (l_id prev)
            then Inl PrevHashMismatch
            else Inr ()
        | None \<Rightarrow>
            if from_genesis \<and> l_prev link \<noteq> genesis_hash H then Inl PrevHashMismatch else Inr ())
       (\<lambda>_. case content_hash H payload of
          Inr expected \<Rightarrow> if expected = l_content link then Inr () else Inl ContentHashMismatch
        | Inl _ \<Rightarrow> Inl MalformedHash))"

record chain_verifier =
  cv_genesis :: string
  cv_from_genesis :: bool
  cv_previous :: "event_link option"
  cv_checked :: "32 word"
  cv_started :: bool

definition verifier_new :: "hashing \<Rightarrow> chain_verifier" where
  "verifier_new H =
     \<lparr>cv_genesis = genesis_hash H, cv_from_genesis = True, cv_previous = None, cv_checked = 0,
      cv_started = False\<rparr>"

definition push ::
  "hashing \<Rightarrow> event_link \<Rightarrow> json \<Rightarrow> chain_verifier \<Rightarrow> chain_report option \<times> chain_verifier" where
  "push H link payload self =
     (let self = (if cv_started self then self
                  else self\<lparr>cv_from_genesis := (l_prev link = cv_genesis self), cv_started := True\<rparr>);
          floor_genesis = (cv_from_genesis self \<and> cv_checked self = 0)
      in case verify_link H link payload (cv_previous self) floor_genesis of
           Inl reason \<Rightarrow>
             (Some \<lparr>cr_ok = False, cr_algorithm = EVENT_CHAIN_ALG, cr_genesis = cv_genesis self,
                    cr_checked = cv_checked self, cr_head = cv_previous self,
                    cr_from_genesis = cv_from_genesis self, cr_break_at = Some (l_id link),
                    cr_reason = Some reason\<rparr>, self)
         | Inr _ \<Rightarrow>
             (None, self\<lparr>cv_previous := Some link, cv_checked := cv_checked self + 1\<rparr>))"

definition finish :: "chain_verifier \<Rightarrow> chain_report" where
  "finish self =
     \<lparr>cr_ok = True, cr_algorithm = EVENT_CHAIN_ALG, cr_genesis = cv_genesis self,
      cr_checked = cv_checked self, cr_head = cv_previous self,
      cr_from_genesis = cv_from_genesis self, cr_break_at = None, cr_reason = None\<rparr>"

text \<open>The loop over rows both verifiers run: it stops with the report of the first break.\<close>

fun push_all ::
  "hashing \<Rightarrow> (event_link \<times> json) list \<Rightarrow> chain_verifier \<Rightarrow> chain_report + chain_verifier" where
  "push_all H [] self = Inr self"
| "push_all H ((link, payload) # rows) self =
     (case push H link payload self of
        (Some report, _) \<Rightarrow> Inl report
      | (None, self) \<Rightarrow> push_all H rows self)"

definition verify_chain :: "hashing \<Rightarrow> event_link list \<Rightarrow> json list \<Rightarrow> chain_report" where
  "verify_chain H links payloads =
     (if length links \<noteq> length payloads then
        \<lparr>cr_ok = False, cr_algorithm = EVENT_CHAIN_ALG, cr_genesis = genesis_hash H, cr_checked = 0,
         cr_head = None, cr_from_genesis = True, cr_break_at = map_option l_id (case links of [] \<Rightarrow> None | l # _ \<Rightarrow> Some l),
         cr_reason = Some MalformedHash\<rparr>
      else if links = [] then
        \<lparr>cr_ok = True, cr_algorithm = EVENT_CHAIN_ALG, cr_genesis = genesis_hash H, cr_checked = 0,
         cr_head = None, cr_from_genesis = True, cr_break_at = None, cr_reason = None\<rparr>
      else case push_all H (zip links payloads) (verifier_new H) of
        Inl report \<Rightarrow> report
      | Inr self \<Rightarrow> finish self)"

definition verify_peer_link ::
  "hashing \<Rightarrow> event_link \<Rightarrow> json \<Rightarrow> event_link option \<Rightarrow> break_reason + unit" where
  "verify_peer_link H link payload previous =
     verify_link H link payload previous (previous = None \<and> l_prev link = genesis_hash H)"

subsection \<open>Catch-up\<close>

fun chain_from_loop ::
  "hashing \<Rightarrow> event_link option \<Rightarrow> bool \<Rightarrow> nat \<Rightarrow> event_link option \<Rightarrow> (event_link \<times> json) list
    \<Rightarrow> chain_report option" where
  "chain_from_loop H previous from_genesis i prev [] = None"
| "chain_from_loop H previous from_genesis i prev ((link, payload) # rows) =
     (case verify_link H link payload prev (previous = None \<and> from_genesis \<and> i = 0) of
        Inl reason \<Rightarrow>
          Some \<lparr>cr_ok = False, cr_algorithm = EVENT_CHAIN_ALG, cr_genesis = genesis_hash H,
                cr_checked = of_nat i, cr_head = prev, cr_from_genesis = from_genesis,
                cr_break_at = Some (l_id link), cr_reason = Some reason\<rparr>
      | Inr _ \<Rightarrow> chain_from_loop H previous from_genesis (Suc i) (Some link) rows)"

definition verify_chain_from ::
  "hashing \<Rightarrow> event_link option \<Rightarrow> event_link list \<Rightarrow> json list \<Rightarrow> chain_report" where
  "verify_chain_from H previous links payloads =
     (if length links \<noteq> length payloads then
        \<lparr>cr_ok = False, cr_algorithm = EVENT_CHAIN_ALG, cr_genesis = genesis_hash H, cr_checked = 0,
         cr_head = previous, cr_from_genesis = (previous = None),
         cr_break_at = map_option l_id (case links of [] \<Rightarrow> None | l # _ \<Rightarrow> Some l),
         cr_reason = Some MalformedHash\<rparr>
      else if links = [] then
        \<lparr>cr_ok = True, cr_algorithm = EVENT_CHAIN_ALG, cr_genesis = genesis_hash H, cr_checked = 0,
         cr_head = previous, cr_from_genesis = (previous = None), cr_break_at = None, cr_reason = None\<rparr>
      else
        let from_genesis = (previous = None \<and> l_prev (hd links) = genesis_hash H)
        in case chain_from_loop H previous from_genesis 0 previous (zip links payloads) of
             Some report \<Rightarrow> report
           | None \<Rightarrow>
               \<lparr>cr_ok = True, cr_algorithm = EVENT_CHAIN_ALG, cr_genesis = genesis_hash H,
                cr_checked = of_nat (length links), cr_head = Some (last links),
                cr_from_genesis = from_genesis, cr_break_at = None, cr_reason = None\<rparr>)"

definition catch_up_prev_hash :: "hashing \<Rightarrow> event_link option \<Rightarrow> string" where
  "catch_up_prev_hash H head =
     (case head of
        None \<Rightarrow> genesis_hash H
      | Some link \<Rightarrow> chain_hash H (l_prev link) (l_content link) (l_id link))"

subsection \<open>What a verified run of rows is\<close>

definition sealed_row :: "hashing \<Rightarrow> event_link \<Rightarrow> json \<Rightarrow> bool" where
  "sealed_row H l p \<longleftrightarrow>
     is_well_formed_hash (l_prev l) \<and> is_well_formed_hash (l_content l) \<and> content_hash H p = Inr (l_content l)"

definition follows :: "hashing \<Rightarrow> event_link option \<Rightarrow> event_link \<Rightarrow> bool" where
  "follows H prev l =
     (case prev of None \<Rightarrow> True | Some q \<Rightarrow> l_id q < l_id l \<and> l_prev l = next_prev_hash H (Some q))"

fun chain_ok :: "hashing \<Rightarrow> event_link option \<Rightarrow> (event_link \<times> json) list \<Rightarrow> bool" where
  "chain_ok H prev [] = True"
| "chain_ok H prev ((l, p) # rows) = (sealed_row H l p \<and> follows H prev l \<and> chain_ok H (Some l) rows)"

text \<open>The link a run ends with.\<close>

definition run_head :: "event_link option \<Rightarrow> (event_link \<times> json) list \<Rightarrow> event_link option" where
  "run_head prev rows = (if rows = [] then prev else Some (fst (last rows)))"

lemma run_head_simps [simp]:
  "run_head prev [] = prev"
  "run_head prev ((l, p) # rows) = run_head (Some l) rows"
  by (simp_all add: run_head_def)

lemma chain_ok_append:
  "chain_ok H prev (a @ b) \<longleftrightarrow> chain_ok H prev a \<and> chain_ok H (run_head prev a) b"
  by (induction H prev a rule: chain_ok.induct) auto

lemma verify_link_ok:
  "verify_link H l p prev g = Inr () \<longleftrightarrow>
     sealed_row H l p \<and> follows H prev l \<and> \<not> (prev = None \<and> g \<and> l_prev l \<noteq> genesis_hash H)"
  by (auto simp: verify_link_def sealed_row_def follows_def next_prev_hash_def and_then_Inr
      split: option.splits sum.splits if_splits)

lemma verify_link_floor:
  "verify_link H l p prev (prev = None \<and> l_prev l = genesis_hash H) = Inr () \<longleftrightarrow>
     sealed_row H l p \<and> follows H prev l"
  by (auto simp: verify_link_ok)

lemma verify_link_flag:
  "verify_link H l p (Some q) g = verify_link H l p (Some q) g'"
  by (simp add: verify_link_def)

lemma Inr_unit: "(r :: 'e + unit) = Inr u \<longleftrightarrow> r = Inr ()"
  by simp

subsection \<open>The catch-up verifier decides it\<close>

lemma loop_step:
  assumes "prev = None \<Longrightarrow> i = 0 \<and> previous = None \<and> g = (l_prev l = genesis_hash H)"
  shows "(\<exists>reason. verify_link H l p prev (previous = None \<and> g \<and> i = 0) = Inl reason)
     \<longleftrightarrow> \<not> (sealed_row H l p \<and> follows H prev l)"
proof -
  have "verify_link H l p prev (previous = None \<and> g \<and> i = 0) = Inr ()
      \<longleftrightarrow> sealed_row H l p \<and> follows H prev l"
    using assms by (auto simp: verify_link_ok)
  then show ?thesis
    by (cases "verify_link H l p prev (previous = None \<and> g \<and> i = 0)") auto
qed

lemma loop_report:
  assumes "prev = None \<Longrightarrow> i = 0 \<and> previous = None \<and> (rows \<noteq> [] \<longrightarrow> g = (l_prev (fst (hd rows)) = genesis_hash H))"
  shows "case chain_from_loop H previous g i prev rows of
      None \<Rightarrow> chain_ok H prev rows
    | Some r \<Rightarrow> (\<exists>a l p b. rows = a @ (l, p) # b \<and> chain_ok H prev a \<and> \<not> chain_ok H prev (a @ [(l, p)])
        \<and> \<not> cr_ok r \<and> cr_break_at r = Some (l_id l) \<and> cr_head r = run_head prev a
        \<and> cr_checked r = of_nat (i + length a) \<and> cr_reason r \<noteq> None)"
  using assms
proof (induction rows arbitrary: i prev)
  case (Cons row rows)
  obtain l p where row: "row = (l, p)" by (cases row)
  have st: "(\<exists>reason. verify_link H l p prev (previous = None \<and> g \<and> i = 0) = Inl reason)
     \<longleftrightarrow> \<not> (sealed_row H l p \<and> follows H prev l)"
    using Cons.prems row by (intro loop_step) auto
  show ?case
  proof (cases "verify_link H l p prev (previous = None \<and> g \<and> i = 0)")
    case (Inl reason)
    then have bad: "\<not> chain_ok H prev ([] @ [(l, p)])" using st by auto
    show ?thesis
      unfolding row using Inl bad
      by (auto intro!: exI [of _ "[]"])
  next
    case (Inr u)
    then have good: "sealed_row H l p" "follows H prev l" using st by auto
    have IH: "case chain_from_loop H previous g (Suc i) (Some l) rows of
      None \<Rightarrow> chain_ok H (Some l) rows
    | Some r \<Rightarrow> (\<exists>a l' p b. rows = a @ (l', p) # b \<and> chain_ok H (Some l) a \<and> \<not> chain_ok H (Some l) (a @ [(l', p)])
        \<and> \<not> cr_ok r \<and> cr_break_at r = Some (l_id l') \<and> cr_head r = run_head (Some l) a
        \<and> cr_checked r = of_nat (Suc i + length a) \<and> cr_reason r \<noteq> None)"
      by (rule Cons.IH) simp
    show ?thesis
    proof (cases "chain_from_loop H previous g (Suc i) (Some l) rows")
      case None
      then show ?thesis using IH Inr good row by simp
    next
      case (Some r)
      then obtain a l' p' b where *: "rows = a @ (l', p') # b" "chain_ok H (Some l) a"
        "\<not> chain_ok H (Some l) (a @ [(l', p')])" "\<not> cr_ok r" "cr_break_at r = Some (l_id l')"
        "cr_head r = run_head (Some l) a" "cr_checked r = of_nat (Suc i + length a)" "cr_reason r \<noteq> None"
        using IH by auto
      have "(l, p) # rows = ((l, p) # a) @ (l', p') # b" using *(1) by simp
      then show ?thesis
        unfolding row chain_from_loop.simps Inr sum.case Some option.case
        using * good
        by (intro exI [of _ "(l, p) # a"] exI [of _ l'] exI [of _ p'] exI [of _ b])
          (auto simp: algebra_simps)
    qed
  qed
qed simp

text \<open>A report names the first row that does not continue the run, and what was checked before it.\<close>

definition breaks_at :: "hashing \<Rightarrow> event_link option \<Rightarrow> (event_link \<times> json) list \<Rightarrow> nat \<Rightarrow> bool" where
  "breaks_at H prev rows k \<longleftrightarrow>
     k < length rows \<and> chain_ok H prev (take k rows) \<and> \<not> chain_ok H prev (take (Suc k) rows)"

lemma breaks_not_ok: "breaks_at H prev rows k \<Longrightarrow> \<not> chain_ok H prev rows"
  unfolding breaks_at_def using chain_ok_append by (metis append_take_drop_id)

lemma hd_zip_fst: "length xs = length ys \<Longrightarrow> xs \<noteq> [] \<Longrightarrow> fst (hd (zip xs ys)) = hd xs"
  by (cases xs; cases ys) auto

lemma last_zip_fst: "length xs = length ys \<Longrightarrow> xs \<noteq> [] \<Longrightarrow> fst (last (zip xs ys)) = last xs"
  by (metis last_zip fst_conv length_0_conv)

lemma verify_chain_from_report:
  assumes len: "length links = length payloads"
  shows "if chain_ok H previous (zip links payloads)
    then cr_ok (verify_chain_from H previous links payloads)
      \<and> cr_head (verify_chain_from H previous links payloads) = run_head previous (zip links payloads)
      \<and> cr_checked (verify_chain_from H previous links payloads) = of_nat (length links)
    else \<not> cr_ok (verify_chain_from H previous links payloads)
      \<and> (\<exists>k. breaks_at H previous (zip links payloads) k
          \<and> cr_break_at (verify_chain_from H previous links payloads) = Some (l_id (links ! k))
          \<and> cr_head (verify_chain_from H previous links payloads) = run_head previous (take k (zip links payloads))
          \<and> cr_checked (verify_chain_from H previous links payloads) = of_nat k)"
proof (cases "links = []")
  case True
  then show ?thesis using len by (simp add: verify_chain_from_def)
next
  case False
  let ?rows = "zip links payloads"
  let ?g = "previous = None \<and> l_prev (hd links) = genesis_hash H"
  have ne: "?rows \<noteq> []" using False len by (cases links; cases payloads) auto
  have rep: "case chain_from_loop H previous ?g 0 previous ?rows of
      None \<Rightarrow> chain_ok H previous ?rows
    | Some r \<Rightarrow> (\<exists>a l p b. ?rows = a @ (l, p) # b \<and> chain_ok H previous a \<and> \<not> chain_ok H previous (a @ [(l, p)])
        \<and> \<not> cr_ok r \<and> cr_break_at r = Some (l_id l) \<and> cr_head r = run_head previous a
        \<and> cr_checked r = of_nat (0 + length a) \<and> cr_reason r \<noteq> None)"
    using hd_zip_fst [OF len False] by (intro loop_report) simp
  show ?thesis
  proof (cases "chain_from_loop H previous ?g 0 previous ?rows")
    case None
    then have ok: "chain_ok H previous ?rows" using rep by simp
    have v: "verify_chain_from H previous links payloads =
        \<lparr>cr_ok = True, cr_algorithm = EVENT_CHAIN_ALG, cr_genesis = genesis_hash H,
         cr_checked = of_nat (length links), cr_head = Some (last links),
         cr_from_genesis = ?g, cr_break_at = None, cr_reason = None\<rparr>"
      using None False len by (simp add: verify_chain_from_def Let_def)
    show ?thesis using ok v ne last_zip_fst [OF len False] by (simp add: run_head_def)
  next
    case (Some r)
    then obtain a l p b where *: "?rows = a @ (l, p) # b" "chain_ok H previous a"
      "\<not> chain_ok H previous (a @ [(l, p)])" "\<not> cr_ok r" "cr_break_at r = Some (l_id l)"
      "cr_head r = run_head previous a" "cr_checked r = of_nat (length a)"
      using rep by auto
    have v: "verify_chain_from H previous links payloads = r"
      using Some False len by (simp add: verify_chain_from_def Let_def)
    have br: "breaks_at H previous ?rows (length a)"
      using * by (simp add: breaks_at_def)
    have len_a: "length a < length links"
      using arg_cong [OF *(1), of length] len by simp
    have "?rows ! length a = (l, p)" using *(1) by simp
    then have "links ! length a = l" using len_a len by simp
    then show ?thesis
      using v br * breaks_not_ok [OF br] by (auto intro!: exI [of _ "length a"])
  qed
qed

lemma verify_chain_from_ok:
  "cr_ok (verify_chain_from H previous links payloads)
     \<longleftrightarrow> length links = length payloads \<and> chain_ok H previous (zip links payloads)"
proof (cases "length links = length payloads")
  case True
  then show ?thesis using verify_chain_from_report [OF True, of H previous] by (auto split: if_splits)
next
  case False
  then show ?thesis by (simp add: verify_chain_from_def)
qed

subsection \<open>The streaming verifier computes the same reports\<close>

lemma push_all_loop:
  assumes "cv_genesis s = genesis_hash H" "cv_started s" "cv_previous s = Some q"
    "cv_checked s = of_nat i" "cv_from_genesis s = g"
  shows "push_all H rows s =
     (case chain_from_loop H previous g i (Some q) rows of
        Some r \<Rightarrow> Inl r
      | None \<Rightarrow> Inr (s\<lparr>cv_previous := run_head (Some q) rows, cv_checked := of_nat (i + length rows)\<rparr>))"
  using assms
proof (induction rows arbitrary: s q i)
  case (Cons row rows)
  obtain l p where row: "row = (l, p)" by (cases row)
  have flag: "verify_link H l p (Some q) (g \<and> of_nat i = (0 :: 32 word))
      = verify_link H l p (Some q) (previous = None \<and> g \<and> i = 0)"
    by (rule verify_link_flag)
  show ?case
  proof (cases "verify_link H l p (Some q) (previous = None \<and> g \<and> i = 0)")
    case (Inl reason)
    then show ?thesis
      using Cons.prems flag by (simp add: row push_def Let_def)
  next
    case (Inr u)
    let ?s = "s\<lparr>cv_previous := Some l, cv_checked := cv_checked s + 1\<rparr>"
    have "push H l p s = (None, ?s)"
      using Inr Cons.prems flag by (simp add: push_def Let_def)
    moreover have "push_all H rows ?s =
       (case chain_from_loop H previous g (Suc i) (Some l) rows of
          Some r \<Rightarrow> Inl r
        | None \<Rightarrow> Inr (?s\<lparr>cv_previous := run_head (Some l) rows, cv_checked := of_nat (Suc i + length rows)\<rparr>))"
      using Cons.prems by (intro Cons.IH) simp_all
    ultimately show ?thesis
      using Inr by (simp add: row split: option.splits)
  qed
qed simp

lemma push_first:
  "push H l p (verifier_new H) =
     (case verify_link H l p None (l_prev l = genesis_hash H) of
        Inl reason \<Rightarrow>
          (Some \<lparr>cr_ok = False, cr_algorithm = EVENT_CHAIN_ALG, cr_genesis = genesis_hash H,
                 cr_checked = 0, cr_head = None, cr_from_genesis = (l_prev l = genesis_hash H),
                 cr_break_at = Some (l_id l), cr_reason = Some reason\<rparr>,
           (verifier_new H)\<lparr>cv_from_genesis := (l_prev l = genesis_hash H), cv_started := True\<rparr>)
      | Inr _ \<Rightarrow>
          (None, \<lparr>cv_genesis = genesis_hash H, cv_from_genesis = (l_prev l = genesis_hash H),
                  cv_previous = Some l, cv_checked = 1, cv_started = True\<rparr>))"
  by (simp add: push_def verifier_new_def Let_def split: sum.splits)

lemma verify_chain_eq: "verify_chain H links payloads = verify_chain_from H None links payloads"
proof (cases "links = [] \<or> length links \<noteq> length payloads")
  case True
  then show ?thesis by (auto simp: verify_chain_def verify_chain_from_def)
next
  case False
  then obtain l ls p ps where lp: "links = l # ls" "payloads = p # ps" "length ls = length ps"
    by (cases links; cases payloads) auto
  let ?g = "l_prev l = genesis_hash H"
  let ?s = "\<lparr>cv_genesis = genesis_hash H, cv_from_genesis = ?g, cv_previous = Some l, cv_checked = 1,
    cv_started = True\<rparr>"
  have all: "push_all H (zip ls ps) ?s =
     (case chain_from_loop H None ?g 1 (Some l) (zip ls ps) of
        Some r \<Rightarrow> Inl r
      | None \<Rightarrow> Inr (?s\<lparr>cv_previous := run_head (Some l) (zip ls ps), cv_checked := of_nat (1 + length (zip ls ps))\<rparr>))"
    by (rule push_all_loop) simp_all
  have head: "run_head (Some l) (zip ls ps) = Some (last links)"
    using lp last_zip_fst [OF lp(3)] by (cases ls; cases ps) (auto simp: run_head_def)
  show ?thesis
    using lp head all
    by (simp add: verify_chain_def verify_chain_from_def push_first finish_def Let_def
        split: sum.splits option.splits)
qed

subsection \<open>Well-formed hashes\<close>

definition digests :: "hashing \<Rightarrow> bool" where
  "digests H \<longleftrightarrow> (\<forall>x. length (sha256 H x) = 32)"

lemma well_formed_length: "is_well_formed_hash s \<Longrightarrow> length s = 71"
  by (auto simp: is_well_formed_hash_def HASH_PREFIX_def strip_prefix_Some split: option.splits)

lemma encode_digest_well_formed: "length d = 32 \<Longrightarrow> is_well_formed_hash (encode_digest d)"
proof -
  assume len: "length d = 32"
  have "strip_prefix HASH_PREFIX (encode_digest d) = Some (hex_encode d)"
    by (simp add: strip_prefix_Some encode_digest_def)
  moreover have "hex_decode (hex_encode d) = Inr d"
    using len by (intro hex_decode_encode) auto
  ultimately show ?thesis using len by (simp add: is_well_formed_hash_def)
qed

lemma encode_digest_inj: "encode_digest d = encode_digest e \<Longrightarrow> d = e"
  by (simp add: encode_digest_def hex_encode_inj)

lemma hashes_well_formed:
  assumes "digests H"
  shows "is_well_formed_hash (genesis_hash H)" "is_well_formed_hash (chain_hash H a b i)"
    "is_well_formed_hash (hash_bytes H x)" "is_well_formed_hash (next_prev_hash H q)"
  using assms encode_digest_well_formed
  by (auto simp: digests_def genesis_hash_def chain_hash_def hash_bytes_def next_prev_hash_def
      split: option.splits)

lemma content_hash_well_formed:
  "digests H \<Longrightarrow> content_hash H p = Inr c \<Longrightarrow> is_well_formed_hash c"
  using hashes_well_formed(3) [of H] by (auto simp: content_hash_def split: sum.splits)

lemma content_hash_total:
  assumes "string_literals (ser_string H)"
  obtains c where "content_hash H p = Inr c"
proof (cases "write_canonical (ser_string H) (ser_number H) p")
  case (Inl e)
  then show ?thesis using write_printed [OF assms, of "ser_number H" p] by simp
next
  case (Inr bytes)
  then show ?thesis using that by (simp add: content_hash_def canonical_json_def)
qed

subsection \<open>Tamper evidence\<close>

text \<open>The preimages \<open>chain_hash\<close> and \<open>content_hash\<close> feed to SHA-256 for a run of rows.\<close>

definition row_preimages :: "hashing \<Rightarrow> event_link \<times> json \<Rightarrow> string list" where
  "row_preimages H row =
     [projr (canonical_json (ser_string H) (ser_number H) (snd row)),
      chain_preimage (l_prev (fst row)) (l_content (fst row)) (l_id (fst row))]"

definition preimages :: "hashing \<Rightarrow> (event_link \<times> json) list \<Rightarrow> string list" where
  "preimages H rows = GENESIS_DOMAIN # concat (map (row_preimages H) rows)"

lemma chain_preimage_inj:
  assumes "length a = length a'" "length b = length b'" "chain_preimage a b i = chain_preimage a' b' j"
  shows "a = a' \<and> b = b' \<and> i = j"
proof -
  have "a = a'" "b @ CHR 0x0A # i64_to_string i = b' @ CHR 0x0A # i64_to_string j"
    using assms(1,3) by (auto simp: chain_preimage_def)
  then show ?thesis using assms(2) i64_to_string_inj by auto
qed

lemma genesis_not_preimage: "GENESIS_DOMAIN \<noteq> chain_preimage a b i"
proof -
  have "CHR 0x0A \<in> set (chain_preimage a b i)" by (simp add: chain_preimage_def)
  moreover have "CHR 0x0A \<notin> set GENESIS_DOMAIN" by (simp add: GENESIS_DOMAIN_def)
  ultimately show ?thesis by metis
qed

lemma content_hash_bytes:
  "content_hash H p = Inr c \<Longrightarrow>
     canonical_json (ser_string H) (ser_number H) p = Inr (projr (canonical_json (ser_string H) (ser_number H) p))
     \<and> c = encode_digest (sha256 H (projr (canonical_json (ser_string H) (ser_number H) p)))"
  by (auto simp: content_hash_def hash_bytes_def split: sum.splits)

text \<open>Two rows are the same event in the same place: position, commitments and payload agree.\<close>

definition same_event :: "event_link \<times> json \<Rightarrow> event_link \<times> json \<Rightarrow> bool" where
  "same_event r s \<longleftrightarrow>
     l_id (fst r) = l_id (fst s) \<and> l_prev (fst r) = l_prev (fst s) \<and> l_content (fst r) = l_content (fst s)
     \<and> same_json (snd r) (snd s)"

lemma same_content:
  assumes "string_literals (ser_string H)" "number_literals (ser_number H)" "wf_json p" "wf_json q"
    and "content_hash H p = Inr c" "content_hash H q = Inr c"
    and "inj_on (sha256 H) S"
    and "projr (canonical_json (ser_string H) (ser_number H) p) \<in> S"
    and "projr (canonical_json (ser_string H) (ser_number H) q) \<in> S"
  shows "same_json p q"
proof -
  let ?cp = "canonical_json (ser_string H) (ser_number H) p"
  let ?cq = "canonical_json (ser_string H) (ser_number H) q"
  have "sha256 H (projr ?cp) = sha256 H (projr ?cq)"
    using content_hash_bytes [OF assms(5)] content_hash_bytes [OF assms(6)] encode_digest_inj by metis
  then have "projr ?cp = projr ?cq" using assms(7,8,9) by (auto dest: inj_onD)
  then have "?cp = ?cq"
    using content_hash_bytes [OF assms(5)] content_hash_bytes [OF assms(6)] by metis
  then have "printed (ser_string H) (ser_number H) p = printed (ser_string H) (ser_number H) q"
    by (simp add: canonical_json_def)
  then show ?thesis
    using printed_prefix [OF assms(1-4), of "[]" "[]"] by (simp add: stop_def)
qed

lemma chain_ok_snoc:
  "chain_ok H prev (rows @ [(l, p)]) \<longleftrightarrow>
     chain_ok H prev rows \<and> sealed_row H l p \<and> follows H (run_head prev rows) l"
  by (simp add: chain_ok_append)

lemma chain_ok_sealed: "chain_ok H prev rows \<Longrightarrow> (l, p) \<in> set rows \<Longrightarrow> sealed_row H l p"
  by (induction H prev rows rule: chain_ok.induct) auto

lemma preimages_mem:
  "row \<in> set rows \<Longrightarrow> projr (canonical_json (ser_string H) (ser_number H) (snd row)) \<in> set (preimages H rows)"
  "row \<in> set rows \<Longrightarrow> chain_preimage (l_prev (fst row)) (l_content (fst row)) (l_id (fst row)) \<in> set (preimages H rows)"
  "GENESIS_DOMAIN \<in> set (preimages H rows)"
  by (auto simp: preimages_def row_preimages_def)

lemma preimages_mono: "set rows \<subseteq> set rows' \<Longrightarrow> set (preimages H rows) \<subseteq> set (preimages H rows')"
  by (auto simp: preimages_def)

text \<open>A link's \<open>prev_hash\<close> pins its predecessor: two predecessors with one successor hash agree.\<close>

lemma prev_hash_pins:
  assumes "inj_on (sha256 H) S"
    and "sealed_row H q p" "sealed_row H q' p'"
    and "chain_preimage (l_prev q) (l_content q) (l_id q) \<in> S"
    and "chain_preimage (l_prev q') (l_content q') (l_id q') \<in> S"
    and "next_prev_hash H (Some q) = next_prev_hash H (Some q')"
  shows "l_prev q = l_prev q' \<and> l_content q = l_content q' \<and> l_id q = l_id q'"
proof (rule chain_preimage_inj)
  show "length (l_prev q) = length (l_prev q')" "length (l_content q) = length (l_content q')"
    using assms(2,3) well_formed_length by (simp_all add: sealed_row_def)
  have "sha256 H (chain_preimage (l_prev q) (l_content q) (l_id q))
      = sha256 H (chain_preimage (l_prev q') (l_content q') (l_id q'))"
    using assms(6) by (auto simp: next_prev_hash_def chain_hash_def dest: encode_digest_inj)
  then show "chain_preimage (l_prev q) (l_content q) (l_id q) = chain_preimage (l_prev q') (l_content q') (l_id q')"
    using assms(1,4,5) by (auto dest: inj_onD)
qed

lemma genesis_pins:
  assumes "inj_on (sha256 H) S" "GENESIS_DOMAIN \<in> S"
    "chain_preimage (l_prev q) (l_content q) (l_id q) \<in> S"
  shows "genesis_hash H \<noteq> next_prev_hash H (Some q)"
proof
  assume "genesis_hash H = next_prev_hash H (Some q)"
  then have "sha256 H GENESIS_DOMAIN = sha256 H (chain_preimage (l_prev q) (l_content q) (l_id q))"
    by (auto simp: genesis_hash_def next_prev_hash_def chain_hash_def dest: encode_digest_inj)
  then show False
    using assms genesis_not_preimage inj_onD by metis
qed

lemma run_head_snoc [simp]: "run_head prev (rows @ [row]) = Some (fst row)"
  by (simp add: run_head_def)

definition at_genesis :: "hashing \<Rightarrow> (event_link \<times> json) list \<Rightarrow> bool" where
  "at_genesis H rows \<longleftrightarrow> rows \<noteq> [] \<longrightarrow> l_prev (fst (hd rows)) = genesis_hash H"

text \<open>A run within reach of a set \<open>X\<close> of byte strings SHA-256 does not confuse: verified from genesis,
  over values serde\_json can hold, hashing members of \<open>X\<close>.\<close>

definition verified_within :: "hashing \<Rightarrow> string set \<Rightarrow> (event_link \<times> json) list \<Rightarrow> bool" where
  "verified_within H X R \<longleftrightarrow>
     chain_ok H None R \<and> at_genesis H R \<and> list_all (\<lambda>r. wf_json (snd r)) R \<and> set (preimages H R) \<subseteq> X"

definition same_commitment :: "event_link \<times> json \<Rightarrow> event_link \<times> json \<Rightarrow> bool" where
  "same_commitment r s \<longleftrightarrow>
     l_id (fst r) = l_id (fst s) \<and> l_prev (fst r) = l_prev (fst s) \<and> l_content (fst r) = l_content (fst s)"

lemma verified_within_snoc:
  assumes "verified_within H X (R @ [(l, p)])"
  shows "verified_within H X R" "sealed_row H l p" "wf_json p"
    "l_prev l = (if R = [] then genesis_hash H else next_prev_hash H (Some (fst (last R))))"
    "projr (canonical_json (ser_string H) (ser_number H) p) \<in> X" "GENESIS_DOMAIN \<in> X"
  using assms preimages_mono [of R "R @ [(l, p)]" H]
    preimages_mem(1) [of "(l, p)" "R @ [(l, p)]" H] preimages_mem(3) [of H "R @ [(l, p)]"]
  by (auto simp: verified_within_def chain_ok_snoc at_genesis_def hd_append follows_def run_head_def
      split: if_splits)

lemma verified_within_last:
  assumes "verified_within H X R" "R \<noteq> []"
  shows "sealed_row H (fst (last R)) (snd (last R))"
    "chain_preimage (l_prev (fst (last R))) (l_content (fst (last R))) (l_id (fst (last R))) \<in> X"
proof -
  have "last R \<in> set R" using assms(2) by simp
  then show "sealed_row H (fst (last R)) (snd (last R))"
    using assms(1) chain_ok_sealed [of H None R "fst (last R)" "snd (last R)"]
    by (simp add: verified_within_def)
  show "chain_preimage (l_prev (fst (last R))) (l_content (fst (last R))) (l_id (fst (last R))) \<in> X"
    using preimages_mem(2) [of "last R" R H] \<open>last R \<in> set R\<close> assms(1)
    by (auto simp: verified_within_def)
qed

lemma same_commitment_same_event:
  assumes "string_literals (ser_string H)" "number_literals (ser_number H)" "inj_on (sha256 H) X"
    and "verified_within H X (R @ [(l, p)])" "verified_within H X (S @ [(m, q)])"
    and "same_commitment (l, p) (m, q)"
  shows "same_event (l, p) (m, q)"
proof -
  note R = verified_within_snoc [OF assms(4)] and S = verified_within_snoc [OF assms(5)]
  have "same_json p q"
    using R(2) S(2) assms(6)
    by (intro same_content [OF assms(1,2) R(3) S(3) _ _ assms(3) R(5) S(5)])
      (auto simp: sealed_row_def same_commitment_def)
  then show ?thesis using assms(6) by (simp add: same_event_def same_commitment_def)
qed

lemma same_commitment_back:
  assumes inj: "inj_on (sha256 H) X"
    and "verified_within H X (R @ [(l, p)])" "verified_within H X (S @ [(m, q)])"
    and "same_commitment (l, p) (m, q)"
  shows "(R = [] \<longleftrightarrow> S = []) \<and> (R \<noteq> [] \<longrightarrow> same_commitment (last R) (last S))"
proof -
  note R = verified_within_snoc [OF assms(2)] and S = verified_within_snoc [OF assms(3)]
  have prev: "l_prev l = l_prev m" using assms(4) by (simp add: same_commitment_def)
  have "next_prev_hash H (Some (fst (last T))) \<noteq> genesis_hash H" if "verified_within H X T" "T \<noteq> []" for T
    using genesis_pins [OF inj R(6) verified_within_last(2) [OF that]] by simp
  then have "R = [] \<longleftrightarrow> S = []" using R(1,4) S(1,4) prev by (auto split: if_splits dest: sym)
  moreover have "same_commitment (last R) (last S)" if "R \<noteq> []" "S \<noteq> []"
    using prev_hash_pins [OF inj verified_within_last(1) [OF R(1) that(1)]
        verified_within_last(1) [OF S(1) that(2)] verified_within_last(2) [OF R(1) that(1)]
        verified_within_last(2) [OF S(1) that(2)]] R(4) S(4) prev that
    by (simp add: same_commitment_def)
  ultimately show ?thesis by blast
qed

lemma same_head_history:
  assumes "string_literals (ser_string H)" "number_literals (ser_number H)" "inj_on (sha256 H) X"
  shows "verified_within H X R \<Longrightarrow> verified_within H X S \<Longrightarrow> (R = [] \<longleftrightarrow> S = []) \<Longrightarrow>
    (R \<noteq> [] \<Longrightarrow> same_commitment (last R) (last S)) \<Longrightarrow> list_all2 same_event R S"
proof (induction R arbitrary: S rule: rev_induct)
  case (snoc r R)
  then obtain S' s where S: "S = S' @ [s]" by (cases S rule: rev_cases) auto
  obtain l p m q where rs: "r = (l, p)" "s = (m, q)" by (cases r; cases s)
  have v: "verified_within H X (R @ [(l, p)])" "verified_within H X (S' @ [(m, q)])"
    and c: "same_commitment (l, p) (m, q)"
    using snoc.prems rs S by simp_all
  have "list_all2 same_event R S'"
    using snoc.IH [OF verified_within_snoc(1) [OF v(1)] verified_within_snoc(1) [OF v(2)]]
      same_commitment_back [OF assms(3) v c] by blast
  then show ?case
    using same_commitment_same_event [OF assms v c] S rs by (simp add: list_all2_appendI)
qed simp

subsection \<open>A concrete hash\<close>

text \<open>For witnesses: the last 32 bytes of the input, which keeps short inputs apart.\<close>

definition tail_digest :: "string \<Rightarrow> byte list" where
  "tail_digest s = map (\<lambda>c. of_nat (code c)) (take 32 (rev s @ replicate 32 (CHR 0x20)))"

definition plain_hashing :: hashing where
  "plain_hashing = \<lparr>sha256 = tail_digest, ser_string = json_quote, ser_number = json_num\<rparr>"

lemma plain_hashing_digests: "digests plain_hashing"
  by (simp add: digests_def plain_hashing_def tail_digest_def min_def)

lemma plain_hashing_literals:
  "string_literals (ser_string plain_hashing)" "number_literals (ser_number plain_hashing)"
  by (simp_all add: plain_hashing_def json_quote_literals json_num_literals)

lemma link_for_sealed:
  assumes "digests H" "link_for H i p prev = Inr l"
  shows "sealed_row H l p" "l_prev l = next_prev_hash H prev" "l_id l = i"
  using assms hashes_well_formed(4) [OF assms(1)] content_hash_well_formed [OF assms(1), of p]
  by (auto simp: link_for_def and_then_Inr sealed_row_def)

subsection \<open>Properties\<close>

lemma loop_not_ok: "chain_from_loop H previous g i prev rows = Some r \<Longrightarrow> \<not> cr_ok r"
  by (induction H previous g i prev rows rule: chain_from_loop.induct) (auto split: sum.splits)

lemma from_genesis_report:
  "length links = length payloads \<Longrightarrow> links \<noteq> [] \<Longrightarrow> cr_ok (verify_chain H links payloads) \<Longrightarrow>
   cr_from_genesis (verify_chain H links payloads) = (l_prev (hd links) = genesis_hash H)"
  by (auto simp: verify_chain_eq verify_chain_from_def Let_def split: option.splits dest!: loop_not_ok)

lemma zip_map_fst_snd: "zip (map fst R) (map snd R) = R"
  by (induction R) auto

lemma verified_report:
  assumes "cr_ok (verify_chain H (map fst R) (map snd R))"
    "cr_from_genesis (verify_chain H (map fst R) (map snd R))"
  shows "chain_ok H None R \<and> at_genesis H R \<and> cr_head (verify_chain H (map fst R) (map snd R)) = run_head None R"
proof -
  have ok: "chain_ok H None R"
    using assms(1) by (simp add: verify_chain_eq verify_chain_from_ok zip_map_fst_snd)
  moreover have "at_genesis H R"
    using from_genesis_report [of "map fst R" "map snd R" H] assms
    by (cases R) (auto simp: at_genesis_def)
  moreover have "cr_head (verify_chain H (map fst R) (map snd R)) = run_head None R"
    using verify_chain_from_report [of "map fst R" "map snd R" H None] ok
    by (simp add: verify_chain_eq zip_map_fst_snd)
  ultimately show ?thesis by blast
qed

text \<open>C3: The chain is tamper-evident.  Take two logs a verifier accepts from genesis, and suppose
  SHA-256 maps no two of the byte strings hashed in them to one digest.  If the verifier reports the
  same head for both, they are the same history: as many rows, and row by row the same id, the same
  commitments and equal payloads.  No splice, deletion, reordering or rewrite leaves the head as it was.\<close>

theorem same_verified_head_same_history:
  assumes "string_literals (ser_string H)" "number_literals (ser_number H)"
    and "inj_on (sha256 H) (set (preimages H R @ preimages H S))"
    and "list_all (\<lambda>r. wf_json (snd r)) (R @ S)"
    and "cr_ok (verify_chain H (map fst R) (map snd R))" "cr_ok (verify_chain H (map fst S) (map snd S))"
    and "cr_from_genesis (verify_chain H (map fst R) (map snd R))"
    and "cr_from_genesis (verify_chain H (map fst S) (map snd S))"
    and "cr_head (verify_chain H (map fst R) (map snd R)) = cr_head (verify_chain H (map fst S) (map snd S))"
  shows "list_all2 same_event R S"
proof -
  note R = verified_report [OF assms(5,7)] and S = verified_report [OF assms(6,8)]
  have "run_head None R = run_head None S" using R S assms(9) by simp
  then have heads: "R = [] \<longleftrightarrow> S = []" "R \<noteq> [] \<longrightarrow> fst (last R) = fst (last S)"
    by (auto simp: run_head_def split: if_splits)
  show ?thesis
  proof (rule same_head_history [OF assms(1-3)])
    show "verified_within H (set (preimages H R @ preimages H S)) R"
      "verified_within H (set (preimages H R @ preimages H S)) S"
      using R S assms(4) by (auto simp: verified_within_def)
  qed (use heads in \<open>auto simp: same_commitment_def\<close>)
qed

text \<open>A one-event log in two spellings.\<close>

definition sample_payload :: json where
  "sample_payload = Obj [(''b'', Bool True), (''a'', Str ''x'')]"

definition sample_link :: event_link where
  "sample_link = projr (link_for plain_hashing 7 sample_payload None)"

definition sample_log :: "(event_link \<times> json) list" where
  "sample_log = [(sample_link, sample_payload)]"

definition sample_log' :: "(event_link \<times> json) list" where
  "sample_log' = [(sample_link, Obj [(''a'', Str ''x''), (''b'', Bool True)])]"

lemma inj_on_remdups: "distinct (map f (remdups xs)) \<Longrightarrow> inj_on f (set xs)"
  by (simp add: distinct_map)

lemma sample_logs_verify:
  "cr_ok (verify_chain plain_hashing (map fst sample_log) (map snd sample_log)) \<and>
   cr_ok (verify_chain plain_hashing (map fst sample_log') (map snd sample_log'))"
  by code_simp

lemma sample_logs_genesis:
  "cr_from_genesis (verify_chain plain_hashing (map fst sample_log) (map snd sample_log)) \<and>
   cr_from_genesis (verify_chain plain_hashing (map fst sample_log') (map snd sample_log'))"
  by code_simp

lemma sample_logs_head:
  "cr_head (verify_chain plain_hashing (map fst sample_log) (map snd sample_log))
   = cr_head (verify_chain plain_hashing (map fst sample_log') (map snd sample_log'))"
  by code_simp

lemma sample_logs_distinct:
  "distinct (map (sha256 plain_hashing) (remdups (preimages plain_hashing sample_log @ preimages plain_hashing sample_log')))"
  by code_simp

theorem same_verified_head_same_history_witness: "list_all2 same_event sample_log sample_log'"
proof (rule same_verified_head_same_history [OF plain_hashing_literals])
  show "inj_on (sha256 plain_hashing) (set (preimages plain_hashing sample_log @ preimages plain_hashing sample_log'))"
    by (rule inj_on_remdups) (rule sample_logs_distinct)
  show "list_all (\<lambda>r. wf_json (snd r)) (sample_log @ sample_log')" by code_simp
qed (use sample_logs_verify sample_logs_genesis sample_logs_head in simp_all)

text \<open>C27: The three verifiers agree.  The streaming verifier, over any slice, gives the report of the
  catch-up verifier with no predecessor; and a log checked page by page, each page from the head the
  previous report carries, is accepted exactly when it is accepted whole.\<close>

theorem verifiers_agree_and_pages_compose:
  assumes "length links = length payloads" "length links' = length payloads'"
  shows "verify_chain H links payloads = verify_chain_from H None links payloads \<and>
    (cr_ok (verify_chain_from H previous (links @ links') (payloads @ payloads')) \<longleftrightarrow>
       cr_ok (verify_chain_from H previous links payloads) \<and>
       cr_ok (verify_chain_from H (cr_head (verify_chain_from H previous links payloads)) links' payloads'))"
  using assms verify_chain_from_report [OF assms(1), of H previous]
  by (auto simp: verify_chain_eq verify_chain_from_ok chain_ok_append split: if_splits)

theorem verifiers_agree_and_pages_compose_witness:
  "cr_ok (verify_chain_from plain_hashing None ([] @ [sample_link]) ([] @ [sample_payload]))
   \<and> cr_ok (verify_chain_from plain_hashing None [sample_link] [sample_payload])"
proof -
  have "cr_ok (verify_chain_from plain_hashing None [sample_link] [sample_payload])" by code_simp
  then show ?thesis
    using verifiers_agree_and_pages_compose [of "[]" "[]" "[sample_link]" "[sample_payload]" plain_hashing None]
    by simp
qed

text \<open>C33: A failed verification is precise: the report's \<open>break_at\<close> is the id of the first row that
  does not continue the chain (every row before it does), its \<open>head\<close> is the last good link and its
  \<open>checked\<close> the number of good rows.  A chain that verifies is reported whole.\<close>

theorem verify_chain_pinpoints_the_break:
  assumes "length links = length payloads"
  shows "(if chain_ok H None (zip links payloads)
    then cr_ok (verify_chain H links payloads) \<and>
         cr_head (verify_chain H links payloads) = run_head None (zip links payloads) \<and>
         cr_checked (verify_chain H links payloads) = of_nat (length links)
    else \<not> cr_ok (verify_chain H links payloads) \<and>
         (\<exists>k. breaks_at H None (zip links payloads) k \<and>
            cr_break_at (verify_chain H links payloads) = Some (l_id (links ! k)) \<and>
            cr_head (verify_chain H links payloads) = run_head None (take k (zip links payloads)) \<and>
            cr_checked (verify_chain H links payloads) = of_nat k))"
  using verify_chain_from_report [OF assms, of H None] by (simp add: verify_chain_eq)

theorem verify_chain_pinpoints_the_break_witness:
  "\<not> cr_ok (verify_chain plain_hashing [sample_link] [Null]) \<and>
   cr_break_at (verify_chain plain_hashing [sample_link] [Null]) = Some 7"
proof -
  have bad: "\<not> chain_ok plain_hashing None (zip [sample_link] [Null])" by code_simp
  have "l_id sample_link = 7" by code_simp
  then show ?thesis
    using verify_chain_pinpoints_the_break [of "[sample_link]" "[Null]" plain_hashing] bad
    by (auto simp: breaks_at_def)
qed

end
