(* ===== verification/Log_Snapshot.thy ===== *)
theory Log_Snapshot
  imports Event_Chain
begin

text \<open>
  Snapshots and catch-up pages, \<open>maidan-types/src/log_snapshot.rs\<close>, and the cursor rule they rest on,
  \<open>maidan-types/src/cursor.rs\<close>, with the tap's history gate of \<open>maidan-types/src/tap.rs\<close>.  The domain
  graph a snapshot commits to enters as the JSON value serde makes of it.
\<close>

subsection \<open>Cursors\<close>

definition I64_MAX :: int where
  "I64_MAX = 2 ^ 63 - 1"

definition i64_checked_add :: "int \<Rightarrow> int \<Rightarrow> int option" where
  "i64_checked_add a b = (if - (2 ^ 63) \<le> a + b \<and> a + b \<le> I64_MAX then Some (a + b) else None)"

definition cursor_is_too_old :: "int \<Rightarrow> int option \<Rightarrow> bool" where
  "cursor_is_too_old after_id oldest_retained_id =
     (case oldest_retained_id of
        Some oldest \<Rightarrow>
          0 < after_id \<and> (case i64_checked_add after_id 1 of Some nxt \<Rightarrow> nxt < oldest | None \<Rightarrow> False)
      | None \<Rightarrow> False)"

definition catch_up_allowed :: "int \<Rightarrow> int option \<Rightarrow> bool" where
  "catch_up_allowed after_lsn floor_lsn \<longleftrightarrow> \<not> cursor_is_too_old after_lsn floor_lsn"

text \<open>A tap starts live delivery once its history has reached the workspace head.\<close>

datatype tap_fault = LiveBeforeHistory int int

definition history_caught_up :: "int \<Rightarrow> int \<Rightarrow> bool" where
  "history_caught_up history_high_water head_lsn \<longleftrightarrow> head_lsn \<le> history_high_water"

definition live_before_history :: "int \<Rightarrow> int \<Rightarrow> tap_fault option" where
  "live_before_history history_high_water head_lsn =
     (if history_caught_up history_high_water head_lsn then None
      else Some (LiveBeforeHistory history_high_water head_lsn))"

subsection \<open>Snapshots\<close>

definition LOG_SNAPSHOT_TYPE :: string where
  "LOG_SNAPSHOT_TYPE = ''maidan.event-log.snapshot/1''"

definition CATCH_UP_TYPE :: string where
  "CATCH_UP_TYPE = ''maidan.event-log.catch-up/1''"

record log_snapshot =
  sn_type :: string
  sn_workspace :: workspace_id
  sn_as_of_lsn :: int
  sn_floor_lsn :: int
  sn_from_genesis :: bool
  sn_head :: "event_link option"
  sn_floor :: "event_link option"
  sn_graph_hash :: string
  sn_graph :: "json option"

definition snapshot_new ::
  "hashing \<Rightarrow> workspace_id \<Rightarrow> event_link option \<Rightarrow> event_link option \<Rightarrow> json \<Rightarrow> bool
    \<Rightarrow> chain_error + log_snapshot" where
  "snapshot_new H ws floor head graph include_graph =
     and_then (content_hash H graph) (\<lambda>graph_hash.
     Inr \<lparr>sn_type = LOG_SNAPSHOT_TYPE, sn_workspace = ws,
          sn_as_of_lsn = (case head of Some h \<Rightarrow> l_lsn h | None \<Rightarrow> 0),
          sn_floor_lsn = (case floor of Some f \<Rightarrow> l_id f | None \<Rightarrow> 0),
          sn_from_genesis = (case floor of None \<Rightarrow> True | Some link \<Rightarrow> l_prev link = genesis_hash H),
          sn_head = head, sn_floor = floor, sn_graph_hash = graph_hash,
          sn_graph = (if include_graph then Some graph else None)\<rparr>)"

datatype snapshot_break = GraphHashMismatch | HeadLsnMismatch | FloorLsnMismatch | SnapshotMalformedHash

definition verify_snapshot :: "hashing \<Rightarrow> log_snapshot \<Rightarrow> snapshot_break + unit" where
  "verify_snapshot H s =
     (if sn_type s \<noteq> LOG_SNAPSHOT_TYPE then Inl SnapshotMalformedHash
      else if \<not> starts_with (sn_graph_hash s) ''sha256:'' then Inl SnapshotMalformedHash
      else if sn_as_of_lsn s \<noteq> (case sn_head s of Some h \<Rightarrow> l_lsn h | None \<Rightarrow> 0) then Inl HeadLsnMismatch
      else if sn_floor_lsn s \<noteq> (case sn_floor s of Some f \<Rightarrow> l_id f | None \<Rightarrow> 0) then Inl FloorLsnMismatch
      else case sn_graph s of
        None \<Rightarrow> Inr ()
      | Some graph \<Rightarrow>
          (case content_hash H graph of
             Inr h \<Rightarrow> if h = sn_graph_hash s then Inr () else Inl GraphHashMismatch
           | Inl _ \<Rightarrow> Inl SnapshotMalformedHash))"

subsection \<open>Catch-up pages\<close>

record stored_event =
  se_id :: int
  se_lsn :: int
  se_prev_hash :: string
  se_content_hash :: string
  se_payload :: json

definition link :: "stored_event \<Rightarrow> event_link" where
  "link e = \<lparr>l_id = se_id e, l_lsn = se_lsn e, l_prev = se_prev_hash e, l_content = se_content_hash e\<rparr>"

definition verify_catch_up :: "hashing \<Rightarrow> event_link option \<Rightarrow> stored_event list \<Rightarrow> chain_report" where
  "verify_catch_up H previous events = verify_chain_from H previous (map link events) (map se_payload events)"

record catch_up_page =
  cp_type :: string
  cp_workspace :: workspace_id
  cp_after_lsn :: int
  cp_head_lsn :: int
  cp_room_lsn :: int
  cp_events :: "stored_event list"
  cp_chain :: chain_report
  cp_truncated :: bool

definition page_new ::
  "hashing \<Rightarrow> workspace_id \<Rightarrow> int \<Rightarrow> int \<Rightarrow> int \<Rightarrow> stored_event list \<Rightarrow> event_link option \<Rightarrow> bool \<Rightarrow> catch_up_page" where
  "page_new H ws after_lsn head_lsn room_lsn events previous truncated =
     \<lparr>cp_type = CATCH_UP_TYPE, cp_workspace = ws, cp_after_lsn = after_lsn, cp_head_lsn = head_lsn,
      cp_room_lsn = room_lsn, cp_events = events, cp_chain = verify_catch_up H previous events,
      cp_truncated = truncated\<rparr>"

definition page_ok :: "catch_up_page \<Rightarrow> bool" where
  "page_ok p = cr_ok (cp_chain p)"

subsection \<open>Lemmas\<close>

lemma cursor_is_too_old_iff:
  assumes "oldest \<le> I64_MAX"
  shows "cursor_is_too_old a (Some oldest) \<longleftrightarrow> 0 < a \<and> a + 1 < oldest"
  using assms by (auto simp: cursor_is_too_old_def i64_checked_add_def)

lemma verify_catch_up_ok:
  "cr_ok (verify_catch_up H previous events) \<longleftrightarrow> chain_ok H previous (map (\<lambda>e. (link e, se_payload e)) events)"
  by (simp add: verify_catch_up_def verify_chain_from_ok zip_map_map)
    (simp add: zip_same_conv_map comp_def case_prod_beta)

lemma content_hash_prefix: "content_hash H g = Inr h \<Longrightarrow> starts_with h ''sha256:''"
  by (auto simp: content_hash_def hash_bytes_def encode_digest_def HASH_PREFIX_def starts_with_prefix
      split: sum.splits)

lemma snapshot_new_verifies: "snapshot_new H ws floor head graph inc = Inr s \<Longrightarrow> verify_snapshot H s = Inr ()"
  using content_hash_prefix
  by (auto simp: snapshot_new_def and_then_Inr verify_snapshot_def split: option.splits)

lemma verify_snapshot_ok:
  "verify_snapshot H s = Inr () \<longleftrightarrow>
     sn_type s = LOG_SNAPSHOT_TYPE \<and> prefix ''sha256:'' (sn_graph_hash s)
     \<and> sn_as_of_lsn s = (case sn_head s of Some h \<Rightarrow> l_lsn h | None \<Rightarrow> 0)
     \<and> sn_floor_lsn s = (case sn_floor s of Some f \<Rightarrow> l_id f | None \<Rightarrow> 0)
     \<and> (case sn_graph s of None \<Rightarrow> True | Some graph \<Rightarrow> content_hash H graph = Inr (sn_graph_hash s))"
  by (auto simp: verify_snapshot_def starts_with_prefix split: option.splits sum.splits)

subsection \<open>Properties\<close>

text \<open>C36: A snapshot built from a graph and two links verifies, and a snapshot that verifies with a
  graph in it carries that graph's hash: with no collision between them, whoever replaces the graph
  by one that differs is refused.  A snapshot without a graph is checked for its type, its two
  positions and the prefix of its hash only: the rest of the hash may be anything.\<close>

theorem snapshot_verification:
  assumes "string_literals (ser_string H)" "number_literals (ser_number H)" "wf_json g" "wf_json g'"
    and "inj_on (sha256 H) (set (preimages H [(l, g), (l, g')]))"
    and "snapshot_new H ws floor head g inc = Inr s"
  shows "verify_snapshot H s = Inr () \<and>
    (verify_snapshot H (s\<lparr>sn_graph := Some g'\<rparr>) = Inr () \<longleftrightarrow> same_json g g') \<and>
    verify_snapshot H (s\<lparr>sn_graph := None, sn_graph_hash := ''sha256:''\<rparr>) = Inr ()"
proof -
  have ok: "verify_snapshot H s = Inr ()" using snapshot_new_verifies [OF assms(6)] .
  have hash: "content_hash H g = Inr (sn_graph_hash s)"
    using assms(6) by (auto simp: snapshot_new_def and_then_Inr)
  have "content_hash H g' = Inr (sn_graph_hash s) \<longleftrightarrow> same_json g g'"
  proof
    assume h': "content_hash H g' = Inr (sn_graph_hash s)"
    show "same_json g g'"
      by (rule same_content [OF assms(1-4) hash h' assms(5)])
        (simp_all add: preimages_def row_preimages_def)
  next
    assume "same_json g g'"
    then have "canonical_json (ser_string H) (ser_number H) g = canonical_json (ser_string H) (ser_number H) g'"
      using assms(3,4) by (simp add: canonical_json_def same_write)
    then show "content_hash H g' = Inr (sn_graph_hash s)" using hash by (simp add: content_hash_def)
  qed
  then show ?thesis using ok by (simp add: verify_snapshot_ok)
qed

definition sample_snapshot :: log_snapshot where
  "sample_snapshot = projr (snapshot_new plain_hashing 1 None (Some sample_link) sample_payload True)"

lemma sample_preimages_distinct:
  "distinct (map (sha256 plain_hashing)
     (remdups (preimages plain_hashing [(sample_link, sample_payload), (sample_link, Null)])))"
  by code_simp

theorem snapshot_verification_witness:
  "verify_snapshot plain_hashing sample_snapshot = Inr () \<and>
   verify_snapshot plain_hashing (sample_snapshot\<lparr>sn_graph := Some Null\<rparr>) \<noteq> Inr ()"
proof -
  have new: "snapshot_new plain_hashing 1 None (Some sample_link) sample_payload True = Inr sample_snapshot"
    by (rule content_hash_total [OF plain_hashing_literals(1), of sample_payload])
      (simp add: sample_snapshot_def snapshot_new_def)
  have wf: "wf_json sample_payload" "wf_json Null" by (simp_all add: sample_payload_def)
  have differ: "\<not> same_json sample_payload Null"
    by (auto simp: sample_payload_def elim: same_json.cases)
  show ?thesis
    using snapshot_verification [OF plain_hashing_literals wf inj_on_remdups [OF sample_preimages_distinct] new]
      differ by simp
qed

end
