(* ===== verification/Event_Log.thy ===== *)
theory Event_Log
  imports Log_Snapshot Store_Tables
begin

text \<open>
  The event log on SQLite: \<open>maidan-store/src/sqlite/events.rs\<close>, \<open>outbox.rs\<close>, \<open>delivery_cursor.rs\<close>, the event
  half of \<open>retention.rs\<close>, and \<open>maidan-store/src/log_snapshot.rs\<close> over them.

  A transaction takes the tables and returns them changed, or an error and nothing.  Rows carry the
  columns the chain, retention and the outbox read.  Sealing a message's words
  (\<open>content_keys::prepare_in_tx\<close>) is the argument \<open>prepare\<close> of an append: what is hashed and stored is
  what it returns, and every result below holds for all of them.  The request's attribution enters as
  the JSON value serde makes of it.
\<close>

subsection \<open>Tables\<close>

record event_row =
  ev_id :: int
  ev_workspace :: "workspace_id option"
  ev_payload :: json
  ev_occurred :: instant
  ev_prev :: string
  ev_content :: string
  ev_content_key :: "nat option"

record outbox_row =
  ob_id :: int
  ob_log :: int
  ob_published :: "instant option"
  ob_attempts :: int
  ob_quarantined :: "instant option"
  ob_claimed :: "instant option"

record delivery_cursor =
  dc_consumer :: string
  dc_workspace :: workspace_id
  dc_last :: int
  dc_updated :: instant

record event_db =
  events :: "event_row list"
  event_seq :: int
  outbox :: "outbox_row list"
  outbox_seq :: int
  legal_holds :: "workspace_id list"
  delivery_cursors :: "delivery_cursor list"

text \<open>\<open>SELECT ... WHERE P ORDER BY id\<close>, and its \<open>LIMIT 1\<close> at either end.\<close>

definition by_id :: "(event_row \<Rightarrow> bool) \<Rightarrow> event_db \<Rightarrow> event_row list" where
  "by_id P db = sort_key ev_id (filter P (events db))"

definition oldest :: "'a list \<Rightarrow> 'a option" where
  "oldest xs = (case xs of [] \<Rightarrow> None | x # _ \<Rightarrow> Some x)"

definition newest :: "'a list \<Rightarrow> 'a option" where
  "newest xs = (if xs = [] then None else Some (last xs))"

definition row_to_link :: "event_row \<Rightarrow> event_link" where
  "row_to_link r = \<lparr>l_id = ev_id r, l_lsn = ev_id r, l_prev = ev_prev r, l_content = ev_content r\<rparr>"

definition row_to_stored :: "event_row \<Rightarrow> stored_event" where
  "row_to_stored r =
     \<lparr>se_id = ev_id r, se_lsn = ev_id r, se_prev_hash = ev_prev r, se_content_hash = ev_content r,
      se_payload = ev_payload r\<rparr>"

definition chain_head_in_tx :: "workspace_id option \<Rightarrow> event_db \<Rightarrow> event_link option" where
  "chain_head_in_tx ws db = map_option row_to_link (newest (by_id (\<lambda>r. ev_workspace r = ws) db))"

definition floor_link :: "workspace_id \<Rightarrow> event_db \<Rightarrow> event_link option" where
  "floor_link ws db = map_option row_to_link (oldest (by_id (\<lambda>r. ev_workspace r = Some ws) db))"

definition head_link :: "workspace_id \<Rightarrow> event_db \<Rightarrow> event_link option" where
  "head_link ws db = map_option row_to_link (newest (by_id (\<lambda>r. ev_workspace r = Some ws) db))"

definition link_at_or_before :: "workspace_id \<Rightarrow> int \<Rightarrow> event_db \<Rightarrow> event_link option" where
  "link_at_or_before ws lsn db =
     map_option row_to_link (newest (by_id (\<lambda>r. ev_workspace r = Some ws \<and> ev_id r \<le> lsn) db))"

definition previous_link :: "workspace_id option \<Rightarrow> int \<Rightarrow> event_db \<Rightarrow> event_link option" where
  "previous_link ws i db =
     map_option row_to_link (newest (by_id (\<lambda>r. ev_workspace r = ws \<and> ev_id r < i) db))"

definition min_event_id :: "workspace_id \<Rightarrow> event_db \<Rightarrow> int option" where
  "min_event_id ws db =
     (case filter (\<lambda>r. ev_workspace r = Some ws) (events db) of
        [] \<Rightarrow> None
      | rows \<Rightarrow> Some (Min (set (map ev_id rows))))"

definition max_event_id :: "event_db \<Rightarrow> int" where
  "max_event_id db = (case events db of [] \<Rightarrow> 0 | rows \<Rightarrow> Max (set (map ev_id rows)))"

subsection \<open>Appending\<close>

text \<open>\<open>Map::insert\<close> on an object kept in key order.\<close>

definition obj_insert :: "string \<Rightarrow> json \<Rightarrow> (string \<times> json) list \<Rightarrow> (string \<times> json) list" where
  "obj_insert k v m =
     (if k \<in> set (map fst m) then map (\<lambda>(k', v'). (k', if k' = k then v else v')) m
      else insort_key fst (k, v) m)"

definition attach_to_payload :: "json option \<Rightarrow> json \<Rightarrow> json" where
  "attach_to_payload attribution payload =
     (case (attribution, payload) of
        (Some a, Obj m) \<Rightarrow> Obj (obj_insert ''attribution'' a m)
      | _ \<Rightarrow> payload)"

definition enqueue_in_tx :: "int \<Rightarrow> event_db \<Rightarrow> event_db" where
  "enqueue_in_tx log_id db =
     db\<lparr>outbox := outbox db @ [\<lparr>ob_id = outbox_seq db + 1, ob_log = log_id, ob_published = None,
          ob_attempts = 0, ob_quarantined = None, ob_claimed = None\<rparr>],
        outbox_seq := outbox_seq db + 1\<rparr>"

definition append_with_keys_in_tx ::
  "hashing \<Rightarrow> json option \<Rightarrow> (json \<Rightarrow> store_error + json \<times> nat option) \<Rightarrow>
    json \<Rightarrow> workspace_id option \<Rightarrow> instant \<Rightarrow> event_db \<Rightarrow> store_error + stored_event \<times> event_db" where
  "append_with_keys_in_tx H attribution prepare event ws occurred db =
     and_then (prepare (normalize_payload_numbers (attach_to_payload attribution event))) (\<lambda>(payload, key).
       let previous = chain_head_in_tx ws db in
       case content_hash H payload of
         Inl e \<Rightarrow> Inl (InvalidInput ''event chain'')
       | Inr content \<Rightarrow>
           let row = \<lparr>ev_id = event_seq db + 1, ev_workspace = ws, ev_payload = payload,
                 ev_occurred = occurred, ev_prev = next_prev_hash H previous, ev_content = content,
                 ev_content_key = key\<rparr>;
               db = db\<lparr>events := events db @ [row], event_seq := event_seq db + 1\<rparr>
           in Inr (row_to_stored row, enqueue_in_tx (ev_id row) db))"

subsection \<open>Reading and verifying\<close>

definition list_after :: "workspace_id \<Rightarrow> int \<Rightarrow> nat \<Rightarrow> event_db \<Rightarrow> stored_event list" where
  "list_after ws after_id limit db =
     map row_to_stored (take limit (by_id (\<lambda>r. ev_workspace r = Some ws \<and> after_id < ev_id r) db))"

definition remaining :: "workspace_id \<Rightarrow> int \<Rightarrow> event_db \<Rightarrow> nat" where
  "remaining ws after_id db =
     length (filter (\<lambda>r. ev_workspace r = Some ws \<and> after_id < ev_id r) (events db))"

lemma length_filter_mono_less:
  "x \<in> set xs \<Longrightarrow> P x \<Longrightarrow> \<not> Q x \<Longrightarrow> (\<And>y. Q y \<Longrightarrow> P y) \<Longrightarrow> length (filter Q xs) < length (filter P xs)"
proof (induction xs)
  case (Cons y ys)
  have le: "length (filter Q ys) \<le> length (filter P ys)"
    using Cons.prems(4) by (induction ys) auto
  show ?case
  proof (cases "x = y")
    case True
    then show ?thesis using Cons.prems le by simp
  next
    case False
    then show ?thesis using Cons by auto
  qed
qed simp

lemma list_after_mem:
  assumes "e \<in> set (list_after ws after_id limit db)"
  obtains r where "r \<in> set (events db)" "ev_workspace r = Some ws" "after_id < ev_id r" "e = row_to_stored r"
  using assms by (auto simp: list_after_def by_id_def dest!: in_set_takeD)

lemma remaining_decreases:
  assumes "list_after ws after_id limit db \<noteq> []"
  shows "remaining ws (se_id (last (list_after ws after_id limit db))) db < remaining ws after_id db"
proof -
  have "last (list_after ws after_id limit db) \<in> set (list_after ws after_id limit db)"
    using assms by simp
  then obtain r where r: "r \<in> set (events db)" "ev_workspace r = Some ws" "after_id < ev_id r"
    "last (list_after ws after_id limit db) = row_to_stored r"
    by (rule list_after_mem)
  then have i: "se_id (last (list_after ws after_id limit db)) = ev_id r" by (simp add: row_to_stored_def)
  show ?thesis
    unfolding remaining_def i using r by (intro length_filter_mono_less [of r]) auto
qed

text \<open>The paged walk of the retained suffix.\<close>

function verify_pages ::
  "hashing \<Rightarrow> workspace_id \<Rightarrow> event_db \<Rightarrow> int \<Rightarrow> chain_verifier \<Rightarrow> chain_report" where
  "verify_pages H ws db after_id verifier =
     (let page = list_after ws after_id 256 db in
      if page = [] then finish verifier
      else case push_all H (map (\<lambda>e. (link e, se_payload e)) page) verifier of
             Inl report \<Rightarrow> report
           | Inr verifier \<Rightarrow> verify_pages H ws db (se_id (last page)) verifier)"
  by auto
termination
  by (relation "measure (\<lambda>(H, ws, db, after_id, v). remaining ws after_id db)")
    (use remaining_decreases in auto)

declare verify_pages.simps [simp del]

definition store_verify_chain :: "hashing \<Rightarrow> workspace_id \<Rightarrow> event_db \<Rightarrow> chain_report" where
  "store_verify_chain H ws db = verify_pages H ws db 0 (verifier_new H)"

subsection \<open>Snapshot and catch-up\<close>

definition CATCH_UP_LIMIT :: int where
  "CATCH_UP_LIMIT = 500"

definition build_log_snapshot ::
  "hashing \<Rightarrow> workspace_id \<Rightarrow> json \<Rightarrow> bool \<Rightarrow> event_db \<Rightarrow> store_error + log_snapshot" where
  "build_log_snapshot H ws graph include_graph db =
     (case snapshot_new H ws (floor_link ws db) (head_link ws db) graph include_graph of
        Inl e \<Rightarrow> Inl (InvalidInput ''event chain'')
      | Inr s \<Rightarrow> Inr s)"

definition ensure_cursor_fresh :: "workspace_id \<Rightarrow> int \<Rightarrow> event_db \<Rightarrow> store_error + unit" where
  "ensure_cursor_fresh ws after_id db =
     (if after_id \<le> 0 then Inr ()
      else case min_event_id ws db of
        None \<Rightarrow> Inr ()
      | Some oldest_id \<Rightarrow>
          if cursor_is_too_old after_id (Some oldest_id) then Inl (CursorTooOld after_id oldest_id)
          else Inr ())"

definition catch_up_since ::
  "hashing \<Rightarrow> workspace_id \<Rightarrow> int \<Rightarrow> int \<Rightarrow> event_db \<Rightarrow> store_error + catch_up_page" where
  "catch_up_since H ws after_lsn limit db =
     (if after_lsn < 0 then Inl (InvalidInput ''after_lsn must be non-negative'')
      else and_then (ensure_cursor_fresh ws after_lsn db) (\<lambda>_.
        let limit = max 1 (min limit CATCH_UP_LIMIT);
            events = list_after ws after_lsn (nat limit) db;
            truncated = (int (length events) = limit);
            head_lsn = (case head_link ws db of Some h \<Rightarrow> l_lsn h | None \<Rightarrow> 0);
            previous = (if 0 < after_lsn then link_at_or_before ws after_lsn db else None)
        in Inr (page_new H ws after_lsn head_lsn (max_event_id db) events previous truncated)))"

subsection \<open>Retention\<close>

definition min_delivery_cursor :: "(instant \<Rightarrow> int) \<Rightarrow> instant \<Rightarrow> event_db \<Rightarrow> int option" where
  "min_delivery_cursor jd advanced_since db =
     (case filter (\<lambda>c. jd advanced_since \<le> jd (dc_updated c)) (delivery_cursors db) of
        [] \<Rightarrow> None
      | cs \<Rightarrow> Some (Min (set (map dc_last cs))))"

definition get_cursor :: "string \<Rightarrow> workspace_id \<Rightarrow> event_db \<Rightarrow> int" where
  "get_cursor consumer ws db =
     (case find (\<lambda>c. dc_consumer c = consumer \<and> dc_workspace c = ws) (delivery_cursors db) of
        None \<Rightarrow> 0
      | Some c \<Rightarrow> dc_last c)"

definition advance_cursor :: "instant \<Rightarrow> string \<Rightarrow> workspace_id \<Rightarrow> int \<Rightarrow> event_db \<Rightarrow> int \<times> event_db" where
  "advance_cursor clk consumer ws log_id db =
     (let new_id = max log_id (get_cursor consumer ws db);
          mine = (\<lambda>c. dc_consumer c = consumer \<and> dc_workspace c = ws);
          cs = (if list_ex mine (delivery_cursors db)
                then update_where mine
                       (\<lambda>c. c\<lparr>dc_last := (if dc_last c < new_id then new_id else dc_last c), dc_updated := clk\<rparr>)
                       (delivery_cursors db)
                else delivery_cursors db @
                       [\<lparr>dc_consumer = consumer, dc_workspace = ws, dc_last = new_id, dc_updated = clk\<rparr>]);
          db = db\<lparr>delivery_cursors := cs\<rparr>
      in (get_cursor consumer ws db, db))"

text \<open>\<open>DELETE FROM maidan_events WHERE id IN (...)\<close>; the outbox row of a deleted event goes with it.\<close>

definition delete_events :: "event_row list \<Rightarrow> event_db \<Rightarrow> event_db" where
  "delete_events victims db =
     db\<lparr>events := filter (\<lambda>r. ev_id r \<notin> set (map ev_id victims)) (events db),
        outbox := filter (\<lambda>o'. ob_log o' \<notin> set (map ev_id victims)) (outbox db)\<rparr>"

definition prune_events :: "instant \<Rightarrow> int \<Rightarrow> nat \<Rightarrow> event_db \<Rightarrow> nat \<times> event_db" where
  "prune_events cutoff max_id limit db =
     (let victims = take limit (by_id (\<lambda>r. ev_id r \<le> max_id \<and> ev_occurred r < cutoff \<and>
            (case ev_workspace r of None \<Rightarrow> True | Some ws \<Rightarrow> ws \<notin> set (legal_holds db))) db)
      in (length victims, delete_events victims db))"

definition prune_workspace_events ::
  "(instant \<Rightarrow> int) \<Rightarrow> workspace_id \<Rightarrow> instant \<Rightarrow> nat \<Rightarrow> event_db \<Rightarrow> nat \<times> event_db" where
  "prune_workspace_events jd ws cutoff limit db =
     (let cs = filter (\<lambda>c. dc_workspace c = ws \<and> jd cutoff \<le> jd (dc_updated c)) (delivery_cursors db);
          floor = (if cs = [] then I64_MAX else Min (set (map dc_last cs)));
          victims = take limit (by_id (\<lambda>r. ev_workspace r = Some ws \<and> ev_occurred r < cutoff \<and>
            ev_id r \<le> floor \<and> ws \<notin> set (legal_holds db)) db)
      in (length victims, delete_events victims db))"

text \<open>\<open>prune_loop\<close> of \<open>maidan-server/src/retention.rs\<close> over \<open>prune_events\<close>: until a batch comes back
  short.  The configuration never has a batch of zero, with which the loop would not end.\<close>

lemma delete_fewer:
  assumes "take limit (by_id P db) \<noteq> []"
  shows "length (events (delete_events (take limit (by_id P db)) db)) < length (events db)"
proof -
  obtain r where r: "r \<in> set (take limit (by_id P db))" using assms by (meson ex_in_conv set_empty)
  then have "r \<in> set (events db)" by (auto simp: by_id_def dest!: in_set_takeD)
  then show ?thesis
    unfolding delete_events_def using r
    by (auto intro!: List.length_filter_less [of r])
qed

function prune_loop :: "instant \<Rightarrow> int \<Rightarrow> nat \<Rightarrow> nat \<Rightarrow> event_db \<Rightarrow> nat \<times> event_db" where
  "prune_loop cutoff max_id batch acc db =
     (let (n, db') = prune_events cutoff max_id batch db in
      if n < batch \<or> batch = 0 then (acc + n, db')
      else prune_loop cutoff max_id batch (acc + n) db')"
  by auto
termination
proof (relation "measure (\<lambda>(cutoff, max_id, batch, acc, db). length (events db))")
  fix cutoff max_id batch and acc :: nat and db x n db'
  assume x: "x = prune_events cutoff max_id batch db" "(n, db') = x" and go: "\<not> (n < batch \<or> batch = 0)"
  let ?P = "\<lambda>r. ev_id r \<le> max_id \<and> ev_occurred r < cutoff \<and>
            (case ev_workspace r of None \<Rightarrow> True | Some ws \<Rightarrow> ws \<notin> set (legal_holds db))"
  have nd: "n = length (take batch (by_id ?P db))" "db' = delete_events (take batch (by_id ?P db)) db"
    using x by (simp_all add: prune_events_def Let_def)
  then have "take batch (by_id ?P db) \<noteq> []" using go by (cases "take batch (by_id ?P db)") auto
  then show "((cutoff, max_id, batch, acc + n, db'), cutoff, max_id, batch, acc, db)
      \<in> measure (\<lambda>(cutoff, max_id, batch, acc, db). length (events db))"
    using delete_fewer nd(2) by simp
qed simp

declare prune_loop.simps [simp del]

subsection \<open>The outbox\<close>

definition relayable :: "outbox_row \<Rightarrow> bool" where
  "relayable o' \<longleftrightarrow> ob_published o' = None \<and> ob_quarantined o' = None"

definition claim_pending :: "instant \<Rightarrow> nat \<Rightarrow> int \<Rightarrow> event_db \<Rightarrow> outbox_row list \<times> event_db" where
  "claim_pending now limit lease_secs db =
     (let cutoff = now - secs lease_secs;
          picked = take limit (sort_key ob_id (filter (\<lambda>o'. relayable o' \<and>
            (case ob_claimed o' of None \<Rightarrow> True | Some c \<Rightarrow> c < cutoff)) (outbox db)));
          ids = set (map ob_id picked);
          db = db\<lparr>outbox := update_where (\<lambda>o'. ob_id o' \<in> ids) (\<lambda>o'. o'\<lparr>ob_claimed := Some now\<rparr>) (outbox db)\<rparr>
      in (sort_key ob_id (filter (\<lambda>o'. ob_id o' \<in> ids \<and> ob_log o' \<in> set (map ev_id (events db))) (outbox db)), db))"

definition mark_published :: "instant \<Rightarrow> int \<Rightarrow> event_db \<Rightarrow> store_error + event_db" where
  "mark_published clk i db =
     (let hit = (\<lambda>o'. ob_id o' = i \<and> ob_published o' = None) in
      if \<not> list_ex hit (outbox db) then Inl NotFound
      else Inr (db\<lparr>outbox := update_where hit (\<lambda>o'. o'\<lparr>ob_published := Some clk\<rparr>) (outbox db)\<rparr>))"

definition mark_published_batch :: "instant \<Rightarrow> int list \<Rightarrow> event_db \<Rightarrow> event_db" where
  "mark_published_batch clk ids db =
     (if ids = [] then db
      else db\<lparr>outbox := update_where (\<lambda>o'. ob_published o' = None \<and> ob_id o' \<in> set ids)
                 (\<lambda>o'. o'\<lparr>ob_published := Some clk\<rparr>) (outbox db)\<rparr>)"

definition record_attempt :: "int \<Rightarrow> event_db \<Rightarrow> store_error + int \<times> event_db" where
  "record_attempt i db =
     (let db' = db\<lparr>outbox := update_where (\<lambda>o'. ob_id o' = i)
                 (\<lambda>o'. o'\<lparr>ob_attempts := ob_attempts o' + 1, ob_claimed := None\<rparr>) (outbox db)\<rparr> in
      case find (\<lambda>o'. ob_id o' = i) (outbox db') of
        None \<Rightarrow> Inl NotFound
      | Some o' \<Rightarrow> Inr (ob_attempts o', db'))"

definition quarantine :: "instant \<Rightarrow> int \<Rightarrow> event_db \<Rightarrow> event_db" where
  "quarantine clk i db =
     db\<lparr>outbox := update_where (\<lambda>o'. ob_id o' = i \<and> ob_quarantined o' = None)
          (\<lambda>o'. o'\<lparr>ob_quarantined := Some clk\<rparr>) (outbox db)\<rparr>"

definition replay_quarantined :: "int \<Rightarrow> workspace_id \<Rightarrow> event_db \<Rightarrow> store_error + event_db" where
  "replay_quarantined i ws db =
     (let hit = (\<lambda>o'. ob_id o' = i \<and> ob_published o' = None \<and> ob_quarantined o' \<noteq> None \<and>
            ob_log o' \<in> set (map ev_id (filter (\<lambda>r. ev_workspace r = Some ws) (events db)))) in
      if \<not> list_ex hit (outbox db) then Inl NotFound
      else Inr (db\<lparr>outbox := update_where hit
                   (\<lambda>o'. o'\<lparr>ob_quarantined := None, ob_attempts := 0\<rparr>) (outbox db)\<rparr>))"

definition count_pending :: "event_db \<Rightarrow> nat" where
  "count_pending db = length (filter relayable (outbox db))"

subsection \<open>Backfill of rows older than the chain\<close>

definition fill_link :: "int \<Rightarrow> event_link \<Rightarrow> event_db \<Rightarrow> event_db" where
  "fill_link i l db =
     db\<lparr>events := update_where (\<lambda>r. ev_id r = i \<and> ev_content r = [])
          (\<lambda>r. r\<lparr>ev_prev := l_prev l, ev_content := l_content l\<rparr>) (events db)\<rparr>"

fun backfill_rows :: "hashing \<Rightarrow> event_row list \<Rightarrow> event_db \<Rightarrow> store_error + event_db" where
  "backfill_rows H [] db = Inr db"
| "backfill_rows H (r # rows) db =
     (case link_for H (ev_id r) (ev_payload r) (previous_link (ev_workspace r) (ev_id r) db) of
        Inl e \<Rightarrow> Inl (InvalidInput ''event chain'')
      | Inr l \<Rightarrow> backfill_rows H rows (fill_link (ev_id r) l db))"

definition blanks :: "event_db \<Rightarrow> event_row list" where
  "blanks db = filter (\<lambda>r. ev_content r = []) (events db)"

lemma link_for_not_blank: "link_for H i p q = Inr l \<Longrightarrow> l_content l \<noteq> []"
  by (auto simp: link_for_def and_then_Inr content_hash_def hash_bytes_def encode_digest_def HASH_PREFIX_def
      split: sum.splits)

lemma fill_link_blanks:
  assumes "l_content l \<noteq> []"
  shows "blanks (fill_link i l db) = filter (\<lambda>r. ev_id r \<noteq> i) (blanks db)"
proof -
  have "filter (\<lambda>r. ev_content r = []) (update_where (\<lambda>r. ev_id r = i \<and> ev_content r = [])
          (\<lambda>r. r\<lparr>ev_prev := l_prev l, ev_content := l_content l\<rparr>) rows)
      = filter (\<lambda>r. ev_id r \<noteq> i) (filter (\<lambda>r. ev_content r = []) rows)" for rows
    using assms by (induction rows) (auto simp: update_where_def)
  then show ?thesis by (simp add: blanks_def fill_link_def)
qed

lemma backfill_rows_blanks:
  "backfill_rows H rows db = Inr db' \<Longrightarrow> blanks db' = filter (\<lambda>r. ev_id r \<notin> set (map ev_id rows)) (blanks db)"
proof (induction H rows db rule: backfill_rows.induct)
  case (2 H r rows db)
  then obtain l where l: "link_for H (ev_id r) (ev_payload r) (previous_link (ev_workspace r) (ev_id r) db) = Inr l"
    "backfill_rows H rows (fill_link (ev_id r) l db) = Inr db'"
    by (auto split: sum.splits)
  then have "blanks db' = filter (\<lambda>r. ev_id r \<notin> set (map ev_id rows)) (filter (\<lambda>s. ev_id s \<noteq> ev_id r) (blanks db))"
    using 2(1) [OF l] fill_link_blanks [OF link_for_not_blank [OF l(1)]] by simp
  then show ?case by (simp add: conj_commute)
qed simp

function backfill_chain :: "hashing \<Rightarrow> event_db \<Rightarrow> store_error + event_db" where
  "backfill_chain H db =
     (let rows = take 256 (by_id (\<lambda>r. ev_content r = []) db) in
      if rows = [] then Inr db
      else case backfill_rows H rows db of
             Inl e \<Rightarrow> Inl e
           | Inr db' \<Rightarrow> if length rows < 256 then Inr db' else backfill_chain H db')"
  by auto
termination
proof (relation "measure (\<lambda>(H, db). length (blanks db))")
  fix H db rows db'
  assume rows: "rows = take 256 (by_id (\<lambda>r. ev_content r = []) db)" "rows \<noteq> []"
    and fill: "backfill_rows H rows db = Inr db'"
  obtain r where r: "r \<in> set rows" using rows(2) by (meson ex_in_conv set_empty)
  then have "r \<in> set (blanks db)" using rows(1) by (auto simp: by_id_def blanks_def dest!: in_set_takeD)
  then show "((H, db'), H, db) \<in> measure (\<lambda>(H, db). length (blanks db))"
    using backfill_rows_blanks [OF fill] r by (auto intro!: List.length_filter_less [of r])
qed simp

declare backfill_chain.simps [simp del]

end
