(* ===== verification/Log_Integrity.thy ===== *)
theory Log_Integrity
  imports Event_Log
begin

text \<open>
  What the event log keeps: ids that only grow, one verifying chain per workspace through any
  interleaving of appends, the paged verifier as the whole-chain verifier, catch-up pages that verify
  and miss nothing, and which deletions of retention the chain survives.
\<close>

subsection \<open>Ids in order\<close>

definition log_wf :: "event_db \<Rightarrow> bool" where
  "log_wf db \<longleftrightarrow>
     sorted_wrt (<) (map ev_id (events db)) \<and> list_all (\<lambda>r. 0 < ev_id r \<and> ev_id r \<le> event_seq db) (events db)
     \<and> 0 \<le> event_seq db"

lemma log_wf_sorted: "log_wf db \<Longrightarrow> sorted_wrt (\<lambda>r s. ev_id r < ev_id s) (filter P (events db))"
  by (simp add: log_wf_def sorted_wrt_map sorted_wrt_filter)

lemma by_id_filter:
  assumes "log_wf db"
  shows "by_id P db = filter P (events db)"
proof -
  have "sorted (map ev_id (filter P (events db)))"
    using log_wf_sorted [OF assms, of P]
    by (simp add: sorted_wrt_map) (rule sorted_wrt_mono_rel, auto)
  then show ?thesis by (simp add: by_id_def sort_key_id_if_sorted)
qed

lemma sorted_split_at:
  assumes "sorted_wrt (\<lambda>r s. f r < (f s :: int)) xs"
  shows "xs = filter (\<lambda>r. f r \<le> k) xs @ filter (\<lambda>r. k < f r) xs"
  using assms
proof (induction xs)
  case (Cons x xs)
  show ?case
  proof (cases "f x \<le> k")
    case True
    then show ?thesis using Cons by simp
  next
    case False
    then have "filter (\<lambda>r. f r \<le> k) xs = []" using Cons.prems by (auto simp: filter_empty_conv)
    then show ?thesis using Cons False by auto
  qed
qed simp

lemma filter_after_prefix:
  assumes "sorted_wrt (\<lambda>r s. f r < (f s :: int)) (p @ d)" "p \<noteq> []"
  shows "filter (\<lambda>r. f (last p) < f r) (p @ d) = d"
proof -
  obtain q l where p: "p = q @ [l]" using assms(2) by (cases p rule: rev_cases) auto
  have "\<forall>r \<in> set q. \<not> f l < f r" "\<forall>r \<in> set d. f l < f r"
    using assms(1) p by (auto simp: sorted_wrt_append)
  then show ?thesis using p by (simp add: filter_empty_conv)
qed

lemma filter_after_page:
  assumes "sorted_wrt (\<lambda>r s. f r < (f s :: int)) xs" "0 < n" "xs \<noteq> []"
  shows "filter (\<lambda>r. f (last (take n xs)) < f r) xs = drop n xs"
  using filter_after_prefix [of f "take n xs" "drop n xs"] assms by simp

subsection \<open>One chain per workspace\<close>

definition pairs :: "event_row list \<Rightarrow> (event_link \<times> json) list" where
  "pairs rows = map (\<lambda>r. (row_to_link r, ev_payload r)) rows"

definition workspace_rows :: "workspace_id option \<Rightarrow> event_db \<Rightarrow> event_row list" where
  "workspace_rows ws db = filter (\<lambda>r. ev_workspace r = ws) (events db)"

definition chains_ok :: "hashing \<Rightarrow> event_db \<Rightarrow> bool" where
  "chains_ok H db \<longleftrightarrow> (\<forall>ws. chain_ok H None (pairs (workspace_rows ws db)))"

lemma pairs_append [simp]: "pairs (a @ b) = pairs a @ pairs b"
  by (simp add: pairs_def)

lemma pairs_Nil [simp]: "pairs [] = []" "pairs rows = [] \<longleftrightarrow> rows = []"
  by (simp_all add: pairs_def)

lemma run_head_pairs: "run_head None (pairs rows) = map_option row_to_link (newest rows)"
  by (simp add: run_head_def newest_def pairs_def last_map)

lemma stored_pair: "(link (row_to_stored r), se_payload (row_to_stored r)) = (row_to_link r, ev_payload r)"
  by (simp add: link_def row_to_stored_def row_to_link_def)

lemma stored_pairs: "map (\<lambda>e. (link e, se_payload e)) (map row_to_stored rows) = pairs rows"
  using stored_pair by (simp add: pairs_def)

lemma chain_ok_suffix: "chain_ok H None (a @ b) \<Longrightarrow> chain_ok H None b"
  by (cases b) (auto simp: chain_ok_append follows_def)

lemma append_inv:
  assumes "append_with_keys_in_tx H att prepare event ws occ db = Inr (e, db')"
  obtains row payload key content where
    "prepare (normalize_payload_numbers (attach_to_payload att event)) = Inr (payload, key)"
    "content_hash H payload = Inr content"
    "row = \<lparr>ev_id = event_seq db + 1, ev_workspace = ws, ev_payload = payload, ev_occurred = occ,
       ev_prev = next_prev_hash H (chain_head_in_tx ws db), ev_content = content, ev_content_key = key\<rparr>"
    "e = row_to_stored row"
    "events db' = events db @ [row]" "event_seq db' = event_seq db + 1"
    "outbox db' = outbox db @ [\<lparr>ob_id = outbox_seq db + 1, ob_log = ev_id row, ob_published = None,
       ob_attempts = 0, ob_quarantined = None, ob_claimed = None\<rparr>]"
    "outbox_seq db' = outbox_seq db + 1" "legal_holds db' = legal_holds db"
    "delivery_cursors db' = delivery_cursors db"
proof -
  obtain payload key where p: "prepare (normalize_payload_numbers (attach_to_payload att event)) = Inr (payload, key)"
    using assms by (auto simp: append_with_keys_in_tx_def and_then_Inr)
  obtain content where c: "content_hash H payload = Inr content"
    using assms p by (cases "content_hash H payload") (auto simp: append_with_keys_in_tx_def Let_def)
  show thesis
    using assms p c by (intro that [OF p c refl])
      (auto simp: append_with_keys_in_tx_def Let_def enqueue_in_tx_def)
qed

lemma append_log_wf:
  assumes "append_with_keys_in_tx H att prepare event ws occ db = Inr (e, db')" "log_wf db"
  shows "log_wf db'"
  by (rule append_inv [OF assms(1)])
    (use assms(2) in \<open>force simp: log_wf_def sorted_wrt_append list_all_iff\<close>)

lemma append_chains_ok:
  assumes "append_with_keys_in_tx H att prepare event ws occ db = Inr (e, db')"
    "log_wf db" "chains_ok H db" "digests H"
  shows "chains_ok H db'"
proof (rule append_inv [OF assms(1)])
  fix row payload key content
  assume c: "content_hash H payload = Inr content"
    and row: "row = \<lparr>ev_id = event_seq db + 1, ev_workspace = ws, ev_payload = payload, ev_occurred = occ,
       ev_prev = next_prev_hash H (chain_head_in_tx ws db), ev_content = content, ev_content_key = key\<rparr>"
    and ev: "events db' = events db @ [row]"
  let ?rows = "workspace_rows ws db"
  have head: "chain_head_in_tx ws db = run_head None (pairs ?rows)"
    using by_id_filter [OF assms(2)] by (simp add: chain_head_in_tx_def run_head_pairs workspace_rows_def)
  have sealed: "sealed_row H (row_to_link row) (ev_payload row)"
    using c hashes_well_formed(4) [OF assms(4)] content_hash_well_formed [OF assms(4) c]
    by (simp add: sealed_row_def row row_to_link_def)
  have "l_id q < ev_id row" if "run_head None (pairs ?rows) = Some q" for q
  proof -
    have "\<exists>r \<in> set (events db). q = row_to_link r"
      using that last_in_set [of ?rows]
      by (auto simp: run_head_pairs newest_def workspace_rows_def split: if_splits)
    then show ?thesis using assms(2) row by (auto simp: log_wf_def list_all_iff row_to_link_def)
  qed
  then have fol: "follows H (run_head None (pairs ?rows)) (row_to_link row)"
    using head row by (auto simp: follows_def row_to_link_def split: option.splits)
  show "chains_ok H db'"
    unfolding chains_ok_def
  proof
    fix ws'
    have "chain_ok H None (pairs (workspace_rows ws' db))" using assms(3) by (simp add: chains_ok_def)
    moreover have "workspace_rows ws' db' = workspace_rows ws' db @ (if ws' = ws then [row] else [])"
      using ev row by (simp add: workspace_rows_def)
    ultimately show "chain_ok H None (pairs (workspace_rows ws' db'))"
      using sealed fol by (simp add: chain_ok_append pairs_def)
  qed
qed

subsection \<open>Paging\<close>

lemma push_all_append:
  "push_all H (a @ b) v = (case push_all H a v of Inl r \<Rightarrow> Inl r | Inr v \<Rightarrow> push_all H b v)"
  by (induction H a v rule: push_all.induct) (auto split: prod.splits option.splits)

lemma verify_pages_whole:
  assumes "log_wf db"
  shows "verify_pages H ws db after_id v =
    (case push_all H (pairs (filter (\<lambda>r. ev_workspace r = Some ws \<and> after_id < ev_id r) (events db))) v of
       Inl report \<Rightarrow> report | Inr v \<Rightarrow> finish v)"
  using assms
proof (induction H ws db after_id v rule: verify_pages.induct)
  case (1 H ws db after_id v)
  let ?rows = "\<lambda>a. filter (\<lambda>r. ev_workspace r = Some ws \<and> a < ev_id r) (events db)"
  let ?page = "take 256 (?rows after_id)"
  have page: "list_after ws after_id 256 db = map row_to_stored ?page"
    by (simp add: list_after_def by_id_filter [OF 1(2)])
  show ?case
  proof (cases "?rows after_id = []")
    case True
    then show ?thesis using page by (subst verify_pages.simps) simp
  next
    case False
    then have ne: "?page \<noteq> []" by simp
    have last: "se_id (last (list_after ws after_id 256 db)) = ev_id (last ?page)"
      using page ne by (simp add: last_map row_to_stored_def)
    have gt: "after_id < ev_id (last ?page)"
      using in_set_takeD [OF last_in_set [OF ne]] by simp
    have "filter (\<lambda>r. ev_id (last ?page) < ev_id r) (?rows after_id) = drop 256 (?rows after_id)"
      by (rule filter_after_page) (use log_wf_sorted [OF 1(2)] False in auto)
    moreover have "filter (\<lambda>r. ev_id (last ?page) < ev_id r) (?rows after_id) = ?rows (ev_id (last ?page))"
      using gt by (auto intro!: filter_cong)
    ultimately have rest: "?rows (ev_id (last ?page)) = drop 256 (?rows after_id)" by simp
    have split: "pairs (?rows after_id) = pairs ?page @ pairs (?rows (ev_id (last ?page)))"
      unfolding rest by (simp flip: pairs_append)
    show ?thesis
    proof (cases "push_all H (pairs ?page) v")
      case (Inl r)
      then show ?thesis
        using page ne by (subst verify_pages.simps) (simp add: split push_all_append stored_pairs del: map_map)
    next
      case (Inr v')
      have "verify_pages H ws db (se_id (last (list_after ws after_id 256 db))) v' =
        (case push_all H (pairs (?rows (se_id (last (list_after ws after_id 256 db))))) v' of
           Inl report \<Rightarrow> report | Inr v \<Rightarrow> finish v)"
        using 1(1) [OF refl _ _ 1(2)] page ne Inr by (simp add: stored_pairs del: map_map)
      then show ?thesis
        using page ne Inr last
        by (subst verify_pages.simps) (simp add: split push_all_append stored_pairs del: map_map)
    qed
  qed
qed

lemma workspace_rows_positive:
  assumes "log_wf db"
  shows "filter (\<lambda>r. ev_workspace r = Some ws \<and> 0 < ev_id r) (events db) = workspace_rows (Some ws) db"
  using assms by (auto simp: workspace_rows_def log_wf_def list_all_iff intro!: filter_cong)

lemma zip_pairs: "zip (map row_to_link rows) (map ev_payload rows) = pairs rows"
  by (induction rows) (simp_all add: pairs_def)

lemma store_verify_whole:
  assumes "log_wf db"
  shows "store_verify_chain H ws db =
    verify_chain H (map row_to_link (workspace_rows (Some ws) db)) (map ev_payload (workspace_rows (Some ws) db))"
proof (cases "workspace_rows (Some ws) db = []")
  case True
  then show ?thesis
    by (simp add: store_verify_chain_def verify_pages_whole [OF assms] workspace_rows_positive [OF assms]
        verify_chain_def finish_def verifier_new_def)
next
  case False
  then show ?thesis
    by (simp add: store_verify_chain_def verify_pages_whole [OF assms] workspace_rows_positive [OF assms]
        verify_chain_def zip_pairs)
qed

lemma store_verify_ok:
  assumes "log_wf db" "chains_ok H db"
  shows "cr_ok (store_verify_chain H ws db)"
  using assms by (simp add: store_verify_whole verify_chain_eq verify_chain_from_ok zip_pairs chains_ok_def)

subsection \<open>What retention may delete\<close>

text \<open>Within a workspace, events occurred in the order they were logged.\<close>

definition occurred_in_order :: "event_db \<Rightarrow> bool" where
  "occurred_in_order db \<longleftrightarrow>
     sorted_wrt (\<lambda>r s. ev_workspace r = ev_workspace s \<longrightarrow> ev_occurred r \<le> ev_occurred s) (events db)"

lemma sorted_wrt_take_closed:
  assumes "sorted_wrt (\<lambda>r s. f r < (f s :: int)) xs" "r \<in> set (take n xs)" "r' \<in> set xs" "f r' < f r"
  shows "r' \<in> set (take n xs)"
proof (rule ccontr)
  assume "r' \<notin> set (take n xs)"
  then have "r' \<in> set (drop n xs)" using assms(3) by (metis Un_iff append_take_drop_id set_append)
  moreover have "sorted_wrt (\<lambda>r s. f r < f s) (take n xs @ drop n xs)" using assms(1) by simp
  ultimately have "f r < f r'" using assms(2) by (metis (no_types, lifting) sorted_wrt_append)
  then show False using assms(4) by simp
qed

lemma sorted_wrt_conj: "sorted_wrt P xs \<Longrightarrow> sorted_wrt Q xs \<Longrightarrow> sorted_wrt (\<lambda>x y. P x y \<and> Q x y) xs"
  by (induction xs) auto

lemma filter_closed_dropWhile:
  "sorted_wrt (\<lambda>x y. P y \<longrightarrow> P x) xs \<Longrightarrow> filter (\<lambda>x. \<not> P x) xs = dropWhile P xs"
proof (induction xs)
  case (Cons x xs)
  then show ?case
    by (cases "P x") (auto simp: filter_True)
qed simp

text \<open>A batched delete of candidates that are closed under earlier rows of the same workspace.\<close>

lemma delete_is_suffix:
  assumes wf: "log_wf db" and ord: "occurred_in_order db"
    and cand: "\<And>r s. P s \<Longrightarrow> ev_workspace r = ev_workspace s \<Longrightarrow> ev_id r \<le> ev_id s \<Longrightarrow>
      ev_occurred r \<le> ev_occurred s \<Longrightarrow> P r"
  shows "\<exists>gone. workspace_rows ws db = gone @ workspace_rows ws (delete_events (take n (by_id P db)) db)"
proof -
  let ?v = "take n (by_id P db)"
  let ?D = "\<lambda>r. ev_id r \<in> set (map ev_id ?v)"
  have inj: "inj_on ev_id (set (events db))"
  proof -
    have "distinct (map ev_id (events db))"
      using wf by (auto simp: log_wf_def strict_sorted_iff)
    then show ?thesis by (simp add: distinct_map)
  qed
  have v: "r \<in> set ?v" if r: "r \<in> set (events db)" "?D r" for r
  proof -
    obtain t where t: "t \<in> set ?v" "ev_id r = ev_id t" using r(2) by auto
    then have "t \<in> set (events db)" using in_set_takeD [OF t(1)] by (simp add: by_id_def)
    then show ?thesis using inj_onD [OF inj t(2) r(1)] t(1) by simp
  qed
  have closed: "?D r" if rs: "r \<in> set (events db)" "s \<in> set (events db)" "ev_id r < ev_id s"
    "ev_workspace r = ev_workspace s" "ev_occurred r \<le> ev_occurred s" "?D s" for r s
  proof -
    have s: "s \<in> set ?v" using v rs by blast
    then have "P s" using in_set_takeD [OF s] by (simp add: by_id_def)
    then have "P r" using cand [of s r] rs by simp
    then have "r \<in> set (by_id P db)" using rs(1) by (simp add: by_id_def)
    then have "r \<in> set ?v"
      using sorted_wrt_take_closed [of ev_id "by_id P db" s n r] s rs(3) log_wf_sorted [OF wf]
      by (simp add: by_id_filter [OF wf])
    then show ?thesis by simp
  qed
  have "sorted_wrt (\<lambda>r s. ev_id r < ev_id s \<and> (ev_workspace r = ev_workspace s \<longrightarrow> ev_occurred r \<le> ev_occurred s)) (events db)"
    using wf ord by (intro sorted_wrt_conj) (simp_all add: log_wf_def occurred_in_order_def sorted_wrt_map)
  then have "sorted_wrt (\<lambda>r s. ev_workspace r = ev_workspace s \<longrightarrow> ?D s \<longrightarrow> ?D r) (events db)"
    by (rule sorted_wrt_mono_rel [rotated]) (use closed in blast)
  then have "sorted_wrt (\<lambda>r s. ev_workspace r = ev_workspace s \<longrightarrow> ?D s \<longrightarrow> ?D r) (workspace_rows ws db)"
    by (simp add: workspace_rows_def sorted_wrt_filter)
  then have "sorted_wrt (\<lambda>r s. ?D s \<longrightarrow> ?D r) (workspace_rows ws db)"
    by (rule sorted_wrt_mono_rel [rotated]) (auto simp: workspace_rows_def)
  then have "filter (\<lambda>r. \<not> ?D r) (workspace_rows ws db) = dropWhile ?D (workspace_rows ws db)"
    by (rule filter_closed_dropWhile)
  moreover have "workspace_rows ws (delete_events ?v db) = filter (\<lambda>r. \<not> ?D r) (workspace_rows ws db)"
    by (simp add: workspace_rows_def delete_events_def conj_commute)
  ultimately have "workspace_rows ws db
      = takeWhile ?D (workspace_rows ws db) @ workspace_rows ws (delete_events ?v db)" by simp
  then show ?thesis by blast
qed

lemma delete_keeps:
  assumes "log_wf db" "chains_ok H db"
    and "\<And>ws. \<exists>gone. workspace_rows ws db = gone @ workspace_rows ws (delete_events v db)"
  shows "log_wf (delete_events v db) \<and> chains_ok H (delete_events v db)"
proof
  show "log_wf (delete_events v db)"
    using assms(1) by (auto simp: log_wf_def delete_events_def sorted_wrt_map sorted_wrt_filter list_all_iff)
  show "chains_ok H (delete_events v db)"
    unfolding chains_ok_def
  proof
    fix ws
    obtain gone where "workspace_rows ws db = gone @ workspace_rows ws (delete_events v db)"
      using assms(3) by blast
    then have "chain_ok H None (pairs gone @ pairs (workspace_rows ws (delete_events v db)))"
      using assms(2) unfolding chains_ok_def by (metis pairs_append)
    then show "chain_ok H None (pairs (workspace_rows ws (delete_events v db)))"
      by (rule chain_ok_suffix)
  qed
qed

lemma prune_events_keeps:
  assumes "log_wf db" "chains_ok H db" "occurred_in_order db"
  shows "log_wf (snd (prune_events cutoff max_id limit db)) \<and> chains_ok H (snd (prune_events cutoff max_id limit db))"
  unfolding prune_events_def Let_def snd_conv
  by (rule delete_keeps [OF assms(1,2)], rule delete_is_suffix [OF assms(1,3)]) auto

lemma prune_workspace_events_keeps:
  assumes "log_wf db" "chains_ok H db" "occurred_in_order db"
  shows "log_wf (snd (prune_workspace_events jd ws cutoff limit db))
    \<and> chains_ok H (snd (prune_workspace_events jd ws cutoff limit db))"
  unfolding prune_workspace_events_def Let_def snd_conv
  by (rule delete_keeps [OF assms(1,2)], rule delete_is_suffix [OF assms(1,3)]) auto

subsection \<open>Runs of the log\<close>

definition empty_log :: event_db where
  "empty_log = \<lparr>events = [], event_seq = 0, outbox = [], outbox_seq = 0, legal_holds = [], delivery_cursors = []\<rparr>"

text \<open>One committed operation.  The two retention deletes are taken on logs whose events occurred in
  order within each workspace.\<close>

inductive log_step :: "hashing \<Rightarrow> event_db \<Rightarrow> event_db \<Rightarrow> bool" for H where
  append: "append_with_keys_in_tx H att prepare event ws occ db = Inr (e, db') \<Longrightarrow> log_step H db db'"
| prune: "occurred_in_order db \<Longrightarrow> log_step H db (snd (prune_events cutoff max_id limit db))"
| prune_workspace: "occurred_in_order db \<Longrightarrow>
    log_step H db (snd (prune_workspace_events jd ws cutoff limit db))"
| hold: "log_step H db (db\<lparr>legal_holds := hs\<rparr>)"
| cursor: "log_step H db (snd (advance_cursor clk consumer ws log_id db))"
| claim: "log_step H db (snd (claim_pending now limit lease_secs db))"
| published: "mark_published clk i db = Inr db' \<Longrightarrow> log_step H db db'"
| published_batch: "log_step H db (mark_published_batch clk ids db)"
| attempt: "record_attempt i db = Inr (n, db') \<Longrightarrow> log_step H db db'"
| quarantined: "log_step H db (quarantine clk i db)"
| replayed: "replay_quarantined i ws db = Inr db' \<Longrightarrow> log_step H db db'"

text \<open>The operations on cursors, holds and the outbox touch no event and move no outbox row.\<close>

definition outbox_keys :: "event_db \<Rightarrow> (int \<times> int) list" where
  "outbox_keys db = map (\<lambda>o'. (ob_id o', ob_log o')) (outbox db)"

definition same_log :: "event_db \<Rightarrow> event_db \<Rightarrow> bool" where
  "same_log db db' \<longleftrightarrow> events db' = events db \<and> event_seq db' = event_seq db \<and> outbox_seq db' = outbox_seq db
     \<and> outbox_keys db' = outbox_keys db"

lemma bookkeeping_same_log:
  "same_log db (db\<lparr>legal_holds := hs\<rparr>)"
  "same_log db (snd (advance_cursor clk consumer ws log_id db))"
  "same_log db (snd (claim_pending now limit lease_secs db))"
  "mark_published clk i db = Inr db' \<Longrightarrow> same_log db db'"
  "same_log db (mark_published_batch clk ids db)"
  "record_attempt i db = Inr (n, db') \<Longrightarrow> same_log db db'"
  "same_log db (quarantine clk i db)"
  "replay_quarantined i ws db = Inr db' \<Longrightarrow> same_log db db'"
  by (auto simp: same_log_def outbox_keys_def advance_cursor_def claim_pending_def mark_published_def mark_published_batch_def
      record_attempt_def quarantine_def replay_quarantined_def Let_def
      split: if_splits option.splits intro!: map_update_where)

lemma log_step_cases:
  assumes "log_step H db db'"
  obtains (append) att prepare event ws occ e where
      "append_with_keys_in_tx H att prepare event ws occ db = Inr (e, db')"
  | (delete) victims where "db' = delete_events victims db"
      "log_wf db \<Longrightarrow> chains_ok H db \<Longrightarrow> log_wf db' \<and> chains_ok H db'"
  | (book) "same_log db db'"
  using assms
proof (cases rule: log_step.cases)
  case (append att prepare event ws occ e)
  then show ?thesis using that(1) by blast
next
  case (prune cutoff max_id limit)
  then show ?thesis
    using that(2) prune_events_keeps [of db H cutoff max_id limit] by (simp add: prune_events_def Let_def)
next
  case (prune_workspace jd ws cutoff limit)
  then show ?thesis
    using that(2) prune_workspace_events_keeps [of db H jd ws cutoff limit]
    by (simp add: prune_workspace_events_def Let_def)
qed (use that(3) bookkeeping_same_log in auto)

lemma same_log_keeps:
  "same_log db db' \<Longrightarrow> log_wf db \<Longrightarrow> log_wf db'"
  "same_log db db' \<Longrightarrow> chains_ok H db \<Longrightarrow> chains_ok H db'"
  by (simp_all add: same_log_def log_wf_def chains_ok_def workspace_rows_def)

lemma log_step_keeps:
  assumes "log_step H db db'" "digests H" "log_wf db" "chains_ok H db"
  shows "log_wf db' \<and> chains_ok H db'"
  using assms(1)
proof (cases rule: log_step_cases)
  case append
  then show ?thesis using append_log_wf append_chains_ok assms by blast
next
  case delete
  then show ?thesis using assms by blast
next
  case book
  then show ?thesis using same_log_keeps assms by blast
qed

interpretation chain_run: step_invariant "log_step H" "\<lambda>db. digests H \<longrightarrow> log_wf db \<and> chains_ok H db" for H
  by unfold_locales (use log_step_keeps in blast)

lemma log_run_keeps:
  assumes "(log_step H)\<^sup>*\<^sup>* empty_log db" "digests H"
  shows "log_wf db \<and> chains_ok H db"
  using chain_run.run_keeps [OF assms(1)] assms(2)
  by (simp add: empty_log_def log_wf_def chains_ok_def workspace_rows_def)

text \<open>Ids are never reused, and every event of the log has its one outbox row.\<close>

definition outbox_complete :: "event_db \<Rightarrow> bool" where
  "outbox_complete db \<longleftrightarrow>
     map snd (outbox_keys db) = map ev_id (events db) \<and> distinct (map fst (outbox_keys db))
     \<and> list_all (\<lambda>k. fst k \<le> outbox_seq db) (outbox_keys db)"

lemma same_log_outbox: "same_log db db' \<Longrightarrow> outbox_complete db \<Longrightarrow> outbox_complete db'"
  by (simp add: same_log_def outbox_complete_def)

lemma append_outbox:
  assumes "append_with_keys_in_tx H att prepare event ws occ db = Inr (e, db')" "outbox_complete db"
  shows "outbox_complete db'"
  by (rule append_inv [OF assms(1)])
    (use assms(2) in \<open>force simp: outbox_complete_def outbox_keys_def list_all_iff\<close>)

lemma delete_outbox:
  assumes "outbox_complete db"
  shows "outbox_complete (delete_events v db)"
proof -
  have "map snd (outbox_keys (delete_events v db)) = filter (\<lambda>i. i \<notin> set (map ev_id v)) (map snd (outbox_keys db))"
    by (simp add: outbox_keys_def delete_events_def filter_map comp_def)
  moreover have "map ev_id (events (delete_events v db)) = filter (\<lambda>i. i \<notin> set (map ev_id v)) (map ev_id (events db))"
    by (simp add: delete_events_def filter_map comp_def)
  moreover have "distinct (map fst (outbox_keys (delete_events v db)))"
    using assms by (auto simp: outbox_complete_def outbox_keys_def delete_events_def comp_def intro: distinct_map_filter)
  moreover have "list_all (\<lambda>k. fst k \<le> outbox_seq (delete_events v db)) (outbox_keys (delete_events v db))"
    using assms by (auto simp: outbox_complete_def outbox_keys_def delete_events_def list_all_iff)
  ultimately show ?thesis using assms by (simp add: outbox_complete_def)
qed

interpretation outbox_run: step_invariant "log_step H" outbox_complete for H
proof unfold_locales
  fix db db' assume "log_step H db db'" "outbox_complete db"
  then show "outbox_complete db'"
    by (cases rule: log_step_cases) (use append_outbox delete_outbox same_log_outbox in blast)+
qed

lemma log_run_outbox:
  assumes "(log_step H)\<^sup>*\<^sup>* empty_log db"
  shows "outbox_complete db"
  using outbox_run.run_keeps [OF assms] by (simp add: empty_log_def outbox_complete_def outbox_keys_def)

subsection \<open>A concrete log\<close>

definition no_seal :: "json \<Rightarrow> store_error + json \<times> nat option" where
  "no_seal payload = Inr (payload, None)"

definition append_plain :: "workspace_id option \<Rightarrow> instant \<Rightarrow> json \<Rightarrow> event_db \<Rightarrow> event_db" where
  "append_plain ws occ event db =
     (case append_with_keys_in_tx plain_hashing None no_seal event ws occ db of
        Inl _ \<Rightarrow> db
      | Inr (_, db') \<Rightarrow> db')"

lemma append_plain_step: "(log_step plain_hashing)\<^sup>*\<^sup>* db (append_plain ws occ event db)"
proof (cases "append_with_keys_in_tx plain_hashing None no_seal event ws occ db")
  case (Inl e)
  then show ?thesis by (simp add: append_plain_def)
next
  case (Inr r)
  obtain e db' where r: "r = (e, db')" by (cases r)
  have "log_step plain_hashing db db'" using Inr r by (auto intro: log_step.append)
  then show ?thesis using Inr r by (simp add: append_plain_def r_into_rtranclp)
qed

text \<open>Two workspaces, interleaved; the second event of workspace 1 is older than the first.\<close>

definition sample_events :: event_db where
  "sample_events =
     append_plain (Some 1) 300 (Str ''d'')
       (append_plain (Some 1) 50 (Str ''c'')
         (append_plain (Some 2) 110 (Str ''b'')
           (append_plain (Some 1) 100 (Str ''a'') empty_log)))"

lemma sample_events_run: "(log_step plain_hashing)\<^sup>*\<^sup>* empty_log sample_events"
  unfolding sample_events_def
  by (rule rtranclp_trans [OF _ append_plain_step])+ simp

definition break_summary :: "chain_report \<Rightarrow> bool \<times> break_reason option \<times> int option" where
  "break_summary r = (cr_ok r, cr_reason r, cr_break_at r)"

lemma sample_events_break:
  "break_summary (store_verify_chain plain_hashing 1 (snd (prune_events 75 I64_MAX 10 sample_events)))
   = (False, Some PrevHashMismatch, Some 4)"
  by code_simp

lemma sample_events_pruned:
  "map ev_id (workspace_rows (Some 1) (snd (prune_events 75 I64_MAX 10 sample_events))) = [1, 4]"
  by code_simp

lemma sample_events_verify: "cr_ok (store_verify_chain plain_hashing 1 sample_events)"
  using log_run_keeps [OF sample_events_run plain_hashing_digests] store_verify_ok by blast

subsection \<open>Properties\<close>

text \<open>C6: In every log the store can reach, from any interleaving of appends by any workspaces, outbox
  and cursor traffic, and retention deletes over events that occurred in order, the chain of every
  workspace verifies; and the store's verification, which reads the log in pages of 256 rows, gives
  the report the whole-chain verifier gives on all retained rows at once.\<close>

theorem every_workspace_chain_verifies:
  assumes "(log_step H)\<^sup>*\<^sup>* empty_log db" "digests H"
  shows "cr_ok (store_verify_chain H ws db) \<and>
    store_verify_chain H ws db =
      verify_chain H (map row_to_link (workspace_rows (Some ws) db)) (map ev_payload (workspace_rows (Some ws) db))"
  using log_run_keeps [OF assms] store_verify_ok store_verify_whole by blast

theorem every_workspace_chain_verifies_witness:
  "cr_ok (store_verify_chain plain_hashing 1 sample_events) \<and> length (workspace_rows (Some 1) sample_events) = 3"
proof
  show "cr_ok (store_verify_chain plain_hashing 1 sample_events)"
    using every_workspace_chain_verifies [OF sample_events_run plain_hashing_digests] by blast
  show "length (workspace_rows (Some 1) sample_events) = 3" by code_simp
qed


end
