(* ===== verification/Log_Service.thy ===== *)
theory Log_Service
  imports Log_Integrity
begin

text \<open>
  What the log's readers and keepers get: catch-up pages, the outbox relay, the retention sweep and the
  chain backfill.
\<close>

subsection \<open>Catch-up\<close>

definition after_rows :: "workspace_id \<Rightarrow> int \<Rightarrow> event_db \<Rightarrow> event_row list" where
  "after_rows ws after_lsn db = filter (\<lambda>r. after_lsn < ev_id r) (workspace_rows (Some ws) db)"

definition page_limit :: "int \<Rightarrow> nat" where
  "page_limit limit = nat (max 1 (min limit CATCH_UP_LIMIT))"

lemma after_rows_by_id:
  "log_wf db \<Longrightarrow> by_id (\<lambda>r. ev_workspace r = Some ws \<and> a < ev_id r) db = after_rows ws a db"
  by (simp add: by_id_filter after_rows_def workspace_rows_def conj_commute)

lemma link_at_or_before_run:
  assumes "log_wf db"
  shows "link_at_or_before ws a db =
    run_head None (pairs (filter (\<lambda>r. ev_id r \<le> a) (workspace_rows (Some ws) db)))"
  by (simp add: link_at_or_before_def by_id_filter [OF assms] run_head_pairs workspace_rows_def conj_commute)

lemma after_rows_chain:
  assumes "log_wf db" "chains_ok H db"
  shows "chain_ok H (link_at_or_before ws a db) (pairs (after_rows ws a db))"
proof -
  have "sorted_wrt (\<lambda>r s. ev_id r < ev_id s) (workspace_rows (Some ws) db)"
    using log_wf_sorted [OF assms(1)] by (simp add: workspace_rows_def)
  then have "workspace_rows (Some ws) db
      = filter (\<lambda>r. ev_id r \<le> a) (workspace_rows (Some ws) db) @ after_rows ws a db"
    unfolding after_rows_def by (rule sorted_split_at)
  then have "chain_ok H None (pairs (filter (\<lambda>r. ev_id r \<le> a) (workspace_rows (Some ws) db)) @ pairs (after_rows ws a db))"
    using assms(2) unfolding chains_ok_def by (metis pairs_append)
  then show ?thesis by (simp add: chain_ok_append link_at_or_before_run [OF assms(1)])
qed

lemma after_rows_chain_None:
  assumes "log_wf db" "chains_ok H db"
  shows "chain_ok H None (pairs (after_rows ws a db))"
proof -
  have "sorted_wrt (\<lambda>r s. ev_id r < ev_id s) (workspace_rows (Some ws) db)"
    using log_wf_sorted [OF assms(1)] by (simp add: workspace_rows_def)
  from sorted_split_at [OF this, of a]
  have "chain_ok H None (pairs (filter (\<lambda>r. ev_id r \<le> a) (workspace_rows (Some ws) db)) @ pairs (after_rows ws a db))"
    using assms(2) unfolding chains_ok_def after_rows_def by (metis pairs_append)
  then show ?thesis by (rule chain_ok_suffix)
qed

lemma chain_ok_take: "chain_ok H prev rows \<Longrightarrow> chain_ok H prev (take n rows)"
  by (metis append_take_drop_id chain_ok_append)

lemma pairs_take: "pairs (take n rows) = take n (pairs rows)"
  by (simp add: pairs_def take_map)

lemma int_eq_nat: "0 \<le> N \<Longrightarrow> (int k = N) = (k = nat N)"
  by auto

lemma catch_up_inv:
  assumes "catch_up_since H ws a limit db = Inr page" "log_wf db"
  shows "0 \<le> a"
    "cp_events page = map row_to_stored (take (page_limit limit) (after_rows ws a db))"
    "cp_truncated page = (length (cp_events page) = page_limit limit)"
    "cp_head_lsn page = (case head_link ws db of Some h \<Rightarrow> l_lsn h | None \<Rightarrow> 0)"
    "cp_chain page = verify_catch_up H (if 0 < a then link_at_or_before ws a db else None) (cp_events page)"
proof -
  let ?n = "max 1 (min limit CATCH_UP_LIMIT)"
  let ?es = "list_after ws a (nat ?n) db"
  show nonneg: "0 \<le> a" using assms(1) by (auto simp: catch_up_since_def split: if_splits)
  have page: "page = page_new H ws a (case head_link ws db of Some h \<Rightarrow> l_lsn h | None \<Rightarrow> 0) (max_event_id db) ?es
      (if 0 < a then link_at_or_before ws a db else None) (int (length ?es) = ?n)"
    using assms(1) nonneg by (cases "ensure_cursor_fresh ws a db") (simp_all add: catch_up_since_def Let_def)
  have es: "?es = map row_to_stored (take (page_limit limit) (after_rows ws a db))"
    unfolding list_after_def after_rows_by_id [OF assms(2)] page_limit_def ..
  have trunc: "(int (length ?es) = ?n) = (length ?es = page_limit limit)"
    unfolding page_limit_def by (rule int_eq_nat) simp
  show "cp_events page = map row_to_stored (take (page_limit limit) (after_rows ws a db))"
    unfolding page page_new_def es by simp
  show "cp_truncated page = (length (cp_events page) = page_limit limit)"
    unfolding page page_new_def trunc by simp
  show "cp_head_lsn page = (case head_link ws db of Some h \<Rightarrow> l_lsn h | None \<Rightarrow> 0)"
    "cp_chain page = verify_catch_up H (if 0 < a then link_at_or_before ws a db else None) (cp_events page)"
    unfolding page page_new_def by simp_all
qed

lemma catch_up_verifies:
  assumes "catch_up_since H ws a limit db = Inr page" "log_wf db" "chains_ok H db"
  shows "page_ok page"
proof -
  note c = catch_up_inv [OF assms(1,2)]
  have "chain_ok H (if 0 < a then link_at_or_before ws a db else None) (pairs (after_rows ws a db))"
    using after_rows_chain [OF assms(2,3)] after_rows_chain_None [OF assms(2,3)] by simp
  then show ?thesis
    using c(2,5)
    by (simp add: page_ok_def verify_catch_up_ok stored_pairs pairs_take chain_ok_take del: map_map)
qed

lemma catch_up_reaches_head:
  assumes "catch_up_since H ws a limit db = Inr page" "log_wf db" "\<not> cp_truncated page"
  shows "history_caught_up (case newest (cp_events page) of None \<Rightarrow> a | Some e \<Rightarrow> se_id e) (cp_head_lsn page)"
proof -
  note c = catch_up_inv [OF assms(1,2)]
  have all: "cp_events page = map row_to_stored (after_rows ws a db)"
    using c(2,3) assms(3) by (auto simp: min_def split: if_splits)
  let ?rows = "workspace_rows (Some ws) db"
  have srt: "sorted_wrt (\<lambda>r s. ev_id r < ev_id s) ?rows"
    using log_wf_sorted [OF assms(2)] by (simp add: workspace_rows_def)
  have head: "head_link ws db = map_option row_to_link (newest ?rows)"
    by (simp add: head_link_def by_id_filter [OF assms(2)] workspace_rows_def)
  have split: "?rows = filter (\<lambda>r. ev_id r \<le> a) ?rows @ after_rows ws a db"
    unfolding after_rows_def by (rule sorted_split_at [OF srt])
  show ?thesis
  proof (cases "after_rows ws a db = []")
    case True
    then have "\<forall>r \<in> set ?rows. ev_id r \<le> a" using split by (metis append_Nil2 filter_id_conv)
    then show ?thesis
      using True all head c(1,4)
      by (auto simp: newest_def history_caught_up_def row_to_link_def)
  next
    case False
    then have "last ?rows = last (after_rows ws a db)" "?rows \<noteq> []" using split by (metis last_appendR, auto)
    then show ?thesis
      using False all head c(4)
      by (simp add: newest_def history_caught_up_def row_to_link_def row_to_stored_def last_map)
  qed
qed


lemma sample_cursor_fresh: "ensure_cursor_fresh 1 1 sample_events = Inr ()"
  by code_simp


subsection \<open>The retention sweep\<close>

definition prunable :: "instant \<Rightarrow> int \<Rightarrow> workspace_id list \<Rightarrow> event_row \<Rightarrow> bool" where
  "prunable cutoff max_id holds r \<longleftrightarrow>
     ev_id r \<le> max_id \<and> ev_occurred r < cutoff \<and>
     (case ev_workspace r of None \<Rightarrow> True | Some ws \<Rightarrow> ws \<notin> set holds)"

lemma filter_not_taken:
  "distinct (map f ys) \<Longrightarrow> filter (\<lambda>r. f r \<notin> set (map f (take b ys))) ys = drop b ys"
proof (induction ys arbitrary: b)
  case (Cons y ys)
  show ?case
  proof (cases b)
    case 0
    then show ?thesis by simp
  next
    case (Suc b')
    have "filter (\<lambda>r. f r \<notin> set (map f (take b (y # ys)))) ys = filter (\<lambda>r. f r \<notin> set (map f (take b' ys))) ys"
      using Cons.prems Suc by (intro filter_cong) (auto simp: image_iff)
    then show ?thesis using Cons Suc by simp
  qed
qed simp

lemma prune_events_eq:
  assumes "log_wf db"
  shows "prune_events cutoff max_id batch db =
    (let v = take batch (filter (prunable cutoff max_id (legal_holds db)) (events db))
     in (length v, delete_events v db))"
  unfolding prune_events_def by_id_filter [OF assms] prunable_def ..

lemma delete_split:
  fixes b :: nat and C :: "event_row \<Rightarrow> bool" and db :: event_db
  assumes "distinct (map ev_id (events db))"
  defines "v \<equiv> take b (filter C (events db))"
  shows "filter (\<lambda>r. \<not> C r) (events (delete_events v db)) = filter (\<lambda>r. \<not> C r) (events db)"
    "filter C (events (delete_events v db)) = drop b (filter C (events db))"
proof -
  have inj: "inj_on ev_id (set (events db))" using assms(1) by (simp add: distinct_map)
  have "ev_id r \<notin> set (map ev_id v)" if r: "r \<in> set (events db)" "\<not> C r" for r
  proof
    assume "ev_id r \<in> set (map ev_id v)"
    then obtain s where s: "s \<in> set v" "ev_id r = ev_id s" by auto
    then have "s \<in> set (filter C (events db))" unfolding v_def by (auto dest: in_set_takeD)
    then show False using inj_onD [OF inj s(2) r(1)] r(2) by auto
  qed
  then show "filter (\<lambda>r. \<not> C r) (events (delete_events v db)) = filter (\<lambda>r. \<not> C r) (events db)"
    by (auto simp: delete_events_def intro!: filter_cong)
  have "distinct (map ev_id (filter C (events db)))" using assms(1) by (rule distinct_map_filter)
  then have "filter (\<lambda>r. ev_id r \<notin> set (map ev_id v)) (filter C (events db)) = drop b (filter C (events db))"
    unfolding v_def by (rule filter_not_taken)
  then show "filter C (events (delete_events v db)) = drop b (filter C (events db))"
    by (simp add: delete_events_def conj_commute)
qed

lemma delete_log_wf: "log_wf db \<Longrightarrow> log_wf (delete_events v db)"
  by (auto simp: log_wf_def delete_events_def sorted_wrt_map sorted_wrt_filter list_all_iff)

lemma log_wf_distinct: "log_wf db \<Longrightarrow> distinct (map ev_id (events db))"
  by (auto simp: log_wf_def strict_sorted_iff)

lemma prune_loop_exact:
  assumes "log_wf db" "0 < batch"
  shows "fst (prune_loop cutoff max_id batch t db)
        = t + length (filter (prunable cutoff max_id (legal_holds db)) (events db))"
    "events (snd (prune_loop cutoff max_id batch t db))
        = filter (\<lambda>r. \<not> prunable cutoff max_id (legal_holds db) r) (events db)"
proof -
  have "fst (prune_loop cutoff max_id batch t db)
        = t + length (filter (prunable cutoff max_id (legal_holds db)) (events db))
    \<and> events (snd (prune_loop cutoff max_id batch t db))
        = filter (\<lambda>r. \<not> prunable cutoff max_id (legal_holds db) r) (events db)"
    using assms
  proof (induction cutoff max_id batch t db rule: prune_loop.induct)
    case (1 cutoff max_id batch t db)
    let ?C = "prunable cutoff max_id (legal_holds db)"
    let ?v = "take batch (filter ?C (events db))"
    let ?db = "delete_events ?v db"
    have pe: "prune_events cutoff max_id batch db = (length ?v, ?db)"
      by (simp add: prune_events_eq [OF 1(2)] Let_def)
    note split = delete_split [OF log_wf_distinct [OF 1(2)], of ?C batch]
    show ?case
    proof (cases "length ?v < batch")
      case True
      then have "drop batch (filter ?C (events db)) = []" "length ?v = length (filter ?C (events db))" by auto
      then have "filter ?C (events ?db) = []" using split(2) by (simp only:)
      then have "filter (\<lambda>r. \<not> ?C r) (events ?db) = events ?db"
        unfolding filter_empty_conv by (rule filter_True)
      moreover have "prune_loop cutoff max_id batch t db = (t + length ?v, ?db)"
        unfolding prune_loop.simps [of cutoff max_id batch t db] pe Let_def prod.case
        using True by (simp only: simp_thms if_True)
      ultimately show ?thesis
        using split(1) \<open>length ?v = length (filter ?C (events db))\<close> by (simp only: fst_conv snd_conv)
    next
      case False
      then have len: "length ?v = batch" by simp
      have holds: "legal_holds ?db = legal_holds db" by (simp add: delete_events_def)
      have "fst (prune_loop cutoff max_id batch (t + length ?v) ?db)
            = t + length ?v + length (filter ?C (events ?db))
          \<and> events (snd (prune_loop cutoff max_id batch (t + length ?v) ?db)) = filter (\<lambda>r. \<not> ?C r) (events ?db)"
        using 1(1) [OF pe [symmetric] refl] False 1(2,3) delete_log_wf [OF 1(2)] holds by simp
      moreover have "prune_loop cutoff max_id batch t db = prune_loop cutoff max_id batch (t + length ?v) ?db"
        unfolding prune_loop.simps [of cutoff max_id batch t db] pe Let_def prod.case
        using False less_not_refl2 [OF 1(3)] by (simp only: simp_thms if_False)
      moreover have "length ?v + length (filter ?C (events ?db)) = length (filter ?C (events db))"
        unfolding split(2) by (metis append_take_drop_id length_append)
      ultimately show ?thesis using split(1) by (simp only: add.assoc)
    qed
  qed
  then show "fst (prune_loop cutoff max_id batch t db)
        = t + length (filter (prunable cutoff max_id (legal_holds db)) (events db))"
    "events (snd (prune_loop cutoff max_id batch t db))
        = filter (\<lambda>r. \<not> prunable cutoff max_id (legal_holds db) r) (events db)" by simp_all
qed



subsection \<open>The outbox relay\<close>

lemma sort_key_take_all: "length xs \<le> n \<Longrightarrow> take n (sort_key f xs) = sort_key f xs"
  by simp

lemma claim_pending_takes:
  assumes "o' \<in> set (outbox db)" "relayable o'" "ob_log o' \<in> set (map ev_id (events db))"
    and "case ob_claimed o' of None \<Rightarrow> True | Some c \<Rightarrow> c < now - secs lease_secs"
    and "length (outbox db) \<le> limit"
  shows "\<exists>p \<in> set (fst (claim_pending now limit lease_secs db)). ob_id p = ob_id o' \<and> ob_log p = ob_log o'"
proof -
  let ?E = "\<lambda>o'. relayable o' \<and> (case ob_claimed o' of None \<Rightarrow> True | Some c \<Rightarrow> c < now - secs lease_secs)"
  let ?picked = "take limit (sort_key ob_id (filter ?E (outbox db)))"
  let ?ids = "set (map ob_id ?picked)"
  let ?upd = "update_where (\<lambda>o'. ob_id o' \<in> ?ids) (\<lambda>o'. o'\<lparr>ob_claimed := Some now\<rparr>) (outbox db)"
  have "length (filter ?E (outbox db)) \<le> limit" using assms(5) length_filter_le order_trans by blast
  then have "o' \<in> set ?picked" using assms(1,2,4) by (simp add: sort_key_take_all)
  then have id_in: "ob_id o' \<in> ?ids" by simp
  then have mem: "o'\<lparr>ob_claimed := Some now\<rparr> \<in> set ?upd"
    using update_where_memI [OF assms(1), of "\<lambda>o'. ob_id o' \<in> ?ids" "\<lambda>o'. o'\<lparr>ob_claimed := Some now\<rparr>"] by simp
  have "o'\<lparr>ob_claimed := Some now\<rparr> \<in> set (fst (claim_pending now limit lease_secs db))"
    unfolding claim_pending_def Let_def fst_conv set_sort set_filter
    using mem id_in assms(3) by simp
  then show ?thesis by (intro bexI) simp_all
qed


definition sample_outbox_row :: outbox_row where
  "sample_outbox_row = \<lparr>ob_id = 3, ob_log = 3, ob_published = None, ob_attempts = 0, ob_quarantined = None,
     ob_claimed = None\<rparr>"

lemma sample_outbox: "sample_outbox_row = outbox sample_events ! 2 \<and> length (outbox sample_events) = 4"
  by code_simp


subsection \<open>The backfill\<close>

text \<open>What a backfill may do to a row: nothing, or give a row without hashes its payload's hash.\<close>

definition backfilled :: "hashing \<Rightarrow> event_row \<Rightarrow> event_row \<Rightarrow> bool" where
  "backfilled H r r' \<longleftrightarrow> r' = r \<or>
     ev_content r = [] \<and> r' = r\<lparr>ev_prev := ev_prev r', ev_content := ev_content r'\<rparr>
     \<and> content_hash H (ev_payload r) = Inr (ev_content r')"

lemma backfilled_refl: "list_all2 (backfilled H) rows rows"
  by (simp add: list_all2_conv_all_nth backfilled_def)

lemma backfilled_trans: "backfilled H r s \<Longrightarrow> backfilled H s t \<Longrightarrow> backfilled H r t"
  by (cases r; cases s; cases t) (auto simp: backfilled_def)

lemma backfilled_keeps:
  "backfilled H r r' \<Longrightarrow> ev_id r' = ev_id r \<and> ev_payload r' = ev_payload r \<and> ev_workspace r' = ev_workspace r"
  by (cases r; cases r') (auto simp: backfilled_def)

lemma backfilled_all_trans:
  assumes "list_all2 (backfilled H) xs ys" "list_all2 (backfilled H) ys zs"
  shows "list_all2 (backfilled H) xs zs"
  by (rule list_all2_trans [OF _ assms]) (rule backfilled_trans)

lemma fill_backfilled:
  assumes "link_for H i p prev = Inr l" "\<And>s. s \<in> set (events db) \<Longrightarrow> ev_id s = i \<Longrightarrow> ev_payload s = p"
  shows "list_all2 (backfilled H) (events db) (events (fill_link i l db))"
proof -
  have c: "content_hash H p = Inr (l_content l)" using assms(1) by (auto simp: link_for_def and_then_Inr)
  have "backfilled H r (if ev_id r = i \<and> ev_content r = [] then r\<lparr>ev_prev := l_prev l, ev_content := l_content l\<rparr> else r)"
    if "r \<in> set (events db)" for r
    using assms(2) [OF that] c by (simp add: backfilled_def)
  then show ?thesis
    by (simp add: fill_link_def update_where_def list_all2_conv_all_nth)
qed

lemma backfill_rows_total:
  assumes "string_literals (ser_string H)"
  shows "\<exists>db'. backfill_rows H rows db = Inr db'"
proof (induction rows arbitrary: db)
  case (Cons r rows)
  obtain c where "content_hash H (ev_payload r) = Inr c" by (rule content_hash_total [OF assms])
  then obtain l where "link_for H (ev_id r) (ev_payload r) (previous_link (ev_workspace r) (ev_id r) db) = Inr l"
    by (simp add: link_for_def)
  then show ?case using Cons by simp
qed simp

lemma backfill_rows_backfilled:
  assumes "backfill_rows H rows db = Inr db'"
    and "\<And>r s. r \<in> set rows \<Longrightarrow> s \<in> set (events db) \<Longrightarrow> ev_id s = ev_id r \<Longrightarrow> ev_payload s = ev_payload r"
  shows "list_all2 (backfilled H) (events db) (events db')"
  using assms
proof (induction H rows db rule: backfill_rows.induct)
  case (1 H db)
  then show ?case by (simp add: backfilled_refl)
next
  case (2 H r rows db)
  obtain l where l: "link_for H (ev_id r) (ev_payload r) (previous_link (ev_workspace r) (ev_id r) db) = Inr l"
    and rest: "backfill_rows H rows (fill_link (ev_id r) l db) = Inr db'"
    using 2(2) by (auto split: sum.splits)
  have first: "list_all2 (backfilled H) (events db) (events (fill_link (ev_id r) l db))"
  proof (rule fill_backfilled [OF l])
    fix s assume "s \<in> set (events db)" "ev_id s = ev_id r"
    then show "ev_payload s = ev_payload r" using 2(3) [of r s] by simp
  qed
  have "ev_payload s = ev_payload q"
    if q: "q \<in> set rows" "s \<in> set (events (fill_link (ev_id r) l db))" "ev_id s = ev_id q" for q s
  proof -
    obtain t where "t \<in> set (events db)" "backfilled H t s"
      using first q(2) by (metis in_set_conv_nth list_all2_conv_all_nth)
    then show ?thesis using 2(3) [of q t] q(1,3) backfilled_keeps [of H t s] by simp
  qed
  then have "list_all2 (backfilled H) (events (fill_link (ev_id r) l db)) (events db')"
    using 2(1) [OF l rest] by blast
  then show ?case by (rule backfilled_all_trans [OF first])
qed

lemma backfilled_distinct:
  assumes "list_all2 (backfilled H) xs ys"
  shows "map ev_id ys = map ev_id xs"
  using assms by (induction rule: list_all2_induct) (auto dest: backfilled_keeps)

lemma batch_payloads:
  assumes "distinct (map ev_id (events db))" "r \<in> set (take n (by_id P db))" "s \<in> set (events db)" "ev_id s = ev_id r"
  shows "s = r"
proof -
  have "inj_on ev_id (set (events db))" using assms(1) by (simp add: distinct_map)
  moreover have "r \<in> set (events db)" using in_set_takeD [OF assms(2)] by (simp add: by_id_def)
  ultimately show ?thesis using assms(3,4) by (auto dest: inj_onD)
qed

lemma backfill_chain_fills:
  assumes "string_literals (ser_string H)"
  shows "distinct (map ev_id (events db)) \<Longrightarrow>
    \<exists>db'. backfill_chain H db = Inr db' \<and> blanks db' = [] \<and> list_all2 (backfilled H) (events db) (events db')"
  using assms
proof (induction H db rule: backfill_chain.induct)
  case (1 H db)
  let ?rows = "take 256 (by_id (\<lambda>r. ev_content r = []) db)"
  show ?case
  proof (cases "?rows = []")
    case True
    then have "blanks db = []"
      unfolding by_id_def blanks_def by (metis length_0_conv length_sort take_eq_Nil zero_neq_numeral)
    then show ?thesis
      using True backfilled_refl by (subst backfill_chain.simps) simp
  next
    case False
    obtain db' where fill: "backfill_rows H ?rows db = Inr db'" using backfill_rows_total [OF 1(3)] by blast
    have rel: "list_all2 (backfilled H) (events db) (events db')"
      by (rule backfill_rows_backfilled [OF fill]) (use batch_payloads [OF 1(2)] in blast)
    show ?thesis
    proof (cases "length ?rows < 256")
      case True
      then have "?rows = by_id (\<lambda>r. ev_content r = []) db" by simp
      then have "set ?rows = set (blanks db)" by (simp only:) (simp add: by_id_def blanks_def)
      then have "blanks db' = []" using backfill_rows_blanks [OF fill] by (simp add: filter_empty_conv)
      moreover have "backfill_chain H db = Inr db'"
        unfolding backfill_chain.simps [of H db] Let_def fill sum.case using False True by (simp only: if_True if_False simp_thms)
      ultimately show ?thesis using rel by blast
    next
      case more: False
      have "backfill_chain H db = backfill_chain H db'"
        unfolding backfill_chain.simps [of H db] Let_def fill sum.case using False more by (simp only: if_False simp_thms)
      moreover have "distinct (map ev_id (events db'))" using 1(2) backfilled_distinct [OF rel] by simp
      then obtain db'' where "backfill_chain H db' = Inr db''" "blanks db'' = []"
        "list_all2 (backfilled H) (events db') (events db'')"
        using 1(1) [OF refl False fill more _ 1(3)] by blast
      moreover from this(3) have "list_all2 (backfilled H) (events db) (events db'')"
        by (rule backfilled_all_trans [OF rel])
      ultimately show ?thesis by simp
    qed
  qed
qed

text \<open>The backfill of rows written before the chain existed ends, leaves no row without hashes, and
  never touches a row that has a content hash: each row comes out as it was, or had no hash and now
  has the hash of its own payload.  A tampered row cannot be laundered by running it.\<close>

theorem backfill_fills_only_blank_rows:
  assumes "string_literals (ser_string H)" "distinct (map ev_id (events db))"
  shows "\<exists>db'. backfill_chain H db = Inr db' \<and> blanks db' = [] \<and> list_all2 (backfilled H) (events db) (events db')"
  by (rule backfill_chain_fills [OF assms])

theorem backfill_fills_only_blank_rows_witness:
  "\<exists>db'. backfill_chain plain_hashing sample_events = Inr db' \<and>
     list_all2 (backfilled plain_hashing) (events sample_events) (events db')"
  using backfill_fills_only_blank_rows [OF plain_hashing_literals(1)
      log_wf_distinct [of sample_events]] log_run_keeps [OF sample_events_run plain_hashing_digests]
  by blast

end
