(* ===== verification/Review_Tables.thy ===== *)
theory Review_Tables
  imports Claim_Safety Event_Chain
begin

text \<open>
  The tables behind review and landing: requirements, named reviewers, standing reviews and their
  history, review packets, land-gate rows, references, linked artifacts, plan children and tracked
  pulls (\<open>migrations/sqlite\<close> 0078, 0087, 0105, 0121, 0145, 0184, 0191, 0212).  They extend the
  queue's tables, so every claim operation runs on them unchanged.

  What the code takes from outside the repository is one record: \<open>uuid\<close> prints an identifier,
  \<open>new_id\<close> mints one (it sees the identifiers in use), \<open>from_str\<close> is serde\_json's parser,
  \<open>to_lowercase\<close> Unicode's case mapping, and \<open>hashing\<close> the digest and the printers of canonical
  JSON.
\<close>

record outside =
  uuid :: "nat \<Rightarrow> string"
  new_id :: "nat list \<Rightarrow> nat"
  from_str :: "string \<Rightarrow> store_error + json"
  to_lowercase :: "string \<Rightarrow> string"
  hashing :: hashing

subsection \<open>Land gate\<close>

datatype land_gate_status = Pass | Fail

datatype land_color = Green | Amber | Red

text \<open>A verdict as the row and the history keep it.  The table's \<open>CHECK\<close> makes its columns all
  null or all set, so the row has a verdict or none.\<close>

record land_verdict =
  lv_status :: land_gate_status
  lv_land :: land_color
  lv_artifact_sha :: "string option"
  lv_recorded_by :: member_id
  lv_recorded_actor :: "member_id option"
  lv_recorded_at :: instant

record land_gate_row =
  lg_thread :: thread_id
  lg_verdict :: "land_verdict option"

subsection \<open>Reviews\<close>

record review_req_row =
  rq_thread :: thread_id
  rq_required_count :: int
  rq_max_rounds :: int
  rq_created_at :: instant
  rq_updated_at :: instant

record review_row =
  rv_thread :: thread_id
  rv_reviewer :: member_id
  rv_decision :: review_decision
  rv_note :: "string option"
  rv_actor :: "member_id option"
  rv_evidence_root :: "string option"
  rv_head_sha :: "string option"
  rv_created_at :: instant
  rv_updated_at :: instant
  rv_dismissed_at :: "instant option"

record review_verdict_row =
  vd_thread :: thread_id
  vd_reviewer :: member_id
  vd_decision :: review_decision
  vd_note :: "string option"
  vd_actor :: "member_id option"
  vd_recorded_at :: instant
  vd_evidence_root :: "string option"
  vd_head_sha :: "string option"

record reviewer_row =
  rw_thread :: thread_id
  rw_member :: member_id
  rw_created_at :: instant

subsection \<open>Evidence\<close>

datatype attestation_tier = Verified | Attached | SelfReported

datatype evidence_kind = ResultKind | ArtifactKind | LandGateKind

record evidence_attestation =
  ea_kind :: evidence_kind
  ea_sha256 :: "string option"
  ea_tier :: attestation_tier
  ea_attested_by :: member_id

record result_evidence =
  re_sha256 :: string
  re_produced_by :: member_id

record evidence_manifest =
  em_thread :: thread_id
  em_result :: "result_evidence option"
  em_artifacts :: "string list"
  em_attestations :: "evidence_attestation list"

record packet_row =
  pk_id :: nat
  pk_thread :: thread_id
  pk_requested_by :: member_id
  pk_thread_version :: int
  pk_manifest :: evidence_manifest
  pk_evidence_root :: string
  pk_created_at :: instant

record artifact_row =
  ar_thread :: thread_id
  ar_sha256 :: string
  ar_linked_by :: member_id
  ar_linked_actor :: "member_id option"

subsection \<open>References, plans, pulls, audit\<close>

datatype ref_side = RefThread thread_id | RefMessage nat

record reference_row =
  rf_src :: ref_side
  rf_dst :: ref_side
  rf_relation :: relation_kind

record plan_child_row =
  pc_parent :: thread_id
  pc_child :: thread_id
  pc_position :: int

record change_pull_row =
  cp_workspace :: workspace_id
  cp_repo :: string
  cp_pull :: int
  cp_thread :: thread_id

record pull_ci_row =
  ci_workspace :: workspace_id
  ci_repo :: string
  ci_pull :: int
  ci_head_sha :: string
  ci_updated_at :: instant

datatype close_reason = Duplicate | Abandoned | Superseded

text \<open>The audit row of a \<open>close-abandoned\<close>, by the metadata it stores.\<close>

record close_audit =
  ca_thread :: thread_id
  ca_reason :: close_reason
  ca_duplicate_of :: "thread_id option"
  ca_repointed :: "thread_id list"
  ca_kept :: "thread_id list"
  ca_had_result :: bool
  ca_from_state :: thread_state

record review_db = queue_db +
  land_gates :: "land_gate_row list"
  land_verdicts :: "(thread_id \<times> land_verdict) list"
  review_reqs :: "review_req_row list"
  reviewers :: "reviewer_row list"
  reviews :: "review_row list"
  review_verdicts :: "review_verdict_row list"
  packets :: "packet_row list"
  thread_artifacts :: "artifact_row list"
  thread_versions :: "(thread_id \<times> int) list"
  grant_subjects :: "member_id list"
  references :: "reference_row list"
  plan_children :: "plan_child_row list"
  change_pulls :: "change_pull_row list"
  pull_ci :: "pull_ci_row list"
  review_children_off :: "workspace_id list"
  default_engines :: "(workspace_id \<times> string) list"
  audits :: "close_audit list"

end
