(* ===== verification/Land_Gate.thy ===== *)
theory Land_Gate
  imports Review_Tables
begin

text \<open>
  The land gate: \<open>maidan-types/src/land_gate.rs\<close>, the recorded pass of
  \<open>maidan-store/src/attestation.rs\<close> and \<open>maidan-store/src/sqlite/land_gate.rs\<close>.  A row arms the gate;
  a verdict is recorded by a member with the \<open>land_gate\<close> skill; only a green pass by someone who is not
  the implementer lets the thread close.  The lemmas show that the standing a person reads and the test
  a close runs are the same, and what a pass that lands says about its recorder.
\<close>

subsection \<open>Types\<close>

definition LAND_GATE_SKILL :: string where
  "LAND_GATE_SKILL = ''land_gate''"

definition LAND_GATE_KIND :: string where
  "LAND_GATE_KIND = ''land_gate''"

fun status_as_str :: "land_gate_status \<Rightarrow> string" where
  "status_as_str Pass = ''pass''"
| "status_as_str Fail = ''fail''"

definition status_parse :: "string \<Rightarrow> land_gate_status option" where
  "status_parse s = (if s = ''pass'' then Some Pass else if s = ''fail'' then Some Fail else None)"

fun color_as_str :: "land_color \<Rightarrow> string" where
  "color_as_str Green = ''green''"
| "color_as_str Amber = ''amber''"
| "color_as_str Red = ''red''"

definition color_parse :: "string \<Rightarrow> land_color option" where
  "color_parse s =
     (if s = ''green'' then Some Green else if s = ''amber'' then Some Amber
      else if s = ''red'' then Some Red else None)"

record land_gate_pointer =
  lp_kind :: string
  lp_status :: land_gate_status
  lp_artifact_sha :: "string option"
  lp_land :: land_color

definition pointer_new :: "land_gate_status \<Rightarrow> string option \<Rightarrow> land_color \<Rightarrow> land_gate_pointer" where
  "pointer_new status sha land =
     \<lparr>lp_kind = LAND_GATE_KIND, lp_status = status, lp_artifact_sha = sha, lp_land = land\<rparr>"

record recorded_land_gate =
  rl_pointer :: land_gate_pointer
  rl_recorded_by :: member_id
  rl_recorded_at :: instant

record gate_standing =
  ls_required :: bool
  ls_pointer :: "land_gate_pointer option"
  ls_recorded_by :: "member_id option"
  ls_recorded_at :: "instant option"
  ls_land :: land_color
  ls_landable :: bool

fun resolve_land :: "land_gate_status \<Rightarrow> land_color option \<Rightarrow> land_color" where
  "resolve_land Fail _ = Red"
| "resolve_land Pass (Some Amber) = Amber"
| "resolve_land Pass (Some Red) = Red"
| "resolve_land Pass _ = Green"

definition is_qualifying_pass ::
  "land_gate_status \<Rightarrow> land_color \<Rightarrow> member_id \<Rightarrow> member_id option \<Rightarrow> member_id option \<Rightarrow> bool \<Rightarrow> bool \<Rightarrow> bool" where
  "is_qualifying_pass status land recorded_by owner assignee recorder_worked recorder_has_skill \<longleftrightarrow>
     status = Pass \<and> land = Green \<and> recorder_has_skill \<and> owner \<noteq> Some recorded_by
   \<and> assignee \<noteq> Some recorded_by \<and> \<not> recorder_worked"

definition standing_land ::
  "land_gate_pointer option \<Rightarrow> member_id option \<Rightarrow> member_id option \<Rightarrow> member_id option \<Rightarrow> bool \<Rightarrow> bool \<Rightarrow> bool \<Rightarrow> land_color" where
  "standing_land pointer recorded_by owner assignee worked has_skill required =
     (if \<not> required then Green
      else case pointer of
        None \<Rightarrow> Red
      | Some p \<Rightarrow>
          (case recorded_by of
             None \<Rightarrow> Red
           | Some by \<Rightarrow>
               if is_qualifying_pass (lp_status p) (lp_land p) by owner assignee worked has_skill then Green
               else if lp_status p = Pass \<and> lp_land p = Amber \<and> has_skill \<and> owner \<noteq> Some by
                       \<and> assignee \<noteq> Some by \<and> \<not> worked then Amber
               else Red))"

definition land_gate_standing ::
  "bool \<Rightarrow> recorded_land_gate option \<Rightarrow> member_id option \<Rightarrow> member_id option \<Rightarrow> bool \<Rightarrow> bool \<Rightarrow> gate_standing" where
  "land_gate_standing required rec owner assignee worked has_skill =
     (let pointer = map_option rl_pointer rec;
          by = map_option rl_recorded_by rec;
          land = standing_land pointer by owner assignee worked has_skill required
      in \<lparr>ls_required = required, ls_pointer = pointer, ls_recorded_by = by,
          ls_recorded_at = map_option rl_recorded_at rec, ls_land = land, ls_landable = (land = Green)\<rparr>)"

subsection \<open>The pass a close reads\<close>

record recorded_pass =
  rp_status :: land_gate_status
  rp_land :: land_color
  rp_recorded_by :: member_id
  rp_artifact_sha :: "string option"
  rp_owner :: "member_id option"
  rp_assignee :: "member_id option"
  rp_worked :: bool
  rp_skilled :: bool

definition qualifies :: "recorded_pass \<Rightarrow> bool" where
  "qualifies p = is_qualifying_pass (rp_status p) (rp_land p) (rp_recorded_by p) (rp_owner p)
     (rp_assignee p) (rp_worked p) (rp_skilled p)"

datatype gate_reading = Unarmed | GatePending | Recorded recorded_pass

subsection \<open>The store\<close>

definition artifact_sha_opt :: "string option \<Rightarrow> store_error + string option" where
  "artifact_sha_opt raw =
     (case map_option trim raw of
        None \<Rightarrow> Inr None
      | Some s \<Rightarrow>
          if s = [] then Inr None
          else if length s > 128 then Inl (InvalidInput ''artifact_sha must be at most 128 bytes'')
          else Inr (Some s))"

definition has_skill :: "('z) queue_db_scheme \<Rightarrow> member_id \<Rightarrow> string \<Rightarrow> bool" where
  "has_skill db m skill \<longleftrightarrow> (\<exists>s \<in> set (member_skills db). sk_owner s = m \<and> sk_skill s = skill)"

definition recorder_has_skill :: "('z) queue_db_scheme \<Rightarrow> member_id \<Rightarrow> bool" where
  "recorder_has_skill db m = has_skill db m LAND_GATE_SKILL"

text \<open>The gate's row joined to its thread.\<close>

definition armed_gate :: "('z) review_db_scheme \<Rightarrow> thread_id \<Rightarrow> (land_gate_row \<times> thread_row) option" where
  "armed_gate db tid =
     (case find (\<lambda>g. lg_thread g = tid) (land_gates db) of
        None \<Rightarrow> None
      | Some g \<Rightarrow> map_option (\<lambda>t. (g, t)) (find_thread db tid))"

definition standing_for :: "('z) review_db_scheme \<Rightarrow> thread_id \<Rightarrow> gate_standing" where
  "standing_for db tid =
     (case armed_gate db tid of
        None \<Rightarrow> land_gate_standing False None None None False False
      | Some (g, t) \<Rightarrow>
          (let owner = t_owner t; assignee = t_assignee t;
               rec = map_option (\<lambda>v.
                 \<lparr>rl_pointer = pointer_new (lv_status v) (lv_artifact_sha v) (lv_land v),
                  rl_recorded_by = lv_recorded_by v, rl_recorded_at = lv_recorded_at v\<rparr>) (lg_verdict g);
               by = map_option rl_recorded_by rec;
               skill = (case by of Some m \<Rightarrow> recorder_has_skill db m | None \<Rightarrow> False);
               worked = (case by of Some m \<Rightarrow> has_worked db tid m | None \<Rightarrow> False);
               actor = (case lg_verdict g of
                          None \<Rightarrow> None
                        | Some v \<Rightarrow> (case lv_recorded_actor v of
                             None \<Rightarrow> None
                           | Some a \<Rightarrow> if Some a \<noteq> by then Some a else None));
               actor_conflict = (case actor of
                   Some a \<Rightarrow> Some a = owner \<or> Some a = assignee \<or> has_worked db tid a
                 | None \<Rightarrow> False)
           in land_gate_standing True rec owner assignee (worked \<or> actor_conflict) skill))"

definition require_gate :: "thread_id \<Rightarrow> ('z) review_db_scheme \<Rightarrow> gate_standing \<times> ('z) review_db_scheme" where
  "require_gate tid db =
     (let db' = (if \<exists>g \<in> set (land_gates db). lg_thread g = tid then db
                 else db\<lparr>land_gates := land_gates db @ [\<lparr>lg_thread = tid, lg_verdict = None\<rparr>]\<rparr>)
      in (standing_for db' tid, db'))"

definition upsert_gate :: "thread_id \<Rightarrow> land_verdict \<Rightarrow> land_gate_row list \<Rightarrow> land_gate_row list" where
  "upsert_gate tid v rows =
     (if \<exists>g \<in> set rows. lg_thread g = tid
      then update_where (\<lambda>g. lg_thread g = tid) (\<lambda>g. g\<lparr>lg_verdict := Some v\<rparr>) rows
      else rows @ [\<lparr>lg_thread = tid, lg_verdict = Some v\<rparr>])"

definition set_pointer ::
  "attribution option \<Rightarrow> instant \<Rightarrow> thread_id \<Rightarrow> member_id \<Rightarrow> land_gate_status \<Rightarrow> string option \<Rightarrow> land_color option
    \<Rightarrow> ('z) review_db_scheme \<Rightarrow> store_error + gate_standing \<times> ('z) review_db_scheme" where
  "set_pointer scope clk tid recorded_by status sha land db =
     and_then (ensure (recorder_has_skill db recorded_by)
                 (InvalidInput ''recorder must have the land_gate skill'')) (\<lambda>_.
     and_then (artifact_sha_opt sha) (\<lambda>sha.
     let v = \<lparr>lv_status = status, lv_land = resolve_land status land, lv_artifact_sha = sha,
              lv_recorded_by = recorded_by, lv_recorded_actor = delegate_acting_for scope recorded_by,
              lv_recorded_at = clk\<rparr>;
         db' = db\<lparr>land_gates := upsert_gate tid v (land_gates db),
                  land_verdicts := land_verdicts db @ [(tid, v)]\<rparr>
     in Inr (standing_for db' tid, db')))"

definition clear_gate :: "thread_id \<Rightarrow> ('z) review_db_scheme \<Rightarrow> bool \<times> ('z) review_db_scheme" where
  "clear_gate tid db =
     (\<exists>g \<in> set (land_gates db). lg_thread g = tid,
      db\<lparr>land_gates := filter (\<lambda>g. lg_thread g \<noteq> tid) (land_gates db)\<rparr>)"

definition read_in_tx :: "('z) review_db_scheme \<Rightarrow> thread_id \<Rightarrow> gate_reading" where
  "read_in_tx db tid =
     (case armed_gate db tid of
        None \<Rightarrow> Unarmed
      | Some (g, t) \<Rightarrow>
          (case lg_verdict g of
             None \<Rightarrow> GatePending
           | Some v \<Rightarrow>
               (let by = lv_recorded_by v;
                    actor_conflict = (case lv_recorded_actor v of
                        None \<Rightarrow> False
                      | Some a \<Rightarrow> a \<noteq> by \<and>
                          (Some a = t_owner t \<or> Some a = t_assignee t \<or> has_worked db tid a))
                in Recorded \<lparr>rp_status = lv_status v, rp_land = lv_land v, rp_recorded_by = by,
                     rp_artifact_sha = lv_artifact_sha v, rp_owner = t_owner t, rp_assignee = t_assignee t,
                     rp_worked = (has_worked db tid by \<or> actor_conflict),
                     rp_skilled = recorder_has_skill db by\<rparr>)))"

definition land_gate_in_tx :: "('z) review_db_scheme \<Rightarrow> thread_id \<Rightarrow> store_error + unit" where
  "land_gate_in_tx db tid =
     (case read_in_tx db tid of
        Unarmed \<Rightarrow> Inr ()
      | GatePending \<Rightarrow> Inl (Conflict LandGatePending)
      | Recorded pass \<Rightarrow> if qualifies pass then Inr () else Inl (Conflict LandGateNotGreen))"

definition gate_history :: "('z) review_db_scheme \<Rightarrow> thread_id \<Rightarrow> land_verdict list" where
  "gate_history db tid = map snd (filter (\<lambda>(t, v). t = tid) (land_verdicts db))"

subsection \<open>What a landing pass says\<close>

lemma status_parse_as_str [simp]: "status_parse (status_as_str s) = Some s"
  by (cases s) (simp_all add: status_parse_def)

lemma color_parse_as_str [simp]: "color_parse (color_as_str c) = Some c"
  by (cases c) (simp_all add: color_parse_def)

lemma standing_land_Green:
  "standing_land p by owner assignee worked skill required = Green \<longleftrightarrow>
     \<not> required \<or> (\<exists>q m. p = Some q \<and> by = Some m
        \<and> is_qualifying_pass (lp_status q) (lp_land q) m owner assignee worked skill)"
  by (auto simp: standing_land_def split: option.splits)

text \<open>The verdict a close accepts, and who recorded it.\<close>

definition landing_verdict :: "('z) review_db_scheme \<Rightarrow> thread_row \<Rightarrow> land_verdict \<Rightarrow> bool" where
  "landing_verdict db t v \<longleftrightarrow>
     lv_status v = Pass \<and> lv_land v = Green \<and> recorder_has_skill db (lv_recorded_by v)
   \<and> list_all (\<lambda>m. t_owner t \<noteq> Some m \<and> t_assignee t \<noteq> Some m \<and> \<not> has_worked db (t_id t) m)
       (lv_recorded_by v # (case lv_recorded_actor v of None \<Rightarrow> [] | Some a \<Rightarrow> [a]))"

lemma read_in_tx_qualifies:
  "read_in_tx db tid = Recorded p \<and> qualifies p \<longleftrightarrow>
     (\<exists>g t v. armed_gate db tid = Some (g, t) \<and> lg_verdict g = Some v \<and> landing_verdict db t v
        \<and> read_in_tx db tid = Recorded p)"
proof (cases "armed_gate db tid")
  case None
  then show ?thesis by (simp add: read_in_tx_def)
next
  case (Some gt)
  obtain g t where gt: "armed_gate db tid = Some (g, t)" using Some by (cases gt) auto
  then have "t_id t = tid"
    by (auto simp: armed_gate_def find_thread_def split: option.splits dest: find_key_mem)
  with gt show ?thesis
    by (cases "lg_verdict g")
      (auto simp: read_in_tx_def qualifies_def is_qualifying_pass_def landing_verdict_def Let_def
        split: option.splits)
qed

lemma land_gate_in_tx_ok:
  "land_gate_in_tx db tid = Inr () \<longleftrightarrow>
     (case armed_gate db tid of
        None \<Rightarrow> True
      | Some (g, t) \<Rightarrow> \<exists>v. lg_verdict g = Some v \<and> landing_verdict db t v)"
proof (cases "armed_gate db tid")
  case None
  then show ?thesis by (simp add: land_gate_in_tx_def read_in_tx_def)
next
  case (Some gt)
  obtain g t where gt: "armed_gate db tid = Some (g, t)" using Some by (cases gt) auto
  show ?thesis
  proof (cases "lg_verdict g")
    case None
    with gt show ?thesis by (simp add: land_gate_in_tx_def read_in_tx_def)
  next
    case (Some v)
    then obtain p where p: "read_in_tx db tid = Recorded p"
      using gt by (simp add: read_in_tx_def Let_def)
    show ?thesis
      using read_in_tx_qualifies [of db tid p] gt Some p by (simp add: land_gate_in_tx_def)
  qed
qed

lemma standing_for_landable: "ls_landable (standing_for db tid) \<longleftrightarrow> land_gate_in_tx db tid = Inr ()"
proof (cases "armed_gate db tid")
  case None
  then show ?thesis
    by (simp add: standing_for_def land_gate_standing_def standing_land_def land_gate_in_tx_def read_in_tx_def)
next
  case (Some gt)
  obtain g t where gt: "armed_gate db tid = Some (g, t)" using Some by (cases gt) auto
  then show ?thesis
    by (cases "lg_verdict g")
      (auto simp: standing_for_def land_gate_standing_def standing_land_Green land_gate_in_tx_def read_in_tx_def
         qualifies_def is_qualifying_pass_def pointer_new_def Let_def split: option.splits)
qed

text \<open>C24: the land gate shows what it enforces.  A thread's standing says it may land exactly when the close
  gate lets it through, and that is when no gate is armed on it or when its recorded verdict is a green pass
  by a member with the land-gate skill where neither the recorder nor a delegate acting for them owns,
  holds or ever worked the thread.\<close>

theorem land_gate_shows_what_it_enforces:
  "(ls_landable (standing_for db tid) \<longleftrightarrow> is_ok (land_gate_in_tx db tid))
   \<and> (is_ok (land_gate_in_tx db tid) \<longleftrightarrow>
        (case armed_gate db tid of
           None \<Rightarrow> True
         | Some (g, t) \<Rightarrow> (\<exists>v. lg_verdict g = Some v \<and> landing_verdict db t v)))"
proof -
  have "is_ok (land_gate_in_tx db tid) \<longleftrightarrow> land_gate_in_tx db tid = Inr ()"
    by (cases "land_gate_in_tx db tid") simp_all
  then show ?thesis by (simp add: standing_for_landable land_gate_in_tx_ok)
qed

end
