(* ===== verification/Review_Evidence.thy ===== *)
theory Review_Evidence
  imports Land_Gate
begin

text \<open>
  What a review is handed: the evidence manifest and its root (\<open>maidan-types/src/review.rs\<close>), the
  tier of each piece of evidence (\<open>maidan-store/src/attestation.rs\<close>) and the review packets of
  \<open>maidan-store/src/sqlite/review_packets.rs\<close>.  The lemmas show that a root names one manifest, tiers
  included, that every stored packet carries the root of its manifest, and what a root that still
  verifies says about the thread's evidence now.
\<close>

subsection \<open>The manifest and its root\<close>

fun export_error_str :: "export_error \<Rightarrow> string" where
  "export_error_str (JsonError e) = ''signed export JSON is not canonicalizable: '' @ e"
| "export_error_str (ForbiddenField k) = ''export payload contains a forbidden secret field: '' @ k"
| "export_error_str InvalidHex = ''invalid hex encoding''"

fun tier_as_str :: "attestation_tier \<Rightarrow> string" where
  "tier_as_str Verified = ''verified''"
| "tier_as_str Attached = ''attached''"
| "tier_as_str SelfReported = ''self_reported''"

fun evidence_kind_as_str :: "evidence_kind \<Rightarrow> string" where
  "evidence_kind_as_str ResultKind = ''result''"
| "evidence_kind_as_str ArtifactKind = ''artifact''"
| "evidence_kind_as_str LandGateKind = ''land_gate''"

definition sha256_hex :: "outside \<Rightarrow> string \<Rightarrow> string" where
  "sha256_hex W bytes = hex_encode (sha256 (hashing W) bytes)"

abbreviation canonical :: "outside \<Rightarrow> json \<Rightarrow> export_error + string" where
  "canonical W v \<equiv> canonical_json (ser_string (hashing W)) (ser_number (hashing W)) v"

definition attestation_json :: "outside \<Rightarrow> evidence_attestation \<Rightarrow> json" where
  "attestation_json W a =
     Obj ([(''kind'', Str (evidence_kind_as_str (ea_kind a)))]
       @ (case ea_sha256 a of None \<Rightarrow> [] | Some s \<Rightarrow> [(''sha256'', Str s)])
       @ [(''tier'', Str (tier_as_str (ea_tier a))), (''attested_by'', Str (uuid W (ea_attested_by a)))])"

definition result_json :: "outside \<Rightarrow> result_evidence option \<Rightarrow> json" where
  "result_json W r =
     (case r of
        None \<Rightarrow> Null
      | Some r \<Rightarrow> Obj [(''sha256'', Str (re_sha256 r)), (''produced_by'', Str (uuid W (re_produced_by r)))])"

definition manifest_json :: "outside \<Rightarrow> evidence_manifest \<Rightarrow> json" where
  "manifest_json W m =
     Obj ([(''thread_id'', Str (uuid W (em_thread m))), (''result'', result_json W (em_result m)),
           (''artifacts'', Arr (map Str (em_artifacts m)))]
       @ (if em_attestations m = [] then []
          else [(''attestations'', Arr (map (attestation_json W) (em_attestations m)))]))"

definition root :: "outside \<Rightarrow> evidence_manifest \<Rightarrow> export_error + string" where
  "root W m = and_then (canonical W (manifest_json W m)) (\<lambda>bytes. Inr (sha256_hex W bytes))"

definition same_evidence :: "evidence_manifest \<Rightarrow> evidence_manifest \<Rightarrow> bool" where
  "same_evidence m n \<longleftrightarrow>
     em_thread m = em_thread n \<and> em_result m = em_result n \<and> em_artifacts m = em_artifacts n"

definition result_sha256 :: "outside \<Rightarrow> json \<Rightarrow> export_error + string" where
  "result_sha256 W v = and_then (canonical W v) (\<lambda>bytes. Inr (sha256_hex W bytes))"

definition self_reported_only :: "evidence_attestation list \<Rightarrow> bool" where
  "self_reported_only as \<longleftrightarrow> as \<noteq> [] \<and> list_all (\<lambda>a. ea_tier a = SelfReported) as"

subsection \<open>Tiers\<close>

record author =
  au_member :: member_id
  au_actor :: "member_id option"
  au_actor_unknown :: bool

definition is_worker :: "author \<Rightarrow> member_id list \<Rightarrow> bool" where
  "is_worker a ws \<longleftrightarrow>
     au_actor_unknown a \<or> au_member a \<in> set ws
   \<or> (case au_actor a of None \<Rightarrow> False | Some b \<Rightarrow> b \<in> set ws)"

definition tier :: "author \<Rightarrow> member_id list \<Rightarrow> attestation_tier" where
  "tier a ws = (if is_worker a ws then SelfReported else Attached)"

definition attest ::
  "evidence_manifest \<Rightarrow> author option \<Rightarrow> (string \<times> author) list \<Rightarrow> member_id list \<Rightarrow> gate_reading
    \<Rightarrow> evidence_attestation list" where
  "attest m result_author links ws gate =
     (case (em_result m, result_author) of
        (Some r, Some a) \<Rightarrow>
          [\<lparr>ea_kind = ResultKind, ea_sha256 = Some (re_sha256 r), ea_tier = tier a ws, ea_attested_by = au_member a\<rparr>]
      | _ \<Rightarrow> [])
   @ List.map_filter (\<lambda>sha.
       map_option (\<lambda>(_, a). \<lparr>ea_kind = ArtifactKind, ea_sha256 = Some sha, ea_tier = tier a ws,
                             ea_attested_by = au_member a\<rparr>)
         (find (\<lambda>(s, _). s = sha) links)) (em_artifacts m)
   @ (case gate of
        Recorded p \<Rightarrow>
          if qualifies p
          then [\<lparr>ea_kind = LandGateKind, ea_sha256 = rp_artifact_sha p, ea_tier = Verified,
                 ea_attested_by = rp_recorded_by p\<rparr>]
          else []
      | _ \<Rightarrow> [])"

subsection \<open>Packets\<close>

definition author_of :: "member_id \<Rightarrow> member_id option \<Rightarrow> bool \<Rightarrow> author" where
  "author_of m actor delegated =
     \<lparr>au_member = m,
      au_actor = (case actor of Some a \<Rightarrow> Some a | None \<Rightarrow> if \<not> delegated then Some m else None),
      au_actor_unknown = (actor = None \<and> delegated)\<rparr>"

definition ever_delegated :: "('z) review_db_scheme \<Rightarrow> member_id \<Rightarrow> bool" where
  "ever_delegated db m \<longleftrightarrow> m \<in> set (grant_subjects db)"

definition evidence_in_tx ::
  "outside \<Rightarrow> ('z) review_db_scheme \<Rightarrow> thread_id
    \<Rightarrow> store_error + evidence_manifest \<times> author option \<times> (string \<times> author) list" where
  "evidence_in_tx W db tid =
     and_then
       (case get_result db tid of
          None \<Rightarrow> Inr (None, None)
        | Some r \<Rightarrow>
            and_then (from_str W (r_result r)) (\<lambda>v.
            case result_sha256 W v of
              Inl e \<Rightarrow> Inl (InvalidInput (export_error_str e))
            | Inr sha \<Rightarrow>
                (let by = author_of (r_produced_by r) (r_produced_actor r) (ever_delegated db (r_produced_by r))
                 in Inr (Some \<lparr>re_sha256 = sha, re_produced_by = au_member by\<rparr>, Some by)))) (\<lambda>(res, res_author).
     let links = map (\<lambda>a. (ar_sha256 a, author_of (ar_linked_by a) (ar_linked_actor a) (ever_delegated db (ar_linked_by a))))
                   (sort_key ar_sha256 (filter (\<lambda>a. ar_thread a = tid) (thread_artifacts db)))
     in Inr (\<lparr>em_thread = tid, em_result = res, em_artifacts = map fst links, em_attestations = []\<rparr>, res_author, links))"

definition manifest_in_tx :: "outside \<Rightarrow> ('z) review_db_scheme \<Rightarrow> thread_id \<Rightarrow> store_error + evidence_manifest" where
  "manifest_in_tx W db tid = and_then (evidence_in_tx W db tid) (\<lambda>e. Inr (fst e))"

definition attestations_in_tx ::
  "('z) review_db_scheme \<Rightarrow> evidence_manifest \<Rightarrow> author option \<Rightarrow> (string \<times> author) list \<Rightarrow> evidence_attestation list" where
  "attestations_in_tx db m result_author links =
     attest m result_author links
       (map w_member (filter (\<lambda>w. w_thread w = em_thread m) (workers db))) (read_in_tx db (em_thread m))"

text \<open>\<open>ORDER BY created_at DESC, id DESC LIMIT 1\<close>.\<close>

definition latest_by :: "('a \<Rightarrow> 'k :: linorder) \<Rightarrow> 'a list \<Rightarrow> 'a option" where
  "latest_by key xs = find (\<lambda>x. \<forall>y \<in> set xs. key y \<le> key x) xs"

abbreviation packet_key :: "packet_row \<Rightarrow> instant \<times> nat" where
  "packet_key p \<equiv> (pk_created_at p, pk_id p)"

definition latest_packet :: "('z) review_db_scheme \<Rightarrow> thread_id \<Rightarrow> packet_row option" where
  "latest_packet db tid = latest_by packet_key (filter (\<lambda>p. pk_thread p = tid) (packets db))"

definition list_packets :: "('z) review_db_scheme \<Rightarrow> thread_id \<Rightarrow> packet_row list" where
  "list_packets db tid = sort_key packet_key (filter (\<lambda>p. pk_thread p = tid) (packets db))"

definition latest_root :: "('z) review_db_scheme \<Rightarrow> thread_id \<Rightarrow> string option" where
  "latest_root db tid = map_option pk_evidence_root (latest_packet db tid)"

definition record_packet ::
  "outside \<Rightarrow> instant \<Rightarrow> thread_id \<Rightarrow> member_id \<Rightarrow> ('z) review_db_scheme \<Rightarrow> store_error + packet_row \<times> ('z) review_db_scheme" where
  "record_packet W clk tid by db =
     and_then (evidence_in_tx W db tid) (\<lambda>(m, result_author, links).
     let m = m\<lparr>em_attestations := attestations_in_tx db m result_author links\<rparr>
     in case root W m of
          Inl e \<Rightarrow> Inl (InvalidInput (export_error_str e))
        | Inr r \<Rightarrow>
            (let p = \<lparr>pk_id = new_id W (map pk_id (packets db)), pk_thread = tid, pk_requested_by = by,
                      pk_thread_version = (case map_of (thread_versions db) tid of Some v \<Rightarrow> v | None \<Rightarrow> 0),
                      pk_manifest = m, pk_evidence_root = r, pk_created_at = clk\<rparr>
             in Inr (p, db\<lparr>packets := packets db @ [p]\<rparr>)))"

definition ensure_unchanged :: "outside \<Rightarrow> ('z) review_db_scheme \<Rightarrow> thread_id \<Rightarrow> string \<Rightarrow> store_error + unit" where
  "ensure_unchanged W db tid r =
     and_then (manifest_in_tx W db tid) (\<lambda>current.
     case latest_by packet_key (filter (\<lambda>p. pk_thread p = tid \<and> pk_evidence_root p = r) (packets db)) of
       Some p \<Rightarrow> ensure (same_evidence (pk_manifest p) current) (Conflict EvidenceChanged)
     | None \<Rightarrow> Inl (Conflict EvidenceChanged))"

definition verify_root :: "outside \<Rightarrow> ('z) review_db_scheme \<Rightarrow> thread_id \<Rightarrow> string \<Rightarrow> store_error + unit" where
  "verify_root W db tid r =
     and_then (ok_or (latest_root db tid) (Conflict NothingHandedOver)) (\<lambda>latest.
     and_then (ensure (latest = r) (Conflict StaleEvidence)) (\<lambda>_.
     ensure_unchanged W db tid latest))"

subsection \<open>A root names one manifest\<close>

inductive_simps same_json_simps [simp]:
  "same_json Null w" "same_json (Str s) w" "same_json (Arr xs) w" "same_json v Null"

inductive_cases same_objE: "same_json (Obj m) (Obj n)"

lemma same_obj_at:
  assumes "same_json (Obj m) (Obj n)"
  shows "rel_option same_json (map_of m k) (map_of n k)"
proof -
  have keys: "set (map fst m) = set (map fst n)"
    and vals: "k \<in> set (map fst m) \<Longrightarrow> same_json (the (map_of m k)) (the (map_of n k))"
    using assms by (auto elim!: same_objE)
  show ?thesis
  proof (cases "k \<in> set (map fst m)")
    case True
    then have "map_of m k \<noteq> None" "map_of n k \<noteq> None" using keys by (simp_all add: map_of_eq_None_iff)
    then obtain v w where "map_of m k = Some v" "map_of n k = Some w" by auto
    with vals [OF True] show ?thesis by simp
  next
    case False
    then have "map_of m k = None" "map_of n k = None" using keys by (simp_all add: map_of_eq_None_iff)
    then show ?thesis by simp
  qed
qed

lemma same_strs: "list_all2 same_json (map Str xs) (map Str ys) \<longleftrightarrow> xs = ys"
  by (induction xs arbitrary: ys) (auto simp: list_all2_Cons1 Cons_eq_map_conv)

lemma evidence_kind_as_str_inj [simp]: "evidence_kind_as_str k = evidence_kind_as_str l \<longleftrightarrow> k = l"
  by (cases k; cases l) simp_all

lemma tier_as_str_inj [simp]: "tier_as_str s = tier_as_str t \<longleftrightarrow> s = t"
  by (cases s; cases t) simp_all

lemma attestation_json_inj:
  assumes "inj (uuid W)" "same_json (attestation_json W a) (attestation_json W b)"
  shows "a = b"
proof -
  note at = same_obj_at [OF assms(2) [unfolded attestation_json_def]]
  have "ea_kind a = ea_kind b" using at [of "''kind''"] by simp
  moreover have "ea_sha256 a = ea_sha256 b" using at [of "''sha256''"] by (auto split: option.splits)
  moreover have "ea_tier a = ea_tier b" using at [of "''tier''"] by (auto split: option.splits)
  moreover have "ea_attested_by a = ea_attested_by b"
    using at [of "''attested_by''"] assms(1) by (auto simp: inj_eq split: option.splits)
  ultimately show ?thesis by (auto intro: evidence_attestation.equality)
qed

lemma attestations_json_inj:
  assumes "inj (uuid W)"
  shows "list_all2 same_json (map (attestation_json W) as) (map (attestation_json W) bs) \<Longrightarrow> as = bs"
  by (induction as arbitrary: bs)
    (auto simp: list_all2_Cons1 Cons_eq_map_conv dest: attestation_json_inj [OF assms])

lemma result_json_inj:
  assumes "inj (uuid W)" "same_json (result_json W r) (result_json W s)"
  shows "r = s"
proof (cases r; cases s)
  fix x y assume rs: "r = Some x" "s = Some y"
  note at = same_obj_at [OF assms(2) [unfolded result_json_def rs option.case]]
  have "re_sha256 x = re_sha256 y" using at [of "''sha256''"] by simp
  moreover have "re_produced_by x = re_produced_by y" using at [of "''produced_by''"] assms(1) by (simp add: inj_eq)
  ultimately show ?thesis by (simp add: rs result_evidence.equality)
qed (use assms(2) in \<open>simp_all add: result_json_def\<close>)

lemma manifest_json_inj:
  assumes "inj (uuid W)" "same_json (manifest_json W m) (manifest_json W n)"
  shows "m = n"
proof -
  note at = same_obj_at [OF assms(2) [unfolded manifest_json_def]]
  have "em_thread m = em_thread n" using at [of "''thread_id''"] assms(1) by (simp add: inj_eq)
  moreover have "em_result m = em_result n" using at [of "''result''"] result_json_inj [OF assms(1)] by simp
  moreover have "em_artifacts m = em_artifacts n" using at [of "''artifacts''"] by (simp add: same_strs)
  moreover have "em_attestations m = em_attestations n"
    using at [of "''attestations''"] attestations_json_inj [OF assms(1)] by (auto split: if_splits)
  ultimately show ?thesis by (auto intro: evidence_manifest.equality)
qed

lemma wf_manifest_json: "wf_json (manifest_json W m)"
  by (auto simp: manifest_json_def result_json_def attestation_json_def list_all_iff split: option.splits)

text \<open>The bytes a root is the digest of.\<close>

definition manifest_bytes :: "outside \<Rightarrow> evidence_manifest \<Rightarrow> string" where
  "manifest_bytes W m = projr (canonical W (manifest_json W m))"

definition json_printers :: "outside \<Rightarrow> bool" where
  "json_printers W \<longleftrightarrow> string_literals (ser_string (hashing W)) \<and> number_literals (ser_number (hashing W)) \<and> inj (uuid W)"

lemma root_inj:
  assumes "json_printers W" "inj_on (sha256 (hashing W)) {manifest_bytes W m, manifest_bytes W n}"
    and "root W m = Inr r" "root W n = Inr r"
  shows "m = n"
proof -
  obtain b c where b: "canonical W (manifest_json W m) = Inr b" and c: "canonical W (manifest_json W n) = Inr c"
    and h: "hex_encode (sha256 (hashing W) b) = hex_encode (sha256 (hashing W) c)"
    using assms(3,4) by (auto simp: root_def and_then_Inr sha256_hex_def)
  have bs: "manifest_bytes W m = b" "manifest_bytes W n = c" by (simp_all add: manifest_bytes_def b c)
  have "b = c"
    by (rule inj_onD [OF assms(2) hex_encode_inj]) (simp_all add: h bs)
  then have "same_json (manifest_json W m) (manifest_json W n) \<and> ([] :: string) = []"
    using assms(1) wf_manifest_json b c
    by (intro printed_prefix [of "ser_string (hashing W)" "ser_number (hashing W)"])
      (simp_all add: json_printers_def canonical_json_def stop_def)
  then show ?thesis using assms(1) by (intro manifest_json_inj [of W]) (simp_all add: json_printers_def)
qed

subsection \<open>Packets carry their root\<close>

definition packets_ok :: "outside \<Rightarrow> ('z) review_db_scheme \<Rightarrow> bool" where
  "packets_ok W db \<longleftrightarrow> (\<forall>p \<in> set (packets db). root W (pk_manifest p) = Inr (pk_evidence_root p)
     \<and> em_thread (pk_manifest p) = pk_thread p)"

lemma latest_by_mem: "latest_by key xs = Some x \<Longrightarrow> x \<in> set xs"
  by (auto simp: latest_by_def dest: find_key_mem)

lemma latest_by_max: "latest_by key xs = Some x \<Longrightarrow> y \<in> set xs \<Longrightarrow> key y \<le> key x"
  by (auto simp: latest_by_def dest: find_key_mem)

lemma latest_by_None [simp]: "latest_by key xs = None \<longleftrightarrow> xs = []"
proof
  assume *: "latest_by key xs = None"
  show "xs = []"
  proof (rule ccontr)
    assume "xs \<noteq> []"
    then have "Max (key ` set xs) \<in> key ` set xs" by (intro Max_in) auto
    then obtain x where "x \<in> set xs" "key x = Max (key ` set xs)" by auto
    then show False using * by (auto simp: latest_by_def find_None_iff)
  qed
qed (simp add: latest_by_def)

lemma evidence_in_tx_thread:
  "evidence_in_tx W db tid = Inr (m, a, ls) \<Longrightarrow> em_thread m = tid \<and> em_attestations m = []"
  by (auto simp: evidence_in_tx_def and_then_Inr Let_def split: option.splits sum.splits)

lemma record_packet_SomeD:
  assumes "record_packet W clk tid by db = Inr (p, db')"
  shows "db' = db\<lparr>packets := packets db @ [p]\<rparr>" "pk_thread p = tid" "root W (pk_manifest p) = Inr (pk_evidence_root p)"
    "em_thread (pk_manifest p) = tid" "pk_created_at p = clk"
    "\<exists>m. manifest_in_tx W db tid = Inr m \<and> same_evidence (pk_manifest p) m"
proof -
  obtain m a ls where e: "evidence_in_tx W db tid = Inr (m, a, ls)"
    and k: "(case root W (m\<lparr>em_attestations := attestations_in_tx db m a ls\<rparr>) of
          Inl e \<Rightarrow> Inl (InvalidInput (export_error_str e))
        | Inr r \<Rightarrow>
            (let p = \<lparr>pk_id = new_id W (map pk_id (packets db)), pk_thread = tid, pk_requested_by = by,
                      pk_thread_version = (case map_of (thread_versions db) tid of Some v \<Rightarrow> v | None \<Rightarrow> 0),
                      pk_manifest = m\<lparr>em_attestations := attestations_in_tx db m a ls\<rparr>, pk_evidence_root = r,
                      pk_created_at = clk\<rparr>
             in Inr (p, db\<lparr>packets := packets db @ [p]\<rparr>))) = Inr (p, db')"
    using assms by (auto simp: record_packet_def and_then_Inr Let_def)
  show "db' = db\<lparr>packets := packets db @ [p]\<rparr>" "pk_thread p = tid"
    "root W (pk_manifest p) = Inr (pk_evidence_root p)" "em_thread (pk_manifest p) = tid" "pk_created_at p = clk"
    "\<exists>m. manifest_in_tx W db tid = Inr m \<and> same_evidence (pk_manifest p) m"
    using k evidence_in_tx_thread [OF e]
    by (auto simp: Let_def manifest_in_tx_def e same_evidence_def split: sum.split_asm)
qed

lemma record_packet_ok:
  "record_packet W clk tid by db = Inr (p, db') \<Longrightarrow> packets_ok W db \<Longrightarrow> packets_ok W db'"
  by (frule record_packet_SomeD(1)) (auto simp: packets_ok_def record_packet_SomeD(2-4))

lemma latest_packet_Some:
  "latest_packet db tid = Some p \<Longrightarrow> p \<in> set (packets db) \<and> pk_thread p = tid"
  by (auto simp: latest_packet_def dest: latest_by_mem)

text \<open>A root that verifies: the packet is the latest, and its manifest is the thread's evidence now.\<close>

lemma ensure_unchangedD:
  assumes "packets_ok W db" "ensure_unchanged W db tid r = Inr ()"
  obtains p current where "p \<in> set (packets db)" "pk_thread p = tid" "pk_evidence_root p = r"
    "root W (pk_manifest p) = Inr r" "manifest_in_tx W db tid = Inr current" "same_evidence (pk_manifest p) current"
proof -
  let ?ps = "filter (\<lambda>p. pk_thread p = tid \<and> pk_evidence_root p = r) (packets db)"
  obtain current where c: "manifest_in_tx W db tid = Inr current"
    and k: "(case latest_by packet_key ?ps of
       Some p \<Rightarrow> ensure (same_evidence (pk_manifest p) current) (Conflict EvidenceChanged)
     | None \<Rightarrow> Inl (Conflict EvidenceChanged)) = Inr ()"
    using assms(2) by (auto simp: ensure_unchanged_def and_then_Inr)
  obtain p where p: "latest_by packet_key ?ps = Some p" using k by (cases "latest_by packet_key ?ps") auto
  note * = c k [unfolded p option.case ensure_simps] p
  from latest_by_mem [OF p] have "p \<in> set (packets db)" "pk_thread p = tid" "pk_evidence_root p = r" by auto
  with * that assms(1) show thesis by (auto simp: packets_ok_def)
qed

end
