(* ===== verification/Close_Gate.thy ===== *)
theory Close_Gate
  imports Review_Evidence
begin

text \<open>
  The gates of \<open>maidan-store/src/sqlite/thread_transitions.rs\<close>: the review gate and the result gate, the
  outside approval, and separation of duties; and \<open>review_status\<close> of \<open>sqlite/reviews.rs\<close>, the standing a
  person reads before closing.  The lemmas say which approvals count, and relate the standing to the
  gate.
\<close>

definition no_row :: store_error where
  "no_row = Database ''no rows returned by a query that expected to return at least one row''"

subsection \<open>Approvals that count\<close>

definition live_member_in :: "('z) claim_db_scheme \<Rightarrow> workspace_id \<Rightarrow> member_id \<Rightarrow> bool" where
  "live_member_in db ws m \<longleftrightarrow>
     (\<exists>mr \<in> set (members db). m_id mr = m \<and> m_workspace mr = ws \<and> m_tombstoned_at mr = None)"

text \<open>Bound to what the current review was handed.\<close>

definition bound_to_packet :: "('z) review_db_scheme \<Rightarrow> review_row \<Rightarrow> bool" where
  "bound_to_packet db r =
     (case latest_root db (rv_thread r) of None \<Rightarrow> True | Some h \<Rightarrow> rv_evidence_root r = Some h)"

definition not_owner_nor_worker :: "('z) claim_db_scheme \<Rightarrow> thread_row \<Rightarrow> member_id \<Rightarrow> bool" where
  "not_owner_nor_worker db t m \<longleftrightarrow> t_owner t \<noteq> Some m \<and> \<not> has_worked db (t_id t) m"

definition independent :: "('z) claim_db_scheme \<Rightarrow> thread_row \<Rightarrow> member_id \<Rightarrow> bool" where
  "independent db t m \<longleftrightarrow> not_owner_nor_worker db t m \<and> t_assignee t \<noteq> Some m"

definition in_named_set :: "('z) review_db_scheme \<Rightarrow> thread_id \<Rightarrow> member_id \<Rightarrow> bool" where
  "in_named_set db tid m \<longleftrightarrow>
     \<not> (\<exists>w \<in> set (reviewers db). rw_thread w = tid)
   \<or> (\<exists>w \<in> set (reviewers db). rw_thread w = tid \<and> rw_member w = m)"

definition review_principal :: "review_row \<Rightarrow> member_id" where
  "review_principal r = (case rv_actor r of Some a \<Rightarrow> a | None \<Rightarrow> rv_reviewer r)"

text \<open>The standing approvals of a thread, bound to its latest packet.\<close>

definition standing_approval :: "('z) review_db_scheme \<Rightarrow> thread_id \<Rightarrow> review_row \<Rightarrow> bool" where
  "standing_approval db tid r \<longleftrightarrow>
     rv_thread r = tid \<and> rv_decision r = Approve \<and> rv_dismissed_at r = None \<and> bound_to_packet db r"

definition shown_approval :: "('z) review_db_scheme \<Rightarrow> thread_id \<Rightarrow> review_row \<Rightarrow> bool" where
  "shown_approval db tid r \<longleftrightarrow>
     standing_approval db tid r
   \<and> (\<exists>t \<in> set (threads db). t_id t = rv_thread r
        \<and> independent db t (rv_reviewer r)
        \<and> (case rv_actor r of None \<Rightarrow> True | Some a \<Rightarrow> independent db t a))
   \<and> in_named_set db tid (rv_reviewer r)"

definition counted_approval :: "('z) review_db_scheme \<Rightarrow> thread_id \<Rightarrow> review_row \<Rightarrow> bool" where
  "counted_approval db tid r \<longleftrightarrow>
     standing_approval db tid r
   \<and> (\<exists>t \<in> set (threads db). \<exists>c \<in> set (channels db). t_id t = rv_thread r \<and> c_id c = t_channel t
        \<and> live_member_in db (c_workspace c) (rv_reviewer r)
        \<and> independent db t (rv_reviewer r)
        \<and> (case rv_actor r of None \<Rightarrow> True | Some a \<Rightarrow> live_member_in db (c_workspace c) a \<and> independent db t a))
   \<and> in_named_set db tid (rv_reviewer r)"

text \<open>\<open>COUNT(DISTINCT COALESCE(actor_id, reviewer_id))\<close>.\<close>

definition count_principals :: "(review_row \<Rightarrow> bool) \<Rightarrow> ('z) review_db_scheme \<Rightarrow> int" where
  "count_principals P db = int (length (remdups (map review_principal (filter P (reviews db)))))"

definition get_requirement :: "('z) review_db_scheme \<Rightarrow> thread_id \<Rightarrow> review_req_row option" where
  "get_requirement db tid = find (\<lambda>q. rq_thread q = tid) (review_reqs db)"

definition required_count :: "('z) review_db_scheme \<Rightarrow> thread_id \<Rightarrow> int" where
  "required_count db tid = (case get_requirement db tid of Some q \<Rightarrow> rq_required_count q | None \<Rightarrow> 0)"

definition refuted :: "('z) review_db_scheme \<Rightarrow> thread_id \<Rightarrow> bool" where
  "refuted db tid \<longleftrightarrow> (\<exists>r \<in> set (references db). rf_relation r = Refutes \<and> rf_dst r = RefThread tid)"

subsection \<open>The gates\<close>

definition review_gate :: "outside \<Rightarrow> ('z) review_db_scheme \<Rightarrow> thread_id \<Rightarrow> store_error + unit" where
  "review_gate W db tid =
     (let required = required_count db tid; approvals = count_principals (counted_approval db tid) db
      in and_then
           (if required > 0
            then (case latest_root db tid of Some r \<Rightarrow> ensure_unchanged W db tid r | None \<Rightarrow> Inr ())
            else Inr ()) (\<lambda>_.
         and_then (ensure (\<not> (required > 0 \<and> approvals < required)) (Conflict (ReviewNotMet approvals required))) (\<lambda>_.
         ensure (\<not> refuted db tid) (Conflict Refuted))))"

definition result_gate :: "('z) review_db_scheme \<Rightarrow> thread_id \<Rightarrow> store_error + unit" where
  "result_gate db tid =
     ensure (\<not> (required_count db tid > 0 \<and> \<not> (\<exists>r \<in> set (results db). r_thread r = tid))) (Conflict NoResultPosted)"

definition outside_review :: "('z) review_db_scheme \<Rightarrow> thread_id \<Rightarrow> review_row \<Rightarrow> bool" where
  "outside_review db tid r \<longleftrightarrow>
     standing_approval db tid r
   \<and> (\<exists>t \<in> set (threads db). \<exists>c \<in> set (channels db). t_id t = rv_thread r \<and> c_id c = t_channel t
        \<and> live_member_in db (c_workspace c) (rv_reviewer r)
        \<and> not_owner_nor_worker db t (rv_reviewer r)
        \<and> (case rv_actor r of None \<Rightarrow> True
           | Some a \<Rightarrow> live_member_in db (c_workspace c) a \<and> not_owner_nor_worker db t a))"

definition outside_approval :: "('z) review_db_scheme \<Rightarrow> thread_id \<Rightarrow> bool" where
  "outside_approval db tid \<longleftrightarrow>
     (if \<exists>r \<in> set (reviews db). outside_review db tid r then True
      else case read_in_tx db tid of
        Recorded p \<Rightarrow> qualifies p
          \<and> (\<exists>t \<in> set (threads db). \<exists>c \<in> set (channels db). t_id t = tid \<and> c_id c = t_channel t
               \<and> live_member_in db (c_workspace c) (rp_recorded_by p))
      | _ \<Rightarrow> False)"

definition separation_of_duties ::
  "('z) review_db_scheme \<Rightarrow> thread_row \<Rightarrow> member_id \<Rightarrow> thread_state \<Rightarrow> store_error + unit" where
  "separation_of_duties db t actor to_state =
     ensure (\<not> (t_owner t \<noteq> None \<and> is_terminal to_state
        \<and> (t_assignee t = Some actor
           \<or> has_worked db (t_id t) actor \<and> \<not> outside_approval db (t_id t)))) (Conflict SeparationOfDuties)"

subsection \<open>The standing shown\<close>

definition DEFAULT_MAX_REVIEW_ROUNDS :: int where
  "DEFAULT_MAX_REVIEW_ROUNDS = 3"

text \<open>The latest accepted review-round cap.\<close>

definition accepted_cap :: "('z) claim_db_scheme \<Rightarrow> thread_id \<Rightarrow> instant option" where
  "accepted_cap db tid =
     latest_by (\<lambda>x. x) (List.map_filter (\<lambda>g.
       if g_thread g = Some tid \<and> g_kind g = ReviewRoundCap \<and> g_state g = Accepted then g_resolved_at g else None)
       (gates db))"

definition cap_pending :: "('z) claim_db_scheme \<Rightarrow> thread_id \<Rightarrow> bool" where
  "cap_pending db tid \<longleftrightarrow>
     (\<exists>g \<in> set (gates db). g_thread g = Some tid \<and> g_kind g = ReviewRoundCap \<and> g_state g = Pending)"

text \<open>\<open>round_standing\<close>: the cap in force, the send-backs since the last accepted cap, and whether a gate
  is pending.\<close>

definition round_standing :: "('z) review_db_scheme \<Rightarrow> thread_id \<Rightarrow> int \<times> int \<times> bool" where
  "round_standing db tid =
     (let max_rounds = (case get_requirement db tid of Some q \<Rightarrow> rq_max_rounds q | None \<Rightarrow> DEFAULT_MAX_REVIEW_ROUNDS);
          cutoff = accepted_cap db tid;
          back = filter (\<lambda>x. tr_thread x = tid \<and> tr_from x = InReview \<and> tr_to x = Open
                   \<and> (case cutoff of None \<Rightarrow> True | Some c \<Rightarrow> tr_occurred_at x > c)) (transitions db)
      in (max_rounds, int (length back), cap_pending db tid))"

definition evidence_changed :: "outside \<Rightarrow> ('z) review_db_scheme \<Rightarrow> thread_id \<Rightarrow> bool" where
  "evidence_changed W db tid =
     (case latest_root db tid of Some r \<Rightarrow> \<not> is_ok (ensure_unchanged W db tid r) | None \<Rightarrow> False)"

record review_standing =
  rs_required_count :: int
  rs_approvals :: int
  rs_approvals_met :: bool
  rs_send_backs :: int
  rs_max_rounds :: int

definition review_status :: "outside \<Rightarrow> ('z) review_db_scheme \<Rightarrow> thread_id \<Rightarrow> review_standing" where
  "review_status W db tid =
     (let required = required_count db tid;
          approvals = count_principals (shown_approval db tid) db;
          approvals = (if approvals > 0 \<and> evidence_changed W db tid then 0 else approvals);
          (max_rounds, send_backs, _) = round_standing db tid
      in \<lparr>rs_required_count = required, rs_approvals = approvals,
          rs_approvals_met = (required = 0 \<or> approvals \<ge> required),
          rs_send_backs = send_backs, rs_max_rounds = max_rounds\<rparr>)"

subsection \<open>Which approvals count\<close>

lemma counted_shown: "counted_approval db tid r \<Longrightarrow> shown_approval db tid r"
  by (auto simp: counted_approval_def shown_approval_def split: option.splits)

lemma count_principals_card: "count_principals P db = int (card (review_principal ` {r \<in> set (reviews db). P r}))"
proof -
  have "length (remdups (map review_principal (filter P (reviews db)))) = card (set (map review_principal (filter P (reviews db))))"
    by (simp add: length_remdups_card_conv)
  moreover have "set (map review_principal (filter P (reviews db))) = review_principal ` {r \<in> set (reviews db). P r}" by auto
  ultimately show ?thesis by (simp add: count_principals_def)
qed

lemma count_principals_mono:
  assumes "\<And>r. P r \<Longrightarrow> Q r"
  shows "count_principals P db \<le> count_principals Q db"
proof -
  have "review_principal ` {r \<in> set (reviews db). P r} \<subseteq> review_principal ` {r \<in> set (reviews db). Q r}" using assms by blast
  then show ?thesis by (simp add: count_principals_card card_mono)
qed

text \<open>Whoever stands behind an approval that counts, the reviewer and a delegate alike.\<close>

lemma counted_principal:
  assumes "counted_approval db tid r"
  obtains t c where "t \<in> set (threads db)" "t_id t = tid" "c \<in> set (channels db)" "c_id c = t_channel t"
    "live_member_in db (c_workspace c) (review_principal r)" "independent db t (review_principal r)"
    "live_member_in db (c_workspace c) (rv_reviewer r)" "independent db t (rv_reviewer r)"
proof -
  from assms obtain t c where "t \<in> set (threads db)" "c \<in> set (channels db)" "t_id t = rv_thread r" "c_id c = t_channel t"
    "live_member_in db (c_workspace c) (rv_reviewer r)" "independent db t (rv_reviewer r)"
    "case rv_actor r of None \<Rightarrow> True | Some a \<Rightarrow> live_member_in db (c_workspace c) a \<and> independent db t a"
    "rv_thread r = tid"
    by (auto simp: counted_approval_def standing_approval_def)
  then show thesis by (intro that [of t c]) (auto simp: review_principal_def split: option.splits)
qed

lemma review_gate_ok:
  "review_gate W db tid = Inr () \<longleftrightarrow>
     (required_count db tid > 0 \<longrightarrow>
        (case latest_root db tid of Some r \<Rightarrow> ensure_unchanged W db tid r = Inr () | None \<Rightarrow> True)
        \<and> count_principals (counted_approval db tid) db \<ge> required_count db tid)
   \<and> \<not> refuted db tid"
  by (auto simp: review_gate_def and_then_Inr Let_def split: option.splits)

lemma review_gate_met:
  assumes "review_gate W db tid = Inr ()" "0 \<le> required_count db tid"
  shows "rs_approvals_met (review_status W db tid)"
proof (cases "required_count db tid = 0")
  case True
  then show ?thesis by (simp add: review_status_def Let_def split_def)
next
  case False
  with assms have pos: "0 < required_count db tid" by simp
  with assms(1) have gate: "case latest_root db tid of Some r \<Rightarrow> ensure_unchanged W db tid r = Inr () | None \<Rightarrow> True"
    and enough: "required_count db tid \<le> count_principals (counted_approval db tid) db"
    by (simp_all add: review_gate_ok)
  have "\<not> evidence_changed W db tid" using gate by (auto simp: evidence_changed_def split: option.splits)
  moreover have "count_principals (counted_approval db tid) db \<le> count_principals (shown_approval db tid) db"
    by (rule count_principals_mono) (rule counted_shown)
  ultimately show ?thesis using enough by (simp add: review_status_def Let_def split_def)
qed

end
