(* ===== verification/Transitions.thy ===== *)
theory Transitions
  imports Close_Gate
begin

text \<open>
  Moving a thread: \<open>transition_in_spawning\<close> and \<open>land_in_tx\<close> of
  \<open>maidan-store/src/sqlite/thread_transitions.rs\<close>, with the review child a change gets when it enters review
  (\<open>sqlite/review_family.rs\<close>, \<open>sqlite/thread_attributes.rs\<close>).  The lemmas give the shape of every
  successful transition: the edge of the state machine it took, the gates it passed, and the rows it
  wrote.
\<close>

subsection \<open>The review child\<close>

definition provider_family :: "outside \<Rightarrow> string option \<Rightarrow> string \<Rightarrow> string option" where
  "provider_family W provider model =
     (let named = to_lowercase W (unwrap_or provider [] @ '' '' @ model);
          m = to_lowercase W model
      in map_option fst
           (find (\<lambda>(family, words, prefixes).
                (\<exists>w \<in> set words. contains_str named w)
              \<or> (\<exists>p \<in> set prefixes. m = p \<or> starts_with m (p @ ''-''))) PROVIDER_FAMILIES))"

definition review_family_for :: "string option \<Rightarrow> string option" where
  "review_family_for author =
     (case author of
        None \<Rightarrow> None
      | Some a \<Rightarrow> find (\<lambda>family. family \<noteq> a) (map fst PROVIDER_FAMILIES))"

definition review_attributes :: "thread_id \<Rightarrow> attribute_row" where
  "review_attributes tid =
     \<lparr>a_thread = tid, a_kind = ''review'', a_engine = None, a_lane = None, a_linear_issue = None,
      a_author_family = None, a_review_family = None\<rparr>"

definition apply_default_engine :: "thread_id \<Rightarrow> ('z) review_db_scheme \<Rightarrow> ('z) review_db_scheme" where
  "apply_default_engine tid db =
     (case thread_scope db tid of
        Inl _ \<Rightarrow> db
      | Inr (ws, _) \<Rightarrow>
          (case map_of (default_engines db) ws of
             None \<Rightarrow> db
           | Some e \<Rightarrow>
               if \<exists>a \<in> set (attributes db). a_thread a = tid
               then db\<lparr>attributes := update_where (\<lambda>a. a_thread a = tid \<and> a_engine a = None)
                                       (\<lambda>a. a\<lparr>a_engine := Some e\<rparr>) (attributes db)\<rparr>
               else db\<lparr>attributes := attributes db @
                        [(review_attributes tid)\<lparr>a_kind := ''change'', a_engine := Some e\<rparr>]\<rparr>))"

definition get_attributes :: "('z) claim_db_scheme \<Rightarrow> thread_id \<Rightarrow> attribute_row option" where
  "get_attributes db tid = find (\<lambda>a. a_thread a = tid) (attributes db)"

definition child_row :: "instant \<Rightarrow> thread_id \<Rightarrow> channel_id \<Rightarrow> thread_id \<Rightarrow> member_id \<Rightarrow> thread_row" where
  "child_row clk cid ch parent actor =
     \<lparr>t_id = cid, t_channel = ch, t_parent = Some parent, t_title = Some ''Second-family review'', t_description = None,
      t_state = Open, t_created_at = clk, t_updated_at = clk, t_tombstoned_at = None, t_assignee = None,
      t_expires_at = None, t_lease = None, t_claimed_at = None, t_work_started_at = None,
      t_owner = None, t_created_by = Some actor, t_unack_lease = None, t_stall_lease = None, t_lapse_lease = None\<rparr>"

text \<open>The author's family: from the latest usage record of the change's claimant, else its creator.\<close>

definition author_family :: "outside \<Rightarrow> ('z) claim_db_scheme \<Rightarrow> workspace_id \<Rightarrow> thread_row \<Rightarrow> string option" where
  "author_family W db ws t =
     (case latest_by (\<lambda>u. (ul_accepted_at u, ul_report u))
             (filter (\<lambda>u. ul_thread u = t_id t \<and> ul_workspace u = ws
                \<and> Some (ul_reporter u) = (case t_assignee t of Some a \<Rightarrow> Some a | None \<Rightarrow> t_created_by t)) (usage db)) of
        None \<Rightarrow> None
      | Some u \<Rightarrow> provider_family W (ul_provider u) (ul_model u))"

definition live_review_child :: "('z) claim_db_scheme \<Rightarrow> thread_id \<Rightarrow> bool" where
  "live_review_child db tid \<longleftrightarrow>
     (\<exists>t \<in> set (threads db). t_parent t = Some tid \<and> live t \<and> \<not> is_terminal (t_state t)
        \<and> (\<exists>a \<in> set (attributes db). a_thread a = t_id t \<and> a_kind a = ''review''))"

definition insert_review_child ::
  "outside \<Rightarrow> instant \<Rightarrow> thread_id \<Rightarrow> member_id \<Rightarrow> string \<Rightarrow> workspace_id \<Rightarrow> channel_id
    \<Rightarrow> ('z) review_db_scheme \<Rightarrow> store_error + ('z) review_db_scheme" where
  "insert_review_child W clk tid actor author ws ch db =
     (let cid = new_id W (map t_id (threads db));
          row = child_row clk cid ch tid actor;
          attrs = (review_attributes cid)\<lparr>a_review_family := review_family_for (Some author), a_author_family := Some author\<rparr>
      in and_then (ensure (cid \<notin> t_id ` set (threads db) \<and> cid \<notin> a_thread ` set (attributes db))
                    (Database ''UNIQUE constraint failed'')) (\<lambda>_.
         let db1 = apply_default_engine cid (db\<lparr>threads := threads db @ [row], attributes := attributes db @ [attrs]\<rparr>);
             db2 = append_event (ThreadCreated clk ws ch row) db1
         in Inr (append_event (ThreadAttributesSet clk ws ch cid (unwrap_or (get_attributes db2 cid) attrs)
                    (Some author) actor) db2)))"

definition spawn_review ::
  "outside \<Rightarrow> instant \<Rightarrow> thread_id \<Rightarrow> member_id \<Rightarrow> ('z) review_db_scheme \<Rightarrow> store_error + ('z) review_db_scheme" where
  "spawn_review W clk tid actor db =
     (if (case get_attributes db tid of Some a \<Rightarrow> a_kind a \<noteq> ''change'' | None \<Rightarrow> False) then Inr db
      else case (find_thread db tid, thread_scope db tid) of
        (Some t, Inr (ws, ch)) \<Rightarrow>
          if ws \<in> set (review_children_off db) \<or> live_review_child db tid then Inr db
          else (case author_family W db ws t of
                  None \<Rightarrow> Inr db
                | Some author \<Rightarrow> insert_review_child W clk tid actor author ws ch db)
      | _ \<Rightarrow> Inl no_row)"

subsection \<open>Landing\<close>

record transition_result =
  xr_thread :: thread_row
  xr_from :: thread_state
  xr_to :: thread_state

definition after_floor :: "instant \<Rightarrow> instant option \<Rightarrow> instant" where
  "after_floor now floor =
     (case floor of Some f \<Rightarrow> if now \<le> f then f + 1 else now | None \<Rightarrow> now)"

definition is_plan_child :: "('z) review_db_scheme \<Rightarrow> thread_id \<Rightarrow> bool" where
  "is_plan_child db tid \<longleftrightarrow> (\<exists>c \<in> set (plan_children db). pc_child c = tid)"

definition is_review_child :: "('z) claim_db_scheme \<Rightarrow> thread_id \<Rightarrow> bool" where
  "is_review_child db tid \<longleftrightarrow>
     (\<exists>a \<in> set (attributes db). a_thread a = tid \<and> a_kind a = ''review'' \<and> a_review_family a \<noteq> None)"

definition parent_check :: "('z) review_db_scheme \<Rightarrow> thread_row \<Rightarrow> thread_state \<Rightarrow> store_error + unit" where
  "parent_check db t to_state =
     (case t_parent t of
        None \<Rightarrow> Inr ()
      | Some p \<Rightarrow>
          and_then (ok_or (find_thread db p) NotFound) (\<lambda>parent.
          let child_to = (if is_plan_child db (t_id t) \<or> is_review_child db (t_id t) then Open else to_state)
          in case parent_allows_transition (t_state parent) child_to of
               Inl e \<Rightarrow> Inl (Conflict (ParentConflict e))
             | Inr u \<Rightarrow> Inr ()))"

definition move_row :: "instant \<Rightarrow> thread_state \<Rightarrow> thread_row \<Rightarrow> thread_row" where
  "move_row now to_state t =
     (if is_terminal to_state then clear_claim now t else t)\<lparr>t_state := to_state, t_updated_at := now\<rparr>"

lemma move_row_simps [simp]:
  "t_id (move_row now s t) = t_id t" "t_state (move_row now s t) = s" "t_channel (move_row now s t) = t_channel t"
  "t_owner (move_row now s t) = t_owner t" "t_parent (move_row now s t) = t_parent t"
  "t_tombstoned_at (move_row now s t) = t_tombstoned_at t"
  by (simp_all add: move_row_def clear_claim_def)

text \<open>The instant a transition is recorded at: a send-back counts after the last accepted cap.\<close>

definition landed_at :: "instant \<Rightarrow> thread_row \<Rightarrow> thread_state \<Rightarrow> ('z) claim_db_scheme \<Rightarrow> instant" where
  "landed_at clk t to_state db =
     (if t_state t = InReview \<and> to_state = Open then after_floor clk (accepted_cap db (t_id t)) else clk)"

definition land_in_tx ::
  "instant \<Rightarrow> thread_row \<Rightarrow> member_id \<Rightarrow> thread_state \<Rightarrow> ('z) review_db_scheme
    \<Rightarrow> store_error + transition_result \<times> ('z) review_db_scheme" where
  "land_in_tx clk t actor to_state db =
     and_then (parent_check db t to_state) (\<lambda>_.
     let now = landed_at clk t to_state db;
         db1 = db\<lparr>transitions := transitions db @
                   [\<lparr>tr_thread = t_id t, tr_from = t_state t, tr_to = to_state, tr_actor = actor, tr_occurred_at = now\<rparr>]\<rparr>
     in and_then (if is_terminal to_state then charge_open_claim clk (t_id t) db1 else Inr db1) (\<lambda>db2.
        case update_thread (t_id t) (\<lambda>_. True) (move_row now to_state) db2 of
          None \<Rightarrow> Inl no_row
        | Some (t', db3) \<Rightarrow> Inr (\<lparr>xr_thread = t', xr_from = t_state t, xr_to = to_state\<rparr>, db3)))"

subsection \<open>Transitions\<close>

text \<open>What entering review writes before the state moves.\<close>

definition hand_over ::
  "outside \<Rightarrow> instant \<Rightarrow> thread_id \<Rightarrow> member_id \<Rightarrow> ('z) review_db_scheme \<Rightarrow> store_error + ('z) review_db_scheme" where
  "hand_over W clk tid actor db =
     and_then (result_gate db tid) (\<lambda>_.
     and_then (record_packet W clk tid actor db) (\<lambda>(_, db1).
     spawn_review W clk tid actor db1))"

definition close_gates :: "outside \<Rightarrow> ('z) review_db_scheme \<Rightarrow> thread_id \<Rightarrow> store_error + unit" where
  "close_gates W db tid = and_then (review_gate W db tid) (\<lambda>_. land_gate_in_tx db tid)"

definition transition_in_spawning ::
  "outside \<Rightarrow> instant \<Rightarrow> thread_id \<Rightarrow> member_id \<Rightarrow> thread_action \<Rightarrow> ('z) review_db_scheme
    \<Rightarrow> store_error + transition_result \<times> ('z) review_db_scheme" where
  "transition_in_spawning W clk tid actor action db =
     and_then (ok_or (find_thread db tid) NotFound) (\<lambda>t.
     and_then (ensure (live t) NotFound) (\<lambda>_.
     case apply_action (t_state t) action of
       Inl (InvalidTransition s a) \<Rightarrow> Inl (Conflict (BadTransition s a))
     | Inr to_state \<Rightarrow>
         and_then (separation_of_duties db t actor to_state) (\<lambda>_.
         and_then (if action = StartReview then hand_over W clk tid actor db else Inr db) (\<lambda>db1.
         and_then (if to_state = Closed then close_gates W db1 tid else Inr ()) (\<lambda>_.
         land_in_tx clk t actor to_state db1)))))"

definition state_changed ::
  "instant \<Rightarrow> member_id \<Rightarrow> transition_result \<Rightarrow> ('z) review_db_scheme \<Rightarrow> store_error + ('z) review_db_scheme" where
  "state_changed clk actor r db =
     (let tid = t_id (xr_thread r)
      in and_then (thread_scope db tid) (\<lambda>(ws, ch).
         Inr (append_event (ThreadStateChanged clk ws ch tid actor (xr_from r) (xr_to r) (xr_thread r)) db)))"

definition list_transitions :: "('z) queue_db_scheme \<Rightarrow> thread_id \<Rightarrow> int \<Rightarrow> transition_row list" where
  "list_transitions db tid n =
     sql_limit n (sort_key tr_occurred_at (filter (\<lambda>x. tr_thread x = tid) (transitions db)))"

subsection \<open>What each write leaves alone\<close>

text \<open>The tables the gates and the plan walk read, as one tuple: an operation that keeps it keeps every
  answer they give.\<close>

definition gate_tables where
  "gate_tables db =
     ((channels db, members db, workers db), (member_skills db, results db, deps db, blocks db),
      (land_gates db, review_reqs db, reviewers db, reviews db),
      (thread_artifacts db, grant_subjects db, references db, plan_children db))"

lemma gate_tables_update [simp]:
  "gate_tables (db\<lparr>threads := ts\<rparr>) = gate_tables db" "gate_tables (db\<lparr>attributes := as\<rparr>) = gate_tables db"
  "gate_tables (db\<lparr>packets := ps\<rparr>) = gate_tables db" "gate_tables (db\<lparr>transitions := xs\<rparr>) = gate_tables db"
  "gate_tables (db\<lparr>gates := gs\<rparr>) = gate_tables db" "gate_tables (db\<lparr>posts := qs\<rparr>) = gate_tables db"
  by (simp_all add: gate_tables_def)

lemma gate_tables_append_event [simp]: "gate_tables (append_event e db) = gate_tables db"
  by (simp add: gate_tables_def append_event_def)

lemma gate_tables_charge_wall [simp]: "gate_tables (charge_wall tid w db) = gate_tables db"
  by (simp add: gate_tables_def charge_wall_def upsert_budget_def split: option.splits)

lemma packets_charge_wall [simp]: "packets (charge_wall tid w db) = packets db"
  and transitions_charge_wall [simp]: "transitions (charge_wall tid w db) = transitions db"
  and attributes_charge_wall [simp]: "attributes (charge_wall tid w db) = attributes db"
  by (simp_all add: charge_wall_def upsert_budget_def split: option.splits)

lemma apply_default_engine_simps [simp]:
  "threads (apply_default_engine tid db) = threads db" "log (apply_default_engine tid db) = log db"
  "gate_tables (apply_default_engine tid db) = gate_tables db" "packets (apply_default_engine tid db) = packets db"
  "transitions (apply_default_engine tid db) = transitions db" "gates (apply_default_engine tid db) = gates db"
  by (simp_all add: apply_default_engine_def gate_tables_def split: sum.splits prod.splits option.splits)

lemma queue_append_event [simp]:
  "packets (append_event e db) = packets db" "transitions (append_event e db) = transitions db"
  "attributes (append_event e db) = attributes db"
  by (simp_all add: append_event_def)

lemma insert_review_childD:
  assumes "insert_review_child W clk tid actor author ws ch db = Inr db'"
  obtains cid where "threads db' = threads db @ [child_row clk cid ch tid actor]" "cid \<notin> t_id ` set (threads db)"
    "gate_tables db' = gate_tables db" "packets db' = packets db" "transitions db' = transitions db"
    "gates db' = gates db" "prefix (log db) (log db')"
proof -
  let ?cid = "new_id W (map t_id (threads db))"
  obtain e1 e2 as where "?cid \<notin> t_id ` set (threads db)"
    and db': "db' = append_event e2 (append_event e1 (apply_default_engine ?cid
                (db\<lparr>threads := threads db @ [child_row clk ?cid ch tid actor], attributes := as\<rparr>)))"
    using assms by (simp add: insert_review_child_def and_then_Inr Let_def) blast
  then show thesis by (intro that [of ?cid]) simp_all
qed

lemma spawn_reviewD:
  assumes "spawn_review W clk tid actor db = Inr db'"
  obtains new where "threads db' = threads db @ new" "gate_tables db' = gate_tables db" "packets db' = packets db"
    "transitions db' = transitions db" "gates db' = gates db" "prefix (log db) (log db')"
    "new = [] \<or> (\<exists>cid ch. new = [child_row clk cid ch tid actor] \<and> cid \<notin> t_id ` set (threads db))"
proof -
  have "db' = db \<or> (\<exists>author ws ch. insert_review_child W clk tid actor author ws ch db = Inr db')"
  proof (cases "find_thread db tid")
    case None
    with assms show ?thesis by (simp add: spawn_review_def split: if_split_asm)
  next
    case (Some t)
    note t = this
    show ?thesis
    proof (cases "thread_scope db tid")
      case (Inl e)
      with assms t show ?thesis by (simp add: spawn_review_def split: if_split_asm)
    next
      case (Inr p)
      obtain ws ch where "thread_scope db tid = Inr (ws, ch)" using Inr by (cases p) simp
      with assms t show ?thesis
        by (cases "author_family W db ws t") (auto simp: spawn_review_def split: if_split_asm)
    qed
  qed
  then consider "db' = db" | author ws ch where "insert_review_child W clk tid actor author ws ch db = Inr db'" by blast
  then show thesis
  proof cases
    case 1
    then show ?thesis using that [of "[]"] by simp
  next
    case 2
    then show ?thesis by (rule insert_review_childD) (use that in blast)
  qed
qed

lemma hand_overD:
  assumes "hand_over W clk tid actor db = Inr db'"
  obtains p new where "threads db' = threads db @ new" "gate_tables db' = gate_tables db" "packets db' = packets db @ [p]"
    "transitions db' = transitions db" "gates db' = gates db" "prefix (log db) (log db')"
    "new = [] \<or> (\<exists>cid ch. new = [child_row clk cid ch tid actor] \<and> cid \<notin> t_id ` set (threads db))"
    "record_packet W clk tid actor db = Inr (p, db\<lparr>packets := packets db @ [p]\<rparr>)" "result_gate db tid = Inr ()"
proof -
  obtain p db1 where p: "record_packet W clk tid actor db = Inr (p, db1)" and s: "spawn_review W clk tid actor db1 = Inr db'"
    and g: "result_gate db tid = Inr ()"
    using assms by (auto simp: hand_over_def and_then_Inr)
  have db1: "db1 = db\<lparr>packets := packets db @ [p]\<rparr>" using record_packet_SomeD(1) [OF p] .
  from s show thesis
  proof (rule spawn_reviewD)
    fix new assume "threads db' = threads db1 @ new" "gate_tables db' = gate_tables db1" "packets db' = packets db1"
      "transitions db' = transitions db1" "gates db' = gates db1" "prefix (log db1) (log db')"
      "new = [] \<or> (\<exists>cid ch. new = [child_row clk cid ch tid actor] \<and> cid \<notin> t_id ` set (threads db1))"
    then show thesis using that [of new p] p g by (simp add: db1)
  qed
qed

lemma land_in_txD:
  assumes "land_in_tx clk t actor to_state db = Inr (r, db')"
  obtains now where "threads db' = update_where (\<lambda>u. t_id u = t_id t) (move_row now to_state) (threads db)"
    "gate_tables db' = gate_tables db" "packets db' = packets db" "gates db' = gates db" "log db' = log db"
    "transitions db' = transitions db @
       [\<lparr>tr_thread = t_id t, tr_from = t_state t, tr_to = to_state, tr_actor = actor, tr_occurred_at = now\<rparr>]"
    "xr_from r = t_state t" "xr_to r = to_state" "t_id (xr_thread r) = t_id t"
    "find_thread db' (t_id t) = Some (xr_thread r)" "t_state (xr_thread r) = to_state"
    "\<exists>u. find_thread db (t_id t) = Some u \<and> xr_thread r = move_row now to_state u"
    "parent_check db t to_state = Inr ()" "attributes db' = attributes db"
    "now = landed_at clk t to_state db"
proof -
  let ?now = "landed_at clk t to_state db"
  let ?db1 = "db\<lparr>transitions := transitions db @
     [\<lparr>tr_thread = t_id t, tr_from = t_state t, tr_to = to_state, tr_actor = actor, tr_occurred_at = ?now\<rparr>]\<rparr>"
  obtain db2 where c: "(if is_terminal to_state then charge_open_claim clk (t_id t) ?db1 else Inr ?db1) = Inr db2"
    and k: "(case update_thread (t_id t) (\<lambda>_. True) (move_row ?now to_state) db2 of
          None \<Rightarrow> Inl no_row
        | Some (t', db3) \<Rightarrow> Inr (\<lparr>xr_thread = t', xr_from = t_state t, xr_to = to_state\<rparr>, db3)) = Inr (r, db')"
    and p: "parent_check db t to_state = Inr ()"
    using assms by (simp only: land_in_tx_def and_then_unit) (simp only: and_then_Inr Let_def, blast)
  obtain t' where u: "update_thread (t_id t) (\<lambda>_. True) (move_row ?now to_state) db2 = Some (t', db')"
    and r: "r = \<lparr>xr_thread = t', xr_from = t_state t, xr_to = to_state\<rparr>"
    using k by (cases "update_thread (t_id t) (\<lambda>_. True) (move_row ?now to_state) db2") auto
  obtain w where db2: "db2 = charge_wall (t_id t) w ?db1"
  proof (cases "is_terminal to_state")
    case True
    with c that show thesis by (auto simp: charge_open_claim_def split: option.split_asm)
  next
    case False
    with c that [of None] show thesis by (simp add: charge_wall_def)
  qed
  have find: "find (\<lambda>x. t_id x = i) (update_where (\<lambda>u. t_id u = i) (move_row n s) xs)
      = map_option (move_row n s) (find (\<lambda>x. t_id x = i) xs)" for i n s xs
    by (induction xs) (auto simp: update_where_def)
  from u show thesis
  proof (rule update_thread_SomeD)
    fix v assume v: "v \<in> set (threads db2)" "t_id v = t_id t" "t' = move_row ?now to_state v"
      and db': "db' = db2\<lparr>threads := update_where (\<lambda>x. t_id x = t_id t \<and> True) (move_row ?now to_state) (threads db2)\<rparr>"
    obtain x where x: "find_thread db (t_id t) = Some x" "t' = move_row ?now to_state x"
      using u by (auto simp: update_thread_def db2 find_thread_def split: option.split_asm)
    show thesis
    proof (rule that [of ?now])
      show "find_thread db' (t_id t) = Some (xr_thread r)"
        using x by (simp add: db' find_thread_def db2 find r)
      show "gate_tables db' = gate_tables db"
        by (simp add: db' db2)
    qed (use v(1,2) x p in \<open>simp_all add: db' db2 r find_thread_Some\<close>)
  qed
qed

subsection \<open>The shape of a transition\<close>

lemma transition_parts:
  assumes "transition_in_spawning W clk tid actor action db = Inr (r, db')"
  obtains t to_state db1 where "find_thread db tid = Some t" "live t" "apply_action (t_state t) action = Inr to_state"
    "separation_of_duties db t actor to_state = Inr ()"
    "(if action = StartReview then hand_over W clk tid actor db else Inr db) = Inr db1"
    "to_state = Closed \<Longrightarrow> close_gates W db1 tid = Inr ()"
    "land_in_tx clk t actor to_state db1 = Inr (r, db')"
proof -
  obtain t where t: "find_thread db tid = Some t" and l: "live t"
    and k: "(case apply_action (t_state t) action of
       Inl (InvalidTransition s a) \<Rightarrow> Inl (Conflict (BadTransition s a))
     | Inr to_state \<Rightarrow>
         and_then (separation_of_duties db t actor to_state) (\<lambda>_.
         and_then (if action = StartReview then hand_over W clk tid actor db else Inr db) (\<lambda>db1.
         and_then (if to_state = Closed then close_gates W db1 tid else Inr ()) (\<lambda>_.
         land_in_tx clk t actor to_state db1)))) = Inr (r, db')"
    using assms by (cases "find_thread db tid") (simp_all add: transition_in_spawning_def and_then_unit)
  obtain to_state where a: "apply_action (t_state t) action = Inr to_state"
    using k by (cases "apply_action (t_state t) action") (simp_all split: invalid_transition.split_asm)
  obtain db1 where "separation_of_duties db t actor to_state = Inr ()"
    "(if action = StartReview then hand_over W clk tid actor db else Inr db) = Inr db1"
    "(if to_state = Closed then close_gates W db1 tid else Inr ()) = Inr ()"
    "land_in_tx clk t actor to_state db1 = Inr (r, db')"
    using k [unfolded a sum.case and_then_unit and_then_Inr] by blast
  with t l a show thesis by (intro that [of t to_state db1]) simp_all
qed

text \<open>Everything a successful transition did, over the tables it started from.\<close>

lemma transitionD:
  assumes "transition_in_spawning W clk tid actor action db = Inr (r, db')"
  obtains t to_state new now where "find_thread db tid = Some t" "live t" "apply_action (t_state t) action = Inr to_state"
    "separation_of_duties db t actor to_state = Inr ()" "to_state = Closed \<Longrightarrow> close_gates W db tid = Inr ()"
    "threads db' = update_where (\<lambda>u. t_id u = tid) (move_row now to_state) (threads db @ new)"
    "new = [] \<or> action = StartReview \<and> (\<exists>cid ch. new = [child_row clk cid ch tid actor] \<and> cid \<notin> t_id ` set (threads db))"
    "gate_tables db' = gate_tables db" "gates db' = gates db" "prefix (log db) (log db')" "prefix (packets db) (packets db')"
    "transitions db' = transitions db @
       [\<lparr>tr_thread = tid, tr_from = t_state t, tr_to = to_state, tr_actor = actor, tr_occurred_at = now\<rparr>]"
    "xr_from r = t_state t" "xr_to r = to_state" "xr_thread r = move_row now to_state t"
    "find_thread db' tid = Some (xr_thread r)" "action \<noteq> StartReview \<Longrightarrow> packets db' = packets db"
    "action \<noteq> StartReview \<Longrightarrow> now = landed_at clk t to_state db"
proof -
  obtain t to_state db1 where t: "find_thread db tid = Some t" "live t" and a: "apply_action (t_state t) action = Inr to_state"
    and sod: "separation_of_duties db t actor to_state = Inr ()"
    and h: "(if action = StartReview then hand_over W clk tid actor db else Inr db) = Inr db1"
    and g: "to_state = Closed \<Longrightarrow> close_gates W db1 tid = Inr ()"
    and l: "land_in_tx clk t actor to_state db1 = Inr (r, db')"
    using transition_parts [OF assms] by blast
  have tid: "t_id t = tid" using find_thread_Some [OF t(1)] by simp
  obtain new where db1: "threads db1 = threads db @ new" "gate_tables db1 = gate_tables db" "prefix (packets db) (packets db1)"
    "transitions db1 = transitions db" "gates db1 = gates db" "prefix (log db) (log db1)"
    "new = [] \<or> action = StartReview \<and> (\<exists>cid ch. new = [child_row clk cid ch tid actor] \<and> cid \<notin> t_id ` set (threads db))"
    "action \<noteq> StartReview \<Longrightarrow> db1 = db"
  proof (cases "action = StartReview")
    case True
    then have "hand_over W clk tid actor db = Inr db1" using h by simp
    then show thesis by (rule hand_overD) (use that True in auto)
  next
    case False
    then have "db1 = db" using h by simp
    with False show thesis by (intro that [of "[]"]) simp_all
  qed
  have closed: "to_state = Closed \<Longrightarrow> db1 = db" using a db1(8) by (auto elim!: apply_action_InrE)
  have same: "find_thread db1 tid = Some t"
    using t(1) by (simp add: find_thread_def db1(1) find_append)
  show thesis
    using l
  proof (rule land_in_txD)
    fix now assume *: "threads db' = update_where (\<lambda>u. t_id u = t_id t) (move_row now to_state) (threads db1)"
      "gate_tables db' = gate_tables db1" "packets db' = packets db1" "gates db' = gates db1" "log db' = log db1"
      "transitions db' = transitions db1 @
         [\<lparr>tr_thread = t_id t, tr_from = t_state t, tr_to = to_state, tr_actor = actor, tr_occurred_at = now\<rparr>]"
      "xr_from r = t_state t" "xr_to r = to_state"
      "find_thread db' (t_id t) = Some (xr_thread r)"
      "\<exists>u. find_thread db1 (t_id t) = Some u \<and> xr_thread r = move_row now to_state u"
      "now = landed_at clk t to_state db1"
    show thesis
      by (rule that [of t to_state now new])
        (use t a sod g closed db1 same * tid in \<open>simp_all add: tid\<close>)
  qed
qed

end
