(* ===== verification/Reviews.thy ===== *)
theory Reviews
  imports Transitions
begin

text \<open>
  Reviews and review rounds: \<open>maidan-store/src/sqlite/reviews.rs\<close>, the heads of
  \<open>maidan-store/src/review_head.rs\<close>, and the review-round gates of \<open>sqlite/approval_gates.rs\<close>.
\<close>

subsection \<open>Requirements and reviewers\<close>

definition set_requirement ::
  "instant \<Rightarrow> thread_id \<Rightarrow> int \<Rightarrow> int option \<Rightarrow> ('z) review_db_scheme \<Rightarrow> store_error + review_req_row \<times> ('z) review_db_scheme" where
  "set_requirement clk tid required max_rounds db =
     and_then (ensure (\<not> (required < 0 \<or> (case max_rounds of Some n \<Rightarrow> n < 0 | None \<Rightarrow> False)))
       (InvalidInput ''required_count and max_rounds must be >= 0'')) (\<lambda>_.
     case get_requirement db tid of
       Some q \<Rightarrow>
         (let q' = q\<lparr>rq_required_count := required, rq_max_rounds := unwrap_or max_rounds (rq_max_rounds q), rq_updated_at := clk\<rparr>
          in Inr (q', db\<lparr>review_reqs := update_where (\<lambda>q. rq_thread q = tid) (\<lambda>_. q') (review_reqs db)\<rparr>))
     | None \<Rightarrow>
         (let q' = \<lparr>rq_thread = tid, rq_required_count = required, rq_max_rounds = unwrap_or max_rounds 3,
                    rq_created_at = clk, rq_updated_at = clk\<rparr>
          in Inr (q', db\<lparr>review_reqs := review_reqs db @ [q']\<rparr>)))"

definition clear_requirement :: "thread_id \<Rightarrow> ('z) review_db_scheme \<Rightarrow> bool \<times> ('z) review_db_scheme" where
  "clear_requirement tid db =
     (get_requirement db tid \<noteq> None, db\<lparr>review_reqs := filter (\<lambda>q. rq_thread q \<noteq> tid) (review_reqs db)\<rparr>)"

definition max_rounds_loosens :: "int \<Rightarrow> int \<Rightarrow> bool" where
  "max_rounds_loosens current next \<longleftrightarrow> next = 0 \<and> current \<noteq> 0 \<or> current > 0 \<and> next > current"

definition add_reviewer :: "instant \<Rightarrow> thread_id \<Rightarrow> member_id \<Rightarrow> ('z) review_db_scheme \<Rightarrow> bool \<times> ('z) review_db_scheme" where
  "add_reviewer clk tid m db =
     (if \<exists>w \<in> set (reviewers db). rw_thread w = tid \<and> rw_member w = m then (False, db)
      else (True, db\<lparr>reviewers := reviewers db @ [\<lparr>rw_thread = tid, rw_member = m, rw_created_at = clk\<rparr>]\<rparr>))"

definition remove_reviewer :: "thread_id \<Rightarrow> member_id \<Rightarrow> ('z) review_db_scheme \<Rightarrow> bool \<times> ('z) review_db_scheme" where
  "remove_reviewer tid m db =
     (\<exists>w \<in> set (reviewers db). rw_thread w = tid \<and> rw_member w = m,
      db\<lparr>reviewers := filter (\<lambda>w. \<not> (rw_thread w = tid \<and> rw_member w = m)) (reviewers db)\<rparr>)"

definition list_reviewers :: "('z) review_db_scheme \<Rightarrow> thread_id \<Rightarrow> member_id list" where
  "list_reviewers db tid =
     map rw_member (sort_key (\<lambda>w. (rw_created_at w, rw_member w)) (filter (\<lambda>w. rw_thread w = tid) (reviewers db)))"

definition list_reviews :: "('z) review_db_scheme \<Rightarrow> thread_id \<Rightarrow> review_row list" where
  "list_reviews db tid =
     sort_key (\<lambda>r. (rv_created_at r, rv_reviewer r)) (filter (\<lambda>r. rv_thread r = tid) (reviews db))"

definition list_review_history :: "('z) review_db_scheme \<Rightarrow> thread_id \<Rightarrow> review_verdict_row list" where
  "list_review_history db tid = filter (\<lambda>v. vd_thread v = tid) (review_verdicts db)"

subsection \<open>Heads\<close>

definition reviewed_change :: "('z) claim_db_scheme \<Rightarrow> thread_id \<Rightarrow> thread_id" where
  "reviewed_change db tid =
     (if \<exists>a \<in> set (attributes db). a_thread a = tid \<and> a_kind a = ''review''
      then (case find_thread db tid of Some t \<Rightarrow> unwrap_or (t_parent t) tid | None \<Rightarrow> tid)
      else tid)"

definition current_head :: "('z) review_db_scheme \<Rightarrow> thread_id \<Rightarrow> string option" where
  "current_head db tid =
     map_option ci_head_sha (latest_by ci_updated_at
       (filter (\<lambda>ci. \<exists>cp \<in> set (change_pulls db). cp_thread cp = reviewed_change db tid
           \<and> ci_workspace ci = cp_workspace cp \<and> ci_repo ci = cp_repo cp \<and> ci_pull ci = cp_pull cp) (pull_ci db)))"

definition on_change :: "('z) claim_db_scheme \<Rightarrow> thread_id \<Rightarrow> thread_id \<Rightarrow> bool" where
  "on_change db change tid \<longleftrightarrow>
     tid = change
   \<or> (\<exists>t \<in> set (threads db). t_id t = tid \<and> t_parent t = Some change
        \<and> (\<exists>a \<in> set (attributes db). a_thread a = t_id t \<and> a_kind a = ''review''))"

definition left_behind :: "('z) review_db_scheme \<Rightarrow> thread_id \<Rightarrow> string \<Rightarrow> review_row \<Rightarrow> bool" where
  "left_behind db change head r \<longleftrightarrow>
     rv_decision r = Approve \<and> rv_dismissed_at r = None
   \<and> (case rv_head_sha r of None \<Rightarrow> False | Some h \<Rightarrow> h \<noteq> head) \<and> on_change db change (rv_thread r)"

definition dismiss_stale ::
  "instant \<Rightarrow> thread_id \<Rightarrow> string \<Rightarrow> ('z) review_db_scheme \<Rightarrow> (thread_id \<times> member_id \<times> string option) list \<times> ('z) review_db_scheme" where
  "dismiss_stale clk change head db =
     (map (\<lambda>r. (rv_thread r, rv_reviewer r, rv_head_sha r)) (filter (left_behind db change head) (reviews db)),
      db\<lparr>reviews := update_where (left_behind db change head) (\<lambda>r. r\<lparr>rv_dismissed_at := Some clk\<rparr>) (reviews db)\<rparr>)"

subsection \<open>The round cap\<close>

definition open_review_round_cap ::
  "outside \<Rightarrow> attribution option \<Rightarrow> thread_id \<Rightarrow> member_id \<Rightarrow> ('z) review_db_scheme \<Rightarrow> gate_row \<times> ('z) review_db_scheme" where
  "open_review_round_cap W scope tid by db =
     (let g = \<lparr>g_id = new_id W (map g_id (gates db)), g_thread = Some tid, g_kind = ReviewRoundCap, g_state = Pending,
               g_requested_by = by, g_requested_actor = delegate_acting_for scope by, g_resolved_at = None\<rparr>
      in (g, db\<lparr>gates := gates db @ [g]\<rparr>))"

definition escalate_round_cap ::
  "outside \<Rightarrow> attribution option \<Rightarrow> instant \<Rightarrow> workspace_id \<Rightarrow> channel_id \<Rightarrow> thread_id \<Rightarrow> member_id
    \<Rightarrow> ('z) review_db_scheme \<Rightarrow> ('z) review_db_scheme" where
  "escalate_round_cap W scope clk ws ch tid reviewer db =
     (let (max_rounds, send_backs, pending) = round_standing db tid
      in if max_rounds = 0 \<or> pending \<or> send_backs < max_rounds then db
         else let db1 = db\<lparr>threads := update_where (\<lambda>t. t_id t = tid) (clear_claim clk) (threads db)\<rparr>;
                  (g, db2) = open_review_round_cap W scope tid reviewer db1
              in append_event (ApprovalRequested clk ws ch tid (g_id g) reviewer) db2)"

text \<open>\<open>resolve_on\<close>: answering a pending gate; a declined or cancelled round cap parks its thread.\<close>

definition resolve_gate ::
  "instant \<Rightarrow> nat \<Rightarrow> member_id \<Rightarrow> gate_state \<Rightarrow> ('z) review_db_scheme \<Rightarrow> gate_row option \<times> ('z) review_db_scheme" where
  "resolve_gate clk gid by state db =
     (case find (\<lambda>g. g_id g = gid \<and> g_state g = Pending) (gates db) of
        None \<Rightarrow> (None, db)
      | Some g \<Rightarrow>
          (let close = (\<lambda>g. g\<lparr>g_state := state, g_resolved_at := Some clk\<rparr>);
               db1 = db\<lparr>gates := update_where (\<lambda>g. g_id g = gid \<and> g_state g = Pending) close (gates db)\<rparr>
           in (Some (close g),
               if g_kind g = ReviewRoundCap \<and> state \<in> {Declined, Cancelled}
               then (case g_thread g of
                       None \<Rightarrow> db1
                     | Some tid \<Rightarrow> db1\<lparr>unclaimable :=
                         filter (\<lambda>u. u_thread u \<noteq> tid) (unclaimable db1)
                           @ [\<lparr>u_thread = tid, u_reason = REVIEW_ROUND_HELD_REASON\<rparr>]\<rparr>)
               else db1)))"

subsection \<open>Submitting a review\<close>

definition sends_back :: "('z) review_db_scheme \<Rightarrow> thread_id \<Rightarrow> member_id \<Rightarrow> member_id option \<Rightarrow> bool" where
  "sends_back db tid reviewer actor \<longleftrightarrow>
     (\<exists>t \<in> set (threads db). t_id t = tid \<and> t_state t = InReview \<and> live t
        \<and> (t_owner t = Some reviewer
           \<or> t_assignee t \<noteq> Some reviewer \<and> \<not> has_worked db tid reviewer \<and> in_named_set db tid reviewer)
        \<and> (case actor of None \<Rightarrow> True | Some a \<Rightarrow> t_assignee t \<noteq> Some a \<and> \<not> has_worked db tid a))"

definition verdict_head :: "('z) review_db_scheme \<Rightarrow> thread_id \<Rightarrow> string option \<Rightarrow> store_error + string option" where
  "verdict_head db tid named =
     (let tracked = current_head db tid
      in case named of
           None \<Rightarrow> Inr tracked
         | Some n \<Rightarrow>
             (case tracked of
                None \<Rightarrow> Inl (Conflict UnverifiedHead)
              | Some h \<Rightarrow>
                  if to_ascii_lowercase h \<noteq> to_ascii_lowercase n then Inl (Conflict StaleHead)
                  else Inr (Some (to_ascii_lowercase n))))"

definition upsert_review :: "review_row \<Rightarrow> review_row list \<Rightarrow> review_row list" where
  "upsert_review r rows =
     (if \<exists>x \<in> set rows. rv_thread x = rv_thread r \<and> rv_reviewer x = rv_reviewer r
      then update_where (\<lambda>x. rv_thread x = rv_thread r \<and> rv_reviewer x = rv_reviewer r)
             (\<lambda>_. r) rows
      else rows @ [r])"

definition dismiss_approvals :: "instant \<Rightarrow> thread_id \<Rightarrow> ('z) review_db_scheme \<Rightarrow> ('z) review_db_scheme" where
  "dismiss_approvals clk tid db =
     db\<lparr>reviews := update_where (\<lambda>r. rv_thread r = tid \<and> rv_decision r = Approve \<and> rv_dismissed_at r = None)
                    (\<lambda>r. r\<lparr>rv_dismissed_at := Some clk\<rparr>) (reviews db)\<rparr>"

text \<open>The verdict and its history row.\<close>

definition record_verdict ::
  "instant \<Rightarrow> review_row \<Rightarrow> ('z) review_db_scheme \<Rightarrow> ('z) review_db_scheme" where
  "record_verdict clk r db =
     db\<lparr>reviews := upsert_review r (reviews db),
        review_verdicts := review_verdicts db @
          [\<lparr>vd_thread = rv_thread r, vd_reviewer = rv_reviewer r, vd_decision = rv_decision r, vd_note = rv_note r,
            vd_actor = rv_actor r, vd_recorded_at = clk, vd_evidence_root = rv_evidence_root r,
            vd_head_sha = rv_head_sha r\<rparr>]\<rparr>"

definition send_back ::
  "outside \<Rightarrow> instant \<Rightarrow> thread_id \<Rightarrow> member_id \<Rightarrow> ('z) review_db_scheme
    \<Rightarrow> store_error + transition_result \<times> ('z) review_db_scheme" where
  "send_back W clk tid reviewer db =
     and_then (transition_in_spawning W clk tid reviewer RequestChanges db) (\<lambda>(r, db1).
     Inr (r, dismiss_approvals clk tid db1))"

definition new_review ::
  "attribution option \<Rightarrow> instant \<Rightarrow> thread_id \<Rightarrow> member_id \<Rightarrow> review_decision \<Rightarrow> string option \<Rightarrow> string option
    \<Rightarrow> string option \<Rightarrow> ('z) review_db_scheme \<Rightarrow> review_row" where
  "new_review scope clk tid reviewer decision nt evidence_root head db =
     \<lparr>rv_thread = tid, rv_reviewer = reviewer, rv_decision = decision, rv_note = nt,
      rv_actor = delegate_acting_for scope reviewer, rv_evidence_root = evidence_root, rv_head_sha = head,
      rv_created_at = (case find (\<lambda>x. rv_thread x = tid \<and> rv_reviewer x = reviewer) (reviews db) of
                         Some x \<Rightarrow> rv_created_at x | None \<Rightarrow> clk),
      rv_updated_at = clk, rv_dismissed_at = None\<rparr>"

definition review_event ::
  "instant \<Rightarrow> review_row \<Rightarrow> bool \<Rightarrow> ('z) review_db_scheme \<Rightarrow> store_error + (workspace_id \<times> channel_id) \<times> ('z) review_db_scheme" where
  "review_event clk r sent db =
     and_then (thread_scope db (rv_thread r)) (\<lambda>(ws, ch).
     Inr ((ws, ch), append_event (ReviewSubmitted clk ws ch (rv_thread r) (rv_reviewer r) (rv_actor r) (rv_decision r)
                       sent (last_worker db (rv_thread r))) db))"

text \<open>What follows a recorded verdict: a change request that counts sends the thread back, and past the
  cap opens a round gate.\<close>

definition settle_verdict ::
  "outside \<Rightarrow> attribution option \<Rightarrow> instant \<Rightarrow> review_row \<Rightarrow> ('z) review_db_scheme \<Rightarrow> store_error + ('z) review_db_scheme" where
  "settle_verdict W scope clk r db =
     (if rv_decision r = RequestChangesReview \<and> sends_back db (rv_thread r) (rv_reviewer r) (rv_actor r)
      then and_then (send_back W clk (rv_thread r) (rv_reviewer r) db) (\<lambda>(x, db1).
           and_then (review_event clk r True db1) (\<lambda>((ws, ch), db2).
           and_then (state_changed clk (rv_reviewer r) x db2) (\<lambda>db3.
           Inr (escalate_round_cap W scope clk ws ch (rv_thread r) (rv_reviewer r) db3))))
      else and_then (review_event clk r False db) (\<lambda>(_, db1). Inr db1))"

definition submit_review ::
  "outside \<Rightarrow> attribution option \<Rightarrow> instant \<Rightarrow> thread_id \<Rightarrow> member_id \<Rightarrow> review_decision \<Rightarrow> string option
    \<Rightarrow> string option \<Rightarrow> string option \<Rightarrow> ('z) review_db_scheme \<Rightarrow> store_error + review_row \<times> ('z) review_db_scheme" where
  "submit_review W scope clk tid reviewer decision nt evidence_root named_head db =
     and_then (case evidence_root of Some r \<Rightarrow> verify_root W db tid r | None \<Rightarrow> Inr ()) (\<lambda>_.
     and_then (verdict_head db tid named_head) (\<lambda>head.
     let r = new_review scope clk tid reviewer decision nt evidence_root head db
     in and_then (settle_verdict W scope clk r (record_verdict clk r db)) (\<lambda>db'.
        Inr (r, db'))))"

subsection \<open>The waiter's verdict\<close>

definition REVIEW_SKILL :: string where
  "REVIEW_SKILL = ''review''"

definition CRITICAL_REVIEW_NOTE :: string where
  "CRITICAL_REVIEW_NOTE = ''critical finding in example.review.result/1''"

definition verdict_covers_result :: "('z) review_db_scheme \<Rightarrow> thread_id \<Rightarrow> member_id \<Rightarrow> review_decision \<Rightarrow> bool" where
  "verdict_covers_result db tid reviewer decision \<longleftrightarrow>
     (\<exists>r \<in> set (reviews db). \<exists>x \<in> set (results db).
        r_thread x = rv_thread r \<and> rv_thread r = tid \<and> rv_reviewer r = reviewer \<and> rv_decision r = decision
      \<and> rv_dismissed_at r = None \<and> rv_updated_at r \<ge> r_produced_at x)"

text \<open>\<open>apply_critical_review_decision\<close>, from the decision the result was read as.\<close>

definition apply_critical_review ::
  "outside \<Rightarrow> attribution option \<Rightarrow> instant \<Rightarrow> thread_id \<Rightarrow> member_id \<Rightarrow> review_decision option
    \<Rightarrow> ('z) review_db_scheme \<Rightarrow> store_error + review_row option \<times> ('z) review_db_scheme" where
  "apply_critical_review W scope clk tid reviewer decision db =
     (case decision of
        None \<Rightarrow> Inr (None, db)
      | Some d \<Rightarrow>
          if \<not> has_skill db reviewer REVIEW_SKILL \<or> verdict_covers_result db tid reviewer d then Inr (None, db)
          else and_then (submit_review W scope clk tid reviewer d (Some CRITICAL_REVIEW_NOTE) None None db) (\<lambda>(r, db1).
               case get_requirement db1 tid of
                 Some _ \<Rightarrow> Inr (Some r, db1)
               | None \<Rightarrow> and_then (set_requirement clk tid 1 None db1) (\<lambda>(_, db2). Inr (Some r, db2))))"

end
