(* ===== verification/Plan_Closes.thy ===== *)
theory Plan_Closes
  imports Reviews
begin

text \<open>
  What a close sets off in the plans around the closed thread: \<open>after_close_in_tx\<close> of
  \<open>maidan-store/src/sqlite/plans.rs\<close> and what it calls.

  The walk up through nested plans is a total function: each turn that goes on has closed one more plan.
\<close>

subsection \<open>Notices\<close>

definition post_notice ::
  "instant \<Rightarrow> thread_id \<Rightarrow> member_id \<Rightarrow> notice \<Rightarrow> ('z) review_db_scheme \<Rightarrow> store_error + ('z) review_db_scheme" where
  "post_notice clk tid author msg db =
     (let db1 = db\<lparr>posts := posts db @ [\<lparr>p_thread = tid, p_author = author, p_posted_at = clk\<rparr>]\<rparr>
      in and_then (thread_scope db1 tid) (\<lambda>(ws, ch).
         Inr (append_event (MessagePosted clk ws ch tid author msg) db1)))"

subsection \<open>The plan above a closed thread\<close>

definition plan_parent :: "('z) review_db_scheme \<Rightarrow> thread_id \<Rightarrow> thread_id option" where
  "plan_parent db child = map_option pc_parent (find (\<lambda>c. pc_child c = child) (plan_children db))"

text \<open>The pull request of a thread's latest \<open>ThreadLanded\<close>.\<close>

fun landed_with :: "thread_id \<Rightarrow> event \<Rightarrow> (string \<times> int) option" where
  "landed_with tid (ThreadLanded _ _ _ t repo pr) = (if t = tid then Some (repo, pr) else None)"
| "landed_with tid _ = None"

definition landing :: "('z) claim_db_scheme \<Rightarrow> thread_id \<Rightarrow> (string \<times> int) option" where
  "landing db tid = (case List.map_filter (landed_with tid) (rev (log db)) of [] \<Rightarrow> None | l # _ \<Rightarrow> Some l)"

definition plan_child_rows :: "('z) review_db_scheme \<Rightarrow> thread_id \<Rightarrow> thread_row list" where
  "plan_child_rows db parent =
     List.map_filter (\<lambda>c. find_thread db (pc_child c))
       (sort_key pc_position (filter (\<lambda>c. pc_parent c = parent) (plan_children db)))"

text \<open>Whether the loop over the children gets to its end: none is open or in review, and each landed.
  A child without a title ends it in a decoding error.\<close>

fun children_landed :: "('z) claim_db_scheme \<Rightarrow> thread_row list \<Rightarrow> store_error + bool" where
  "children_landed db [] = Inr True"
| "children_landed db (t # ts) =
     (if \<not> is_terminal (t_state t) then Inr False
      else if landing db (t_id t) = None then Inr False
      else if t_title t = None then Inl (Database ''unexpected null; try decoding as an Option'')
      else children_landed db ts)"

definition close_through_gates ::
  "outside \<Rightarrow> instant \<Rightarrow> thread_id \<Rightarrow> member_id \<Rightarrow> bool \<Rightarrow> ('z) review_db_scheme \<Rightarrow> store_error + ('z) review_db_scheme" where
  "close_through_gates W clk parent actor from_open db =
     and_then
       (if from_open
        then and_then (transition_in_spawning W clk parent actor StartReview db) (\<lambda>(r, db1). state_changed clk actor r db1)
        else Inr db) (\<lambda>db2.
     and_then (transition_in_spawning W clk parent actor Close db2) (\<lambda>(r, db3).
     state_changed clk actor r db3))"

text \<open>The savepoint: a close that a gate refuses is rolled back and leaves one message.\<close>

definition try_close_parent ::
  "outside \<Rightarrow> instant \<Rightarrow> thread_row \<Rightarrow> member_id \<Rightarrow> string \<times> int \<Rightarrow> ('z) review_db_scheme
    \<Rightarrow> store_error + bool \<times> ('z) review_db_scheme" where
  "try_close_parent W clk p actor pull db =
     (let parent = t_id p
      in case close_through_gates W clk parent actor (t_state p = Open) db of
           Inr db1 \<Rightarrow>
             and_then (thread_scope db1 parent) (\<lambda>(ws, ch).
             and_then (post_notice clk parent actor PlanLanded
                         (append_event (ThreadLanded clk ws ch parent (fst pull) (snd pull)) db1)) (\<lambda>db2.
             Inr (True, db2)))
         | Inl (Conflict reason) \<Rightarrow>
             and_then (post_notice clk parent actor (PlanCloseRefused reason) db) (\<lambda>db1. Inr (False, db1))
         | Inl e \<Rightarrow> Inl e)"

definition close_parent ::
  "outside \<Rightarrow> instant \<Rightarrow> thread_id \<Rightarrow> thread_id \<Rightarrow> member_id \<Rightarrow> ('z) review_db_scheme
    \<Rightarrow> store_error + bool \<times> ('z) review_db_scheme" where
  "close_parent W clk parent completing actor db =
     and_then (ok_or (find_thread db parent) no_row) (\<lambda>p.
     if is_terminal (t_state p) then Inr (False, db)
     else and_then (children_landed db (plan_child_rows db parent)) (\<lambda>all_landed.
     case landing db completing of
       Some pull \<Rightarrow> if all_landed then try_close_parent W clk p actor pull db else Inr (False, db)
     | None \<Rightarrow> Inr (False, db)))"

definition live_dependents :: "('z) queue_db_scheme \<Rightarrow> thread_id \<Rightarrow> thread_id list" where
  "live_dependents db tid =
     sort (map t_id (filter (\<lambda>t. \<not> is_terminal (t_state t) \<and> live t
       \<and> (\<exists>d \<in> set (deps db). dep_thread d = t_id t \<and> dep_on d = tid)) (threads db)))"

fun block_dependents ::
  "instant \<Rightarrow> thread_id \<Rightarrow> member_id \<Rightarrow> thread_id list \<Rightarrow> ('z) review_db_scheme \<Rightarrow> store_error + ('z) review_db_scheme" where
  "block_dependents clk child actor [] db = Inr db"
| "block_dependents clk child actor (d # ds) db =
     (if d \<in> set (blocks db) then block_dependents clk child actor ds db
      else let db1 = db\<lparr>blocks := blocks db @ [d]\<rparr>
           in and_then (thread_scope db1 d) (\<lambda>(ws, ch).
              and_then (post_notice clk d actor (DependencyUnlanded child)
                          (append_event (ThreadBlocked clk ws ch d actor child) db1)) (\<lambda>db2.
              block_dependents clk child actor ds db2)))"

definition unlanded_child ::
  "instant \<Rightarrow> thread_id \<Rightarrow> thread_id \<Rightarrow> member_id \<Rightarrow> ('z) review_db_scheme \<Rightarrow> store_error + ('z) review_db_scheme" where
  "unlanded_child clk parent child actor db =
     and_then (ok_or (find_thread db child) no_row) (\<lambda>t.
     and_then (ensure (t_title t \<noteq> None) (Database ''unexpected null; try decoding as an Option'')) (\<lambda>_.
     and_then (block_dependents clk child actor (live_dependents db child) db) (\<lambda>db1.
     post_notice clk parent actor (PlanChildUnlanded child) db1)))"

subsection \<open>Each turn closes a plan\<close>

text \<open>The plans that are not done.  A transition never makes one of them out of a plan that is.\<close>

definition unfinished :: "('z) review_db_scheme \<Rightarrow> thread_id set" where
  "unfinished db = {p \<in> pc_parent ` set (plan_children db).
     \<not> (\<exists>t. find_thread db p = Some t \<and> is_terminal (t_state t))}"

lemma finite_unfinished [simp]: "finite (unfinished db)"
  by (simp add: unfinished_def)

text \<open>What every write around a transition leaves: the plan table, and a done thread done.\<close>

definition settles :: "('z) review_db_scheme \<Rightarrow> ('z) review_db_scheme \<Rightarrow> bool" where
  "settles db db' \<longleftrightarrow>
     plan_children db' = plan_children db
   \<and> (\<forall>p t. find_thread db p = Some t \<and> is_terminal (t_state t) \<longrightarrow>
        (\<exists>t'. find_thread db' p = Some t' \<and> is_terminal (t_state t')))"

lemma settles_refl [simp]: "settles db db"
  by (simp add: settles_def)

lemma settles_trans: "settles a b \<Longrightarrow> settles b c \<Longrightarrow> settles a c"
  unfolding settles_def by metis

lemma settles_same: "threads db' = threads db \<Longrightarrow> plan_children db' = plan_children db \<Longrightarrow> settles db db'"
  by (simp add: settles_def find_thread_def)

lemma settles_unfinished: "settles db db' \<Longrightarrow> unfinished db' \<subseteq> unfinished db"
  by (auto simp: settles_def unfinished_def)

lemma find_moved:
  "find (\<lambda>x. t_id x = p) (update_where (\<lambda>u. t_id u = tid) (move_row now s) xs)
     = (if p = tid then map_option (move_row now s) (find (\<lambda>x. t_id x = p) xs) else find (\<lambda>x. t_id x = p) xs)"
  by (induction xs) (auto simp: update_where_def)

lemma transition_settles:
  assumes "transition_in_spawning W clk tid actor action db = Inr (r, db')"
  shows "settles db db'"
  using assms
proof (rule transitionD)
  fix t to_state new now
  assume t: "find_thread db tid = Some t" and a: "apply_action (t_state t) action = Inr to_state"
    and ts: "threads db' = update_where (\<lambda>u. t_id u = tid) (move_row now to_state) (threads db @ new)"
    and g: "gate_tables db' = gate_tables db"
  have "plan_children db' = plan_children db" using g by (simp add: gate_tables_def)
  moreover have "\<exists>t'. find_thread db' p = Some t' \<and> is_terminal (t_state t')"
    if p: "find_thread db p = Some u" "is_terminal (t_state u)" for p u
  proof (cases "p = tid")
    case True
    with p t a have "is_terminal to_state" by (auto elim!: apply_action_InrE)
    then show ?thesis using p True by (simp add: find_thread_def ts find_moved find_append)
  next
    case False
    with p show ?thesis by (simp add: find_thread_def ts find_moved find_append)
  qed
  ultimately show ?thesis by (auto simp: settles_def)
qed

lemma plan_children_append_event [simp]: "plan_children (append_event e db) = plan_children db"
  by (simp add: append_event_def)

lemma state_changed_settles: "state_changed clk actor r db = Inr db' \<Longrightarrow> settles db db'"
  by (auto simp: state_changed_def and_then_Inr Let_def intro!: settles_same)

lemma post_notice_settles: "post_notice clk tid author msg db = Inr db' \<Longrightarrow> settles db db'"
  by (auto simp: post_notice_def and_then_Inr Let_def intro!: settles_same)

lemma close_through_gates_settles:
  assumes "close_through_gates W clk parent actor from_open db = Inr db'"
  shows "settles db db' \<and> (\<exists>t. find_thread db' parent = Some t \<and> is_terminal (t_state t))"
proof -
  obtain db2 r db3 where o: "(if from_open
        then and_then (transition_in_spawning W clk parent actor StartReview db) (\<lambda>(r, db1). state_changed clk actor r db1)
        else Inr db) = Inr db2"
    and c: "transition_in_spawning W clk parent actor Close db2 = Inr (r, db3)" and s: "state_changed clk actor r db3 = Inr db'"
    using assms by (auto simp: close_through_gates_def and_then_Inr simp del: if_split)
  have "settles db db2"
    using o by (auto simp: and_then_Inr split: if_split_asm
      dest!: transition_settles state_changed_settles intro: settles_trans)
  moreover have "settles db2 db3" by (rule transition_settles [OF c])
  moreover have "settles db3 db'" by (rule state_changed_settles [OF s])
  moreover have "\<exists>t. find_thread db3 parent = Some t \<and> is_terminal (t_state t)"
    using c by (rule transitionD) (auto elim!: apply_action_InrE)
  ultimately show ?thesis by (metis settles_def settles_trans)
qed

lemma try_close_parent_settles:
  assumes "try_close_parent W clk p actor pull db = Inr (True, db')"
  shows "settles db db' \<and> (\<exists>t. find_thread db' (t_id p) = Some t \<and> is_terminal (t_state t))"
proof -
  obtain db1 e where c: "close_through_gates W clk (t_id p) actor (t_state p = Open) db = Inr db1"
    and n: "post_notice clk (t_id p) actor PlanLanded (append_event e db1) = Inr db'"
    using assms
    by (cases "close_through_gates W clk (t_id p) actor (t_state p = Open) db")
      (auto simp: try_close_parent_def Let_def and_then_Inr split: store_error.split_asm)
  have "settles db1 (append_event e db1)" by (rule settles_same) simp_all
  then have s: "settles db1 db'" using post_notice_settles [OF n] by (rule settles_trans)
  show ?thesis
    using close_through_gates_settles [OF c] s settles_trans [OF _ s, of db] unfolding settles_def [of db1] by blast
qed

lemma close_parent_settles:
  assumes "close_parent W clk parent completing actor db = Inr (True, db')"
  shows "settles db db'" "\<exists>t. find_thread db parent = Some t \<and> \<not> is_terminal (t_state t)"
    "\<exists>t. find_thread db' parent = Some t \<and> is_terminal (t_state t)"
proof -
  obtain p pull where p: "find_thread db parent = Some p" "\<not> is_terminal (t_state p)"
    and k: "try_close_parent W clk p actor pull db = Inr (True, db')"
    using assms
    by (cases "find_thread db parent"; cases "landing db completing")
      (auto simp: close_parent_def and_then_Inr split: if_split_asm)
  have "t_id p = parent" using find_thread_Some [OF p(1)] by simp
  with try_close_parent_settles [OF k] p show "settles db db'"
    "\<exists>t. find_thread db parent = Some t \<and> \<not> is_terminal (t_state t)"
    "\<exists>t. find_thread db' parent = Some t \<and> is_terminal (t_state t)"
    by auto
qed

lemma close_parent_decreases:
  assumes "plan_parent db child = Some parent" "close_parent W clk parent completing actor db = Inr (True, db')"
  shows "card (unfinished db') < card (unfinished db)"
proof (rule psubset_card_mono)
  have "parent \<in> pc_parent ` set (plan_children db)"
    using assms(1) by (auto simp: plan_parent_def dest: find_key_mem)
  then have "parent \<in> unfinished db" using close_parent_settles(2) [OF assms(2)] by (auto simp: unfinished_def)
  moreover have "parent \<notin> unfinished db'" using close_parent_settles(3) [OF assms(2)] by (auto simp: unfinished_def)
  ultimately show "unfinished db' \<subset> unfinished db"
    using settles_unfinished [OF close_parent_settles(1) [OF assms(2)]] by blast
qed simp

subsection \<open>After a close\<close>

function after_close ::
  "outside \<Rightarrow> instant \<Rightarrow> thread_id \<Rightarrow> member_id \<Rightarrow> ('z) review_db_scheme \<Rightarrow> store_error + ('z) review_db_scheme" where
  "after_close W clk child actor db =
     (case plan_parent db child of
        None \<Rightarrow> Inr db
      | Some parent \<Rightarrow>
          if landing db child \<noteq> None
          then and_then (close_parent W clk parent child actor db) (\<lambda>(parent_closed, db1).
               if parent_closed then after_close W clk parent actor db1 else Inr db1)
          else unlanded_child clk parent child actor db)"
  by pat_completeness auto
termination
  by (relation "measure (\<lambda>(W, clk, child, actor, db). card (unfinished db))")
    (auto intro: close_parent_decreases)

end
