(* ===== verification/Thread_Deps.thy ===== *)
theory Thread_Deps
  imports Claim_Next "HOL-Library.While_Combinator"
begin

text \<open>
  Task dependencies: \<open>maidan-store/src/sqlite/thread_deps.rs\<close>.  The recursive query behind the cycle
  guard is the library's worklist search, which stops at the thread it looks for; over the finite edge
  table it always returns.  The lemmas show that it decides reachability and that the edges stay
  acyclic.
\<close>

definition dep_edges :: "('z) queue_db_scheme \<Rightarrow> (thread_id \<times> thread_id) set" where
  "dep_edges db = (\<lambda>d. (dep_thread d, dep_on d)) ` set (deps db)"

definition depends_on_of :: "('z) queue_db_scheme \<Rightarrow> thread_id \<Rightarrow> thread_id list" where
  "depends_on_of db tid = map dep_on (filter (\<lambda>d. dep_thread d = tid) (deps db))"

text \<open>Whether \<open>target\<close> is \<open>start\<close> or among what it depends on, at any distance.\<close>

definition reaches :: "('z) queue_db_scheme \<Rightarrow> thread_id \<Rightarrow> thread_id \<Rightarrow> bool" where
  "reaches db start target =
     (case rtrancl_while (\<lambda>x. x \<noteq> target) (depends_on_of db) start of
        Some (ws, _) \<Rightarrow> ws \<noteq> []
      | None \<Rightarrow> False)"

text \<open>The recursive query: it starts from the direct dependencies.\<close>

definition depends_transitively :: "('z) queue_db_scheme \<Rightarrow> thread_id \<Rightarrow> thread_id \<Rightarrow> bool" where
  "depends_transitively db start target \<longleftrightarrow> (\<exists>d \<in> set (depends_on_of db start). reaches db d target)"

definition insert_dependency :: "thread_id \<Rightarrow> thread_id \<Rightarrow> ('z) queue_db_scheme \<Rightarrow> ('z) queue_db_scheme" where
  "insert_dependency tid on db =
     (if \<exists>d \<in> set (deps db). dep_thread d = tid \<and> dep_on d = on then db
      else db\<lparr>deps := deps db @ [\<lparr>dep_thread = tid, dep_on = on\<rparr>]\<rparr>)"

definition delete_dependency :: "thread_id \<Rightarrow> thread_id \<Rightarrow> ('z) queue_db_scheme \<Rightarrow> ('z) queue_db_scheme" where
  "delete_dependency tid on db = db\<lparr>deps := filter (\<lambda>d. \<not> (dep_thread d = tid \<and> dep_on d = on)) (deps db)\<rparr>"

definition add_dependency :: "thread_id \<Rightarrow> thread_id \<Rightarrow> ('z) queue_db_scheme \<Rightarrow> store_error + ('z) queue_db_scheme" where
  "add_dependency tid on db =
     and_then (ensure (tid \<noteq> on) (InvalidInput ''a thread cannot depend on itself'')) (\<lambda>_.
     and_then (ensure (\<not> depends_transitively db on tid)
                 (InvalidInput ''adding this dependency would create a cycle'')) (\<lambda>_.
     and_then (ensure (find_thread db tid \<noteq> None \<and> find_thread db on \<noteq> None)
                 (Database ''FOREIGN KEY constraint failed'')) (\<lambda>_.
     Inr (insert_dependency tid on db))))"

definition remove_dependency :: "thread_id \<Rightarrow> thread_id \<Rightarrow> ('z) queue_db_scheme \<Rightarrow> bool \<times> ('z) queue_db_scheme" where
  "remove_dependency tid on db =
     (\<exists>d \<in> set (deps db). dep_thread d = tid \<and> dep_on d = on, delete_dependency tid on db)"

text \<open>The edges from and to a thread, in insertion order (\<open>created_at\<close>).\<close>

definition list_dependencies :: "('z) queue_db_scheme \<Rightarrow> thread_id \<Rightarrow> dependency_row list" where
  "list_dependencies db tid = filter (\<lambda>d. dep_thread d = tid) (deps db)"

definition list_dependents :: "('z) queue_db_scheme \<Rightarrow> thread_id \<Rightarrow> dependency_row list" where
  "list_dependents db tid = filter (\<lambda>d. dep_on d = tid) (deps db)"

definition unmet :: "('z) queue_db_scheme \<Rightarrow> thread_row \<Rightarrow> bool" where
  "unmet db t \<longleftrightarrow> \<not> is_terminal (t_state t) \<or> t_id t \<in> set (unlanded db)"

definition dependencies_satisfied :: "('z) queue_db_scheme \<Rightarrow> thread_id \<Rightarrow> bool" where
  "dependencies_satisfied db tid \<longleftrightarrow>
     \<not> (\<exists>d \<in> set (deps db). dep_thread d = tid \<and> (\<exists>t \<in> set (threads db). t_id t = dep_on d \<and> unmet db t))"

definition newly_ready_dependents :: "('z) queue_db_scheme \<Rightarrow> thread_id \<Rightarrow> thread_row list" where
  "newly_ready_dependents db tid =
     sort_key t_created_at (filter (\<lambda>t.
       (\<exists>d \<in> set (deps db). dep_thread d = t_id t \<and> dep_on d = tid)
     \<and> \<not> is_terminal (t_state t)
     \<and> \<not> (\<exists>d \<in> set (deps db). dep_thread d = t_id t
           \<and> (\<exists>u \<in> set (threads db). t_id u = dep_on d \<and> unmet db u))) (threads db))"

subsection \<open>The search decides reachability\<close>

lemma depends_on_edges: "{(x, y). y \<in> set (depends_on_of db x)} = dep_edges db"
  by (auto simp: depends_on_of_def dep_edges_def)

lemma finite_dep_edges [simp]: "finite (dep_edges db)"
  by (simp add: dep_edges_def)

lemma finite_reach: "finite ((dep_edges db)\<^sup>* `` {x})"
proof -
  have "(dep_edges db)\<^sup>* `` {x} \<subseteq> insert x (snd ` dep_edges db)"
    by (auto elim: rtranclE simp: image_iff) (metis rtranclE snd_conv)
  then show ?thesis by (rule finite_subset) simp
qed

lemma reaches_iff: "reaches db x y \<longleftrightarrow> (x, y) \<in> (dep_edges db)\<^sup>*"
proof -
  note R = depends_on_edges [of db]
  obtain ws Z where s: "rtrancl_while (\<lambda>z. z \<noteq> y) (depends_on_of db) x = Some (ws, Z)"
    using rtrancl_while_finite_Some [of "depends_on_of db" x "\<lambda>z. z \<noteq> y"] finite_reach [of db x] R by auto
  show ?thesis
    using rtrancl_while_Some [OF s] s R by (auto simp: reaches_def split: if_split_asm)
qed

lemma depends_transitively_iff: "depends_transitively db x y \<longleftrightarrow> (x, y) \<in> (dep_edges db)\<^sup>+"
proof -
  have "y' \<in> set (depends_on_of db x) \<longleftrightarrow> (x, y') \<in> dep_edges db" for y'
    using depends_on_edges [of db] by blast
  then have "depends_transitively db x y \<longleftrightarrow> (\<exists>z. (x, z) \<in> dep_edges db \<and> (z, y) \<in> (dep_edges db)\<^sup>*)"
    by (auto simp: depends_transitively_def reaches_iff)
  then show ?thesis by (metis rtrancl_into_trancl2 tranclD)
qed

subsection \<open>The edges stay acyclic\<close>

lemma dep_edges_insert: "dep_edges (insert_dependency tid on db) = insert (tid, on) (dep_edges db)"
  by (auto simp: dep_edges_def insert_dependency_def) 

lemma dep_edges_delete: "dep_edges (delete_dependency tid on db) = dep_edges db - {(tid, on)}"
  by (auto simp: dep_edges_def delete_dependency_def)

text \<open>What a table of edges with a search promises whoever changes it under a guard.\<close>

locale edge_table =
  fixes edges :: "'db \<Rightarrow> ('k \<times> 'k) set"
    and waits :: "'db \<Rightarrow> 'k \<Rightarrow> 'k \<Rightarrow> bool"
    and put :: "'k \<Rightarrow> 'k \<Rightarrow> 'db \<Rightarrow> 'db"
    and drp :: "'k \<Rightarrow> 'k \<Rightarrow> 'db \<Rightarrow> 'db"
  assumes waits_iff: "waits db x y \<longleftrightarrow> (x, y) \<in> (edges db)\<^sup>+"
    and edges_put: "edges (put x y db) = insert (x, y) (edges db)"
    and edges_drp: "edges (drp x y db) = edges db - {(x, y)}"
begin

lemma put_acyclic:
  "acyclic (edges db) \<Longrightarrow> x \<noteq> y \<Longrightarrow> \<not> waits db y x \<Longrightarrow> acyclic (edges (put x y db))"
  by (auto simp: edges_put acyclic_insert waits_iff dest: rtranclD)

lemma drp_acyclic: "acyclic (edges db) \<Longrightarrow> acyclic (edges (drp x y db))"
  by (auto simp: edges_drp intro: acyclic_subset)

text \<open>Moving an edge whose source \<open>r\<close> does not wait for, onto \<open>r\<close>, changes nothing \<open>r\<close> waits for.\<close>

lemma move_edges:
  assumes "\<not> waits db r d" "d \<noteq> r"
  shows "edges (drp d c (put d r db)) = insert (d, r) (edges db) - {(d, c)}"
    "(r, x) \<in> (edges (drp d c (put d r db)))\<^sup>+ \<longleftrightarrow> (r, x) \<in> (edges db)\<^sup>+"
    "acyclic (edges db) \<Longrightarrow> acyclic (edges (drp d c (put d r db)))"
proof -
  let ?E = "edges db" and ?E' = "edges (drp d c (put d r db))"
  show E: "?E' = insert (d, r) ?E - {(d, c)}" by (simp add: edges_put edges_drp)
  have other: "(y, z) \<in> ?E' \<longleftrightarrow> (y, z) \<in> ?E" if "y \<noteq> d" for y z using that by (auto simp: E)
  have no: "(r, d) \<notin> ?E\<^sup>+" using assms(1) by (simp add: waits_iff)
  show "(r, x) \<in> ?E'\<^sup>+ \<longleftrightarrow> (r, x) \<in> ?E\<^sup>+"
  proof
    assume "(r, x) \<in> ?E'\<^sup>+"
    then show "(r, x) \<in> ?E\<^sup>+"
    proof induction
      case (base y)
      with assms(2) other show ?case by (metis r_into_trancl)
    next
      case (step y z)
      with no other have "(y, z) \<in> ?E" by metis
      with step.IH show ?case by (rule trancl_into_trancl)
    qed
  next
    assume "(r, x) \<in> ?E\<^sup>+"
    then show "(r, x) \<in> ?E'\<^sup>+"
    proof induction
      case (base y)
      with assms(2) other show ?case by (metis r_into_trancl)
    next
      case (step y z)
      with no other have "(y, z) \<in> ?E'" by metis
      with step.IH show ?case by (rule trancl_into_trancl)
    qed
  qed
  show "acyclic ?E \<Longrightarrow> acyclic ?E'" using assms(1,2) by (intro drp_acyclic put_acyclic)
qed

end

interpretation dg: edge_table dep_edges depends_transitively insert_dependency delete_dependency
  by unfold_locales (rule depends_transitively_iff dep_edges_insert dep_edges_delete)+

lemma add_dependency_acyclic:
  "add_dependency tid on db = Inr db' \<Longrightarrow> acyclic (dep_edges db) \<Longrightarrow> acyclic (dep_edges db')"
  by (auto simp: add_dependency_def and_then_Inr intro: dg.put_acyclic)

end
