(* ===== verification/Closing.thy ===== *)
theory Closing
  imports Plan_Closes Thread_Deps
begin

text \<open>
  The entry points of \<open>maidan-store/src/sqlite/thread_transitions.rs\<close>: \<open>transition\<close>,
  \<open>transition_with_event\<close> and \<open>close_abandoned\<close>, with the dependents the last one moves onto the thread that
  replaces the closed one.
\<close>

subsection \<open>Transitions\<close>

definition send_back_cap ::
  "outside \<Rightarrow> attribution option \<Rightarrow> instant \<Rightarrow> thread_id \<Rightarrow> member_id \<Rightarrow> thread_action \<Rightarrow> ('z) review_db_scheme
    \<Rightarrow> store_error + ('z) review_db_scheme" where
  "send_back_cap W scope clk tid actor action db =
     (if action = RequestChanges
      then and_then (thread_scope db tid) (\<lambda>(ws, ch). Inr (escalate_round_cap W scope clk ws ch tid actor db))
      else Inr db)"

definition close_follow_up ::
  "outside \<Rightarrow> instant \<Rightarrow> member_id \<Rightarrow> transition_result \<Rightarrow> thread_id \<Rightarrow> ('z) review_db_scheme
    \<Rightarrow> store_error + ('z) review_db_scheme" where
  "close_follow_up W clk actor r tid db = (if xr_to r = Closed then after_close W clk tid actor db else Inr db)"

definition transition ::
  "outside \<Rightarrow> attribution option \<Rightarrow> instant \<Rightarrow> thread_id \<Rightarrow> member_id \<Rightarrow> thread_action \<Rightarrow> ('z) review_db_scheme
    \<Rightarrow> store_error + transition_result \<times> ('z) review_db_scheme" where
  "transition W scope clk tid actor action db =
     and_then (transition_in_spawning W clk tid actor action db) (\<lambda>(r, db1).
     and_then (send_back_cap W scope clk tid actor action db1) (\<lambda>db2.
     and_then (close_follow_up W clk actor r tid db2) (\<lambda>db3.
     Inr (r, db3))))"

definition transition_with_event ::
  "outside \<Rightarrow> attribution option \<Rightarrow> instant \<Rightarrow> thread_id \<Rightarrow> member_id \<Rightarrow> thread_action \<Rightarrow> ('z) review_db_scheme
    \<Rightarrow> store_error + transition_result \<times> ('z) review_db_scheme" where
  "transition_with_event W scope clk tid actor action db =
     and_then (transition_in_spawning W clk tid actor action db) (\<lambda>(r, db1).
     and_then (state_changed clk actor r db1) (\<lambda>db2.
     and_then (send_back_cap W scope clk tid actor action db2) (\<lambda>db3.
     and_then (close_follow_up W clk actor r tid db3) (\<lambda>db4.
     Inr (r, db4)))))"

subsection \<open>Dependents of a replaced thread\<close>

fun repoint_loop ::
  "instant \<Rightarrow> thread_id \<Rightarrow> thread_id \<Rightarrow> member_id \<Rightarrow> thread_id list \<Rightarrow> ('z) review_db_scheme
    \<Rightarrow> store_error + (thread_id list \<times> thread_id list) \<times> ('z) review_db_scheme" where
  "repoint_loop clk closed replacement actor [] db = Inr (([], []), db)"
| "repoint_loop clk closed replacement actor (d # ds) db =
     (if depends_transitively db replacement d
      then and_then (post_notice clk d actor (DependencyRepointRefused closed replacement) db) (\<lambda>db1.
           and_then (repoint_loop clk closed replacement actor ds db1) (\<lambda>((moved, kept), db2).
           Inr ((moved, d # kept), db2)))
      else let db1 = delete_dependency d closed (insert_dependency d replacement db)
           in and_then (post_notice clk d actor (DependencyRepointed closed replacement) db1) (\<lambda>db2.
              and_then (repoint_loop clk closed replacement actor ds db2) (\<lambda>((moved, kept), db3).
              Inr ((d # moved, kept), db3))))"

definition repoint_dependents ::
  "instant \<Rightarrow> thread_id \<Rightarrow> thread_id \<Rightarrow> member_id \<Rightarrow> ('z) review_db_scheme
    \<Rightarrow> store_error + (thread_id list \<times> thread_id list) \<times> ('z) review_db_scheme" where
  "repoint_dependents clk closed replacement actor db =
     (let db1 = delete_dependency replacement closed db
      in repoint_loop clk closed replacement actor (live_dependents db1 closed) db1)"

subsection \<open>Closing a thread that will not land\<close>

fun close_relation ::
  "close_reason \<Rightarrow> thread_id option \<Rightarrow> thread_id \<Rightarrow> store_error + (thread_id \<times> thread_id \<times> relation_kind) option" where
  "close_relation Abandoned (Some _) tid =
     Inl (InvalidInput ''duplicate_of applies to a duplicate or a superseded thread, not an abandoned one'')"
| "close_relation Duplicate None tid =
     Inl (InvalidInput ''a duplicate must name the thread it duplicates in duplicate_of'')"
| "close_relation reason (Some other) tid =
     (if other = tid then Inl (InvalidInput ''duplicate_of cannot be the thread being closed'')
      else if reason = Duplicate then Inr (Some (tid, other, Duplicates))
      else Inr (Some (other, tid, Supersedes)))"
| "close_relation reason None tid = Inr None"

definition add_reference ::
  "instant \<Rightarrow> thread_id \<Rightarrow> thread_id \<Rightarrow> relation_kind \<Rightarrow> ('z) review_db_scheme \<Rightarrow> ('z) review_db_scheme" where
  "add_reference clk src dst kind db =
     (let r = \<lparr>rf_src = RefThread src, rf_dst = RefThread dst, rf_relation = kind\<rparr>
      in if r \<in> set (references db) then db
         else append_event (ReferenceAdded clk src dst kind) (db\<lparr>references := references db @ [r]\<rparr>))"

definition relate_closed ::
  "instant \<Rightarrow> thread_id \<Rightarrow> member_id \<Rightarrow> (thread_id \<times> thread_id \<times> relation_kind) option
    \<Rightarrow> ('z) review_db_scheme \<Rightarrow> store_error + ('z) review_db_scheme" where
  "relate_closed clk tid actor relation db =
     (case relation of
        None \<Rightarrow> Inr db
      | Some (src, dst, kind) \<Rightarrow>
          (let other = (if src = tid then dst else src)
           in and_then (thread_scope db tid) (\<lambda>(ws, _).
              and_then (ensure (\<exists>t \<in> set (threads db). \<exists>c \<in> set (channels db). t_id t = other
                          \<and> c_id c = t_channel t \<and> c_workspace c = ws \<and> live t \<and> readable_thread db ws actor other)
                 (InvalidInput ''duplicate_of is not a thread you can read in this workspace'')) (\<lambda>_.
              Inr (add_reference clk src dst kind db)))))"

text \<open>A thread with a result keeps every landing gate.\<close>

definition abandon_gates :: "outside \<Rightarrow> ('z) review_db_scheme \<Rightarrow> thread_row \<Rightarrow> member_id \<Rightarrow> store_error + unit" where
  "abandon_gates W db t actor =
     (if \<exists>r \<in> set (results db). r_thread r = t_id t
      then and_then (separation_of_duties db t actor Closed) (\<lambda>_. close_gates W db (t_id t))
      else Inr ())"

definition replacement_of :: "close_reason \<Rightarrow> thread_id option \<Rightarrow> thread_id option" where
  "replacement_of reason duplicate_of = (if reason = Abandoned then None else duplicate_of)"

definition close_abandoned ::
  "outside \<Rightarrow> instant \<Rightarrow> thread_id \<Rightarrow> member_id \<Rightarrow> bool \<Rightarrow> close_reason \<Rightarrow> thread_id option
    \<Rightarrow> ('z) review_db_scheme \<Rightarrow> store_error + transition_result \<times> ('z) review_db_scheme" where
  "close_abandoned W clk tid actor maintainer reason duplicate_of db =
     and_then (ok_or (find_thread db tid) NotFound) (\<lambda>t.
     and_then (ensure (live t) NotFound) (\<lambda>_.
     and_then (ensure (\<not> is_terminal (t_state t)) (Conflict (NotAbandonable (t_state t)))) (\<lambda>_.
     and_then (ensure (t_created_by t = Some actor \<or> t_assignee t = Some actor \<or> maintainer) (Conflict MayNotAbandon)) (\<lambda>_.
     and_then (close_relation reason duplicate_of tid) (\<lambda>relation.
     and_then (relate_closed clk tid actor relation db) (\<lambda>db1.
     and_then (abandon_gates W db1 t actor) (\<lambda>_.
     and_then (land_in_tx clk t actor Closed db1) (\<lambda>(r, db2).
     and_then (ensure (tid \<notin> set (unlanded db2)) (Database ''UNIQUE constraint failed'')) (\<lambda>_.
     let db3 = db2\<lparr>unlanded := unlanded db2 @ [tid]\<rparr>
     in and_then (case replacement_of reason duplicate_of of
                    Some other \<Rightarrow> repoint_dependents clk tid other actor db3
                  | None \<Rightarrow> Inr (([], []), db3)) (\<lambda>((moved, kept), db4).
        let db5 = db4\<lparr>audits := audits db4 @
                    [\<lparr>ca_thread = tid, ca_reason = reason, ca_duplicate_of = duplicate_of, ca_repointed = moved,
                      ca_kept = kept, ca_had_result = (\<exists>r \<in> set (results db1). r_thread r = tid),
                      ca_from_state = xr_from r\<rparr>]\<rparr>
        in and_then (state_changed clk actor r db5) (\<lambda>db6.
           and_then (after_close W clk tid actor db6) (\<lambda>db7.
           Inr (r, db7)))))))))))))"

end
