(* ===== verification/Landing_Frames.thy ===== *)
theory Landing_Frames
  imports Closing
begin

text \<open>
  What reviews, transitions and closes may do to a claim: rows evolve as in \<open>Claim_Frames\<close> with no new
  token, new rows are unclaimed, nobody leaves the worker ledger and the log only grows.  \<open>extends\<close> is
  closed under composition, so each operation's bound is read off its parts.
\<close>

definition extends :: "('z) claim_db_scheme \<Rightarrow> ('z) claim_db_scheme \<Rightarrow> bool" where
  "extends db db' \<longleftrightarrow>
     (\<exists>old new. threads db' = old @ new \<and> list_all2 (evolves {}) (threads db) old
        \<and> (\<forall>t \<in> set new. t_assignee t = None \<and> claim_ok t))
   \<and> (distinct (map t_id (threads db)) \<longrightarrow> distinct (map t_id (threads db')))
   \<and> (\<forall>tid m. has_worked db tid m \<longrightarrow> has_worked db' tid m)
   \<and> prefix (log db) (log db') \<and> channels db' = channels db \<and> members db' = members db"

named_theorems extending

lemma frame_extends: "frame {} db db' \<Longrightarrow> extends db db'"
proof -
  assume f: "frame {} db db'"
  have "map t_id (threads db') = map t_id (threads db)" by (rule frame_ids [OF f])
  with f show ?thesis
    unfolding extends_def frame_def by (intro conjI exI [of _ "threads db'"] exI [of _ "[]"]) auto
qed

lemma extends_refl [simp]: "extends db db"
  by (rule frame_extends) simp

lemma evolves_unassigned:
  "evolves {} t t' \<Longrightarrow> t_assignee t = None \<and> claim_ok t \<Longrightarrow> t_assignee t' = None \<and> claim_ok t'"
  by (auto simp: evolves_def holder_evolves_def)

lemma extends_trans:
  assumes "extends a b" "extends b c"
  shows "extends a c"
proof -
  obtain o1 n1 where b: "threads b = o1 @ n1" "list_all2 (evolves {}) (threads a) o1"
    "\<forall>t \<in> set n1. t_assignee t = None \<and> claim_ok t"
    using assms(1) by (auto simp: extends_def)
  obtain o2 n2 where c: "threads c = o2 @ n2" "list_all2 (evolves {}) (o1 @ n1) o2"
    "\<forall>t \<in> set n2. t_assignee t = None \<and> claim_ok t"
    using assms(2) b(1) by (auto simp: extends_def)
  obtain x y where xy: "o2 = x @ y" "list_all2 (evolves {}) o1 x" "list_all2 (evolves {}) n1 y"
    using c(2) by (auto simp: list_all2_append1)
  have "list_all2 (evolves {}) (threads a) x"
  proof (rule list_all2_trans [OF _ b(2) xy(2)])
    show "evolves {} p q \<Longrightarrow> evolves {} q r \<Longrightarrow> evolves {} p r" for p q r
      using evolves_trans [of "{}" p q "{}" r] by simp
  qed
  moreover have "t_assignee t = None \<and> claim_ok t" if t: "t \<in> set y" for t
  proof -
    obtain i where "i < length y" "y ! i = t" using t by (auto simp: in_set_conv_nth)
    with xy(3) have "evolves {} (n1 ! i) t" "n1 ! i \<in> set n1" by (auto simp: list_all2_conv_all_nth)
    with b(3) show ?thesis using evolves_unassigned by blast
  qed
  ultimately have "\<exists>old new. threads c = old @ new \<and> list_all2 (evolves {}) (threads a) old
        \<and> (\<forall>t \<in> set new. t_assignee t = None \<and> claim_ok t)"
    using c xy by (intro exI [of _ x] exI [of _ "y @ n2"]) auto
  with assms show ?thesis
    unfolding extends_def by (auto intro: prefix_order.trans)
qed

lemma extends_same:
  "threads db' = threads db \<Longrightarrow> workers db' = workers db \<Longrightarrow> prefix (log db) (log db')
    \<Longrightarrow> channels db' = channels db \<Longrightarrow> members db' = members db \<Longrightarrow> extends db db'"
  unfolding extends_def
  by (intro conjI exI [of _ "threads db"] exI [of _ "[]"]) (simp_all add: list_all2_same has_worked_def)

lemma gate_tablesD:
  assumes "gate_tables db' = gate_tables db"
  shows "channels db' = channels db" "members db' = members db" "workers db' = workers db"
    "has_worked db' = has_worked db" "deps db' = deps db"
  using assms by (simp_all add: gate_tables_def has_worked_def fun_eq_iff)

subsection \<open>Transitions\<close>

lemma move_row_evolves: "evolves {} t (move_row now s t)"
  by (auto simp: evolves_def holder_evolves_def claim_ok_def move_row_def clear_claim_def)

lemma move_row_unclaimed: "t_assignee t = None \<and> claim_ok t \<Longrightarrow> t_assignee (move_row now s t) = None \<and> claim_ok (move_row now s t)"
  using evolves_unassigned [OF move_row_evolves] .

lemma child_row_unclaimed: "t_assignee (child_row clk cid ch tid actor) = None \<and> claim_ok (child_row clk cid ch tid actor)"
  by (simp add: child_row_def claim_ok_def)

lemma t_id_child_row [simp]: "t_id (child_row clk cid ch tid actor) = cid"
  by (simp add: child_row_def)

lemma moved_extends:
  assumes ts: "threads db' = update_where (\<lambda>u. t_id u = tid) (move_row now s) (threads db @ new)"
    and new: "new = [] \<or> (\<exists>cid ch. new = [child_row clk cid ch tid actor] \<and> cid \<notin> t_id ` set (threads db))"
    and g: "gate_tables db' = gate_tables db" and l: "prefix (log db) (log db')"
  shows "extends db db'"
proof -
  let ?up = "update_where (\<lambda>u. t_id u = tid) (move_row now s)"
  have old: "list_all2 (evolves {}) (threads db) (?up (threads db))"
    by (rule list_all2_update_where) (simp_all add: move_row_evolves)
  have fresh: "t_assignee t = None \<and> claim_ok t" if "t \<in> set (?up new)" for t
  proof -
    have "\<forall>u \<in> set new. t_assignee u = None \<and> claim_ok u" using new child_row_unclaimed by auto
    then show ?thesis using that move_row_unclaimed by (fastforce elim!: update_where_memE)
  qed
  have ids: "map t_id (threads db') = map t_id (threads db) @ map t_id new"
    by (simp add: ts update_where_def comp_def cong: map_cong)
  have "distinct (map t_id (threads db)) \<longrightarrow> distinct (map t_id (threads db'))"
    using new by (auto simp: ids)
  then show ?thesis
    unfolding extends_def using old fresh gate_tablesD [OF g] l
    by (intro conjI exI [of _ "?up (threads db)"] exI [of _ "?up new"])
      (auto simp: ts update_where_append)
qed

lemma transition_extends [extending]:
  assumes "transition_in_spawning W clk tid actor action db = Inr (r, db')"
  shows "extends db db'"
  using assms by (rule transitionD) (rule moved_extends, auto)

lemma land_extends [extending]:
  assumes "land_in_tx clk t actor s db = Inr (r, db')"
  shows "extends db db'"
  using assms by (rule land_in_txD) (rule moved_extends [where new = "[]"], auto)

lemma append_event_extends: "extends db (append_event e db)"
  by (rule extends_same) simp_all

lemma state_changed_extends [extending]: "state_changed clk actor r db = Inr db' \<Longrightarrow> extends db db'"
  by (auto simp: state_changed_def and_then_Inr Let_def intro: append_event_extends)

lemma post_notice_extends [extending]: "post_notice clk tid author msg db = Inr db' \<Longrightarrow> extends db db'"
  by (auto simp: post_notice_def and_then_Inr Let_def intro!: extends_same)

subsection \<open>Plan walks\<close>

lemma close_through_gates_extends [extending]:
  assumes "close_through_gates W clk parent actor from_open db = Inr db'"
  shows "extends db db'"
proof -
  obtain db2 r db3 where o: "(if from_open
        then and_then (transition_in_spawning W clk parent actor StartReview db) (\<lambda>(r, db1). state_changed clk actor r db1)
        else Inr db) = Inr db2"
    and c: "transition_in_spawning W clk parent actor Close db2 = Inr (r, db3)" and s: "state_changed clk actor r db3 = Inr db'"
    using assms by (auto simp: close_through_gates_def and_then_Inr simp del: if_split)
  have "extends db db2"
    using o by (auto simp: and_then_Inr split: if_split_asm dest!: extending intro: extends_trans)
  then show ?thesis using extends_trans transition_extends [OF c] state_changed_extends [OF s] by blast
qed

lemma try_close_parent_extends [extending]:
  assumes "try_close_parent W clk p actor pull db = Inr (b, db')"
  shows "extends db db'"
proof (cases "close_through_gates W clk (t_id p) actor (t_state p = Open) db")
  case (Inl e)
  with assms show ?thesis
    by (auto simp: try_close_parent_def Let_def and_then_Inr split: store_error.split_asm intro: extending)
next
  case (Inr db1)
  then obtain e where "post_notice clk (t_id p) actor PlanLanded (append_event e db1) = Inr db'"
    using assms by (auto simp: try_close_parent_def Let_def and_then_Inr)
  then show ?thesis
    using close_through_gates_extends [OF Inr] append_event_extends [of db1 e]
    by (blast intro: extending extends_trans)
qed

lemma close_parent_extends [extending]:
  assumes "close_parent W clk parent completing actor db = Inr (b, db')"
  shows "extends db db'"
  using assms
  by (cases "landing db completing")
    (auto simp: close_parent_def and_then_Inr split: if_split_asm intro: extending)

lemma blocked_extends: "extends db (append_event e (db\<lparr>blocks := bs\<rparr>))"
  by (rule extends_same) simp_all

lemma block_dependents_extends [extending]:
  "block_dependents clk child actor ds db = Inr db' \<Longrightarrow> extends db db'"
proof (induction ds arbitrary: db)
  case (Cons d ds)
  show ?case
  proof (cases "d \<in> set (blocks db)")
    case True
    with Cons show ?thesis by simp
  next
    case False
    with Cons.prems obtain e db2 where
      n: "post_notice clk d actor (DependencyUnlanded child) (append_event e (db\<lparr>blocks := blocks db @ [d]\<rparr>)) = Inr db2"
      and r: "block_dependents clk child actor ds db2 = Inr db'"
      by (auto simp: and_then_Inr Let_def)
    show ?thesis
      using blocked_extends post_notice_extends [OF n] Cons.IH [OF r] by (blast intro: extends_trans)
  qed
qed simp

lemma unlanded_child_extends [extending]:
  "unlanded_child clk parent child actor db = Inr db' \<Longrightarrow> extends db db'"
  by (auto simp: unlanded_child_def and_then_Inr dest!: extending intro: extends_trans)

lemma after_close_extends [extending]:
  "after_close W clk child actor db = Inr db' \<Longrightarrow> extends db db'"
proof (induction W clk child actor db rule: after_close.induct)
  case (1 W clk child actor db)
  show ?case
  proof (cases "plan_parent db child")
    case None
    with "1.prems" show ?thesis by (simp add: after_close.simps [of W clk child])
  next
    case (Some parent)
    show ?thesis
    proof (cases "landing db child")
      case None
      with Some "1.prems" show ?thesis by (auto simp: after_close.simps [of W clk child] intro: extending)
    next
      case (Some pull)
      with \<open>plan_parent db child = Some parent\<close> "1.prems" obtain b db1 where
        c: "close_parent W clk parent child actor db = Inr (b, db1)"
        and r: "(if b then after_close W clk parent actor db1 else Inr db1) = Inr db'"
        by (auto simp: after_close.simps [of W clk child] and_then_Inr)
      have "extends db1 db'"
        using r "1.IH" [OF \<open>plan_parent db child = Some parent\<close> _ c refl] Some by (auto split: if_split_asm)
      with close_parent_extends [OF c] show ?thesis by (rule extends_trans)
    qed
  qed
qed

subsection \<open>Reviews\<close>

lemma clear_claim_evolves: "evolves {} t (clear_claim clk t)"
  by (auto simp: evolves_def holder_evolves_def claim_ok_def clear_claim_def)

lemma escalate_extends: "extends db (escalate_round_cap W scope clk ws ch tid reviewer db)"
proof -
  let ?db1 = "db\<lparr>threads := update_where (\<lambda>t. t_id t = tid) (clear_claim clk) (threads db)\<rparr>"
  have "frame {} db ?db1" by (rule frame_threads) (rule clear_claim_evolves)
  then have "extends db ?db1" by (rule frame_extends)
  moreover have "extends ?db1 (append_event e (?db1\<lparr>gates := gs\<rparr>))" for e gs by (rule extends_same) simp_all
  ultimately show ?thesis
    by (auto simp: escalate_round_cap_def open_review_round_cap_def Let_def split_def intro: extends_trans)
qed

lemma record_verdict_extends: "extends db (record_verdict clk r db)"
  by (rule extends_same) (simp_all add: record_verdict_def)

lemma dismiss_approvals_extends: "extends db (dismiss_approvals clk tid db)"
  by (rule extends_same) (simp_all add: dismiss_approvals_def)

lemma send_back_extends [extending]: "send_back W clk tid reviewer db = Inr (x, db') \<Longrightarrow> extends db db'"
  by (auto simp: send_back_def and_then_Inr intro: extends_trans [OF transition_extends dismiss_approvals_extends])

lemma review_event_extends [extending]: "review_event clk r sent db = Inr (p, db') \<Longrightarrow> extends db db'"
  by (auto simp: review_event_def and_then_Inr intro: append_event_extends)

lemma settle_verdict_extends [extending]: "settle_verdict W scope clk r db = Inr db' \<Longrightarrow> extends db db'"
  by (auto simp: settle_verdict_def and_then_Inr split: if_split_asm dest!: extending)
    (metis extends_trans escalate_extends)

lemma submit_review_extends [extending]:
  assumes "submit_review W scope clk tid reviewer decision nt evidence_root head db = Inr (r, db')"
  shows "extends db db'"
proof -
  have "settle_verdict W scope clk r (record_verdict clk r db) = Inr db'"
    using assms by (auto simp: submit_review_def and_then_Inr Let_def)
  then show ?thesis using record_verdict_extends settle_verdict_extends by (blast intro: extends_trans)
qed

lemma set_requirement_extends [extending]:
  "set_requirement clk tid k n db = Inr (q, db') \<Longrightarrow> extends db db'"
  by (rule extends_same) (auto simp: set_requirement_def and_then_unit Let_def split: option.split_asm)

lemma apply_critical_review_extends [extending]:
  assumes "apply_critical_review W scope clk tid reviewer decision db = Inr (r, db')"
  shows "extends db db'"
proof (cases decision)
  case None
  with assms show ?thesis by (simp add: apply_critical_review_def)
next
  case (Some d)
  show ?thesis
  proof (cases "\<not> has_skill db reviewer REVIEW_SKILL \<or> verdict_covers_result db tid reviewer d")
    case True
    with assms Some show ?thesis by (simp add: apply_critical_review_def)
  next
    case False
    with assms Some obtain v db1 where s: "submit_review W scope clk tid reviewer d (Some CRITICAL_REVIEW_NOTE) None None db = Inr (v, db1)"
      and k: "(case get_requirement db1 tid of
                 Some _ \<Rightarrow> Inr (Some v, db1)
               | None \<Rightarrow> and_then (set_requirement clk tid 1 None db1) (\<lambda>(_, db2). Inr (Some v, db2))) = Inr (r, db')"
      by (auto simp: apply_critical_review_def and_then_Inr)
    have "extends db1 db'"
      using k by (cases "get_requirement db1 tid") (auto simp: and_then_Inr intro: extending)
    with submit_review_extends [OF s] show ?thesis by (rule extends_trans)
  qed
qed

subsection \<open>Entry points\<close>

lemma send_back_cap_extends [extending]: "send_back_cap W scope clk tid actor action db = Inr db' \<Longrightarrow> extends db db'"
  by (auto simp: send_back_cap_def and_then_Inr split: if_split_asm intro: escalate_extends)

lemma close_follow_up_extends [extending]: "close_follow_up W clk actor r tid db = Inr db' \<Longrightarrow> extends db db'"
  by (auto simp: close_follow_up_def split: if_split_asm intro: extending)

lemma transition_with_event_extends [extending]:
  "transition_with_event W scope clk tid actor action db = Inr (r, db') \<Longrightarrow> extends db db'"
  by (auto simp: transition_with_event_def and_then_Inr dest!: extending intro: extends_trans)

lemma transition_entry_extends [extending]:
  "transition W scope clk tid actor action db = Inr (r, db') \<Longrightarrow> extends db db'"
  by (auto simp: transition_def and_then_Inr dest!: extending intro: extends_trans)

lemma dependency_extends:
  "extends db (insert_dependency a b db)" "extends db (delete_dependency a b db)"
  by (rule extends_same; simp add: insert_dependency_def delete_dependency_def)+

lemma repoint_loop_extends [extending]:
  "repoint_loop clk closed replacement actor ds db = Inr (mk, db') \<Longrightarrow> extends db db'"
proof (induction ds arbitrary: db mk)
  case (Cons d ds)
  show ?case
  proof (cases "depends_transitively db replacement d")
    case True
    with Cons.prems obtain db1 mk1 where "post_notice clk d actor (DependencyRepointRefused closed replacement) db = Inr db1"
      "repoint_loop clk closed replacement actor ds db1 = Inr (mk1, db')"
      by (auto simp: and_then_Inr)
    with Cons.IH show ?thesis by (blast intro: extending extends_trans)
  next
    case False
    with Cons.prems obtain db2 mk1 where
      n: "post_notice clk d actor (DependencyRepointed closed replacement)
         (delete_dependency d closed (insert_dependency d replacement db)) = Inr db2"
      and r: "repoint_loop clk closed replacement actor ds db2 = Inr (mk1, db')"
      by (auto simp: and_then_Inr Let_def)
    show ?thesis
      by (rule extends_trans [OF extends_trans [OF dependency_extends(1) dependency_extends(2)]
            extends_trans [OF post_notice_extends [OF n] Cons.IH [OF r]]])
  qed
qed simp

lemma repoint_dependents_extends [extending]:
  "repoint_dependents clk closed replacement actor db = Inr (mk, db') \<Longrightarrow> extends db db'"
  by (auto simp: repoint_dependents_def Let_def intro: extends_trans dependency_extends extending)

lemma relate_closed_extends [extending]:
  assumes "relate_closed clk tid actor relation db = Inr db'"
  shows "extends db db'"
proof -
  have "extends db (add_reference clk src dst kind db)" for src dst kind
    by (rule extends_same) (simp_all add: add_reference_def Let_def)
  with assms show ?thesis
    by (auto simp: relate_closed_def and_then_Inr Let_def split: option.split_asm)
qed

text \<open>A \<open>close_abandoned\<close>, step by step.\<close>

lemma close_abandoned_parts:
  assumes "close_abandoned W clk tid actor maintainer reason duplicate_of db = Inr (r, db')"
  obtains t relation db1 db2 mk db4 au db6 where "find_thread db tid = Some t" "live t" "\<not> is_terminal (t_state t)"
    "t_created_by t = Some actor \<or> t_assignee t = Some actor \<or> maintainer"
    "close_relation reason duplicate_of tid = Inr relation" "relate_closed clk tid actor relation db = Inr db1"
    "abandon_gates W db1 t actor = Inr ()" "land_in_tx clk t actor Closed db1 = Inr (r, db2)"
    "(case replacement_of reason duplicate_of of
        Some other \<Rightarrow> repoint_dependents clk tid other actor (db2\<lparr>unlanded := unlanded db2 @ [tid]\<rparr>)
      | None \<Rightarrow> Inr (([], []), db2\<lparr>unlanded := unlanded db2 @ [tid]\<rparr>)) = Inr (mk, db4)"
    "state_changed clk actor r (db4\<lparr>audits := au\<rparr>) = Inr db6" "after_close W clk tid actor db6 = Inr db'"
  using assms
  by (auto simp: close_abandoned_def and_then_unit and_then_Inr Let_def simp del: after_close.simps)

lemma close_abandoned_extends [extending]:
  assumes "close_abandoned W clk tid actor maintainer reason duplicate_of db = Inr (r, db')"
  shows "extends db db'"
  using assms
proof (rule close_abandoned_parts)
  fix t relation db1 db2 mk db4 au db6
  assume s: "relate_closed clk tid actor relation db = Inr db1" "land_in_tx clk t actor Closed db1 = Inr (r, db2)"
    "state_changed clk actor r (db4\<lparr>audits := au\<rparr>) = Inr db6" "after_close W clk tid actor db6 = Inr db'"
    and m: "(case replacement_of reason duplicate_of of
        Some other \<Rightarrow> repoint_dependents clk tid other actor (db2\<lparr>unlanded := unlanded db2 @ [tid]\<rparr>)
      | None \<Rightarrow> Inr (([], []), db2\<lparr>unlanded := unlanded db2 @ [tid]\<rparr>)) = Inr (mk, db4)"
  have u: "extends db2 (db2\<lparr>unlanded := us\<rparr>)" for us by (rule extends_same) simp_all
  have "extends db4 (db4\<lparr>audits := au\<rparr>)" by (rule extends_same) simp_all
  moreover have "extends db2 db4"
    using m u by (cases "replacement_of reason duplicate_of") (auto intro: extends_trans [OF _ repoint_dependents_extends])
  ultimately show ?thesis
    using s extends_trans relate_closed_extends land_extends state_changed_extends after_close_extends by metis
qed

end
