(* ===== verification/Concrete_Reviews.thy ===== *)
theory Concrete_Reviews
  imports Review_Tables
begin

text \<open>
  Concrete stores for runs of the review model: one workspace (1), one public channel (2), four members
  (5, 6, 8 and 9), the given threads and every other table empty; and a concrete outside world.
\<close>

definition review_store_with :: "thread_row list \<Rightarrow> review_db" where
  "review_store_with ts =
     \<lparr>threads = ts,
      channels = [\<lparr>c_id = 2, c_workspace = 1, c_name = ''tasks'', c_private = False\<rparr>],
      members = map (\<lambda>m. \<lparr>m_id = m, m_workspace = 1, m_tombstoned_at = None\<rparr>) [5, 6, 8, 9],
      workers = [], budgets = [], dlq = [], log = [], statuses = [], posts = [], gates = [],
      unclaimable = [], attributes = [], usage = [], fingerprints = [],
      footprints = [], slot_capacities = [], repo_pauses = [], blocks = [], deps = [], unlanded = [],
      priorities = [], required_skills = [], member_skills = [], freezes = [], results = [],
      transitions = [], recipe_children = [], channel_members = [],
      dms = [], group_dms = [], group_dm_members = [],
      land_gates = [], land_verdicts = [], review_reqs = [], reviewers = [], reviews = [], review_verdicts = [],
      packets = [], thread_artifacts = [], thread_versions = [], grant_subjects = [], references = [],
      plan_children = [], change_pulls = [], pull_ci = [], review_children_off = [], default_engines = [], audits = []\<rparr>"

definition plain_outside :: outside where
  "plain_outside =
     \<lparr>uuid = (\<lambda>n. replicate n CHR ''i''), new_id = (\<lambda>ns. Suc (sum_list ns)), from_str = (\<lambda>s. Inr (Str s)),
      to_lowercase = (\<lambda>s. s), hashing = plain_hashing\<rparr>"

end
