(* ===== verification/Landing_Safety.thy ===== *)
theory Landing_Safety
  imports Landing_Frames Concrete_Reviews
begin

text \<open>
  Who may land a thread.  \<open>thread_step\<close> is one operation of the store by anyone: a claim operation, a
  review, a gate, a requirement, a dependency, a transition or an abandoned close.  Along any run the
  worker ledger stays complete, so an approval that counts at a close, and the approval that lets a past
  holder land owned work, come from someone who never held the thread.
\<close>

subsection \<open>The steps\<close>

inductive thread_step ::
  "outside \<Rightarrow> (instant \<Rightarrow> int) \<Rightarrow> lease_id set \<times> ('z) review_db_scheme \<Rightarrow> lease_id set \<times> ('z) review_db_scheme \<Rightarrow> bool"
  for W :: outside and jd :: "instant \<Rightarrow> int" where
  claims: "claim_step jd s s' \<Longrightarrow> thread_step W jd s s'"
| moves: "transition W scope clk tid actor action db = Inr (r, db') \<Longrightarrow> thread_step W jd (U, db) (U, db')"
| moves_event: "transition_with_event W scope clk tid actor action db = Inr (r, db') \<Longrightarrow> thread_step W jd (U, db) (U, db')"
| abandons: "close_abandoned W clk tid actor maintainer reason dup db = Inr (r, db') \<Longrightarrow> thread_step W jd (U, db) (U, db')"
| reviews: "submit_review W scope clk tid m d nt er nh db = Inr (v, db') \<Longrightarrow> thread_step W jd (U, db) (U, db')"
| waits: "apply_critical_review W scope clk tid m dec db = Inr (v, db') \<Longrightarrow> thread_step W jd (U, db) (U, db')"
| requires: "set_requirement clk tid k n db = Inr (q, db') \<Longrightarrow> thread_step W jd (U, db) (U, db')"
| unrequires: "clear_requirement tid db = (b, db') \<Longrightarrow> thread_step W jd (U, db) (U, db')"
| names: "add_reviewer clk tid m db = (b, db') \<Longrightarrow> thread_step W jd (U, db) (U, db')"
| unnames: "remove_reviewer tid m db = (b, db') \<Longrightarrow> thread_step W jd (U, db) (U, db')"
| arms: "require_gate tid db = (st, db') \<Longrightarrow> thread_step W jd (U, db) (U, db')"
| points: "set_pointer scope clk tid m status sha land db = Inr (st, db') \<Longrightarrow> thread_step W jd (U, db) (U, db')"
| disarms: "clear_gate tid db = (b, db') \<Longrightarrow> thread_step W jd (U, db) (U, db')"
| resolves: "resolve_gate clk gid m gs db = (g, db') \<Longrightarrow> thread_step W jd (U, db) (U, db')"
| pushes: "dismiss_stale clk tid pushed db = (rows, db') \<Longrightarrow> thread_step W jd (U, db) (U, db')"
| depends: "add_dependency tid other db = Inr db' \<Longrightarrow> thread_step W jd (U, db) (U, db')"
| undepends: "remove_dependency tid other db = (b, db') \<Longrightarrow> thread_step W jd (U, db) (U, db')"

text \<open>The writes that touch no claim, no thread and no event.\<close>

lemma quiet_extends:
  "clear_requirement tid db = (b, db') \<Longrightarrow> extends db db'"
  "add_reviewer clk tid m db = (b, db') \<Longrightarrow> extends db db'"
  "remove_reviewer tid m db = (b, db') \<Longrightarrow> extends db db'"
  "require_gate tid db = (st, db') \<Longrightarrow> extends db db'"
  "set_pointer scope clk tid m status sha land db = Inr (st, db') \<Longrightarrow> extends db db'"
  "clear_gate tid db = (b, db') \<Longrightarrow> extends db db'"
  "dismiss_stale clk tid pushed db = (rows, db') \<Longrightarrow> extends db db'"
  "remove_dependency tid other db = (b, db') \<Longrightarrow> extends db db'"
  by (auto simp: clear_requirement_def add_reviewer_def remove_reviewer_def require_gate_def set_pointer_def
      clear_gate_def dismiss_stale_def remove_dependency_def delete_dependency_def Let_def and_then_unit and_then_Inr
      split: if_split_asm intro!: extends_same)

lemma resolve_gate_extends: "resolve_gate clk gid m st db = (g, db') \<Longrightarrow> extends db db'"
  by (rule extends_same) (auto simp: resolve_gate_def Let_def split: option.split_asm if_split_asm)

lemma add_dependency_extends: "add_dependency tid other db = Inr db' \<Longrightarrow> extends db db'"
  by (auto simp: add_dependency_def and_then_unit intro: dependency_extends)

lemma thread_step_cases:
  assumes "thread_step W jd s s'"
  obtains "claim_step jd s s'" | "fst s' = fst s" "extends (snd s) (snd s')"
  using assms
  by (cases rule: thread_step.cases)
    (auto dest: extending quiet_extends resolve_gate_extends add_dependency_extends)

subsection \<open>The ledger along a run\<close>

lemma extends_mem:
  assumes "extends db db'" "t' \<in> set (threads db')"
  obtains t where "t \<in> set (threads db)" "evolves {} t t'" | "t_assignee t' = None" "claim_ok t'"
proof -
  obtain old new where *: "threads db' = old @ new" "list_all2 (evolves {}) (threads db) old"
    "\<forall>t \<in> set new. t_assignee t = None \<and> claim_ok t"
    using assms(1) by (auto simp: extends_def)
  show thesis
  proof (cases "t' \<in> set old")
    case True
    then obtain i where "i < length old" "old ! i = t'" by (auto simp: in_set_conv_nth)
    with *(2) that(1) [of "threads db ! i"] show thesis by (auto simp: list_all2_conv_all_nth)
  next
    case False
    with * assms(2) that(2) show thesis by auto
  qed
qed

lemma extends_recorded:
  assumes "extends db db'" "recorded db"
  shows "recorded db'"
  unfolding recorded_def
proof (intro ballI allI impI)
  fix t' m assume t': "t' \<in> set (threads db')" "t_assignee t' = Some m"
  from assms(1) t'(1) show "has_worked db' (t_id t') m"
  proof (rule extends_mem)
    fix t assume "t \<in> set (threads db)" "evolves {} t t'"
    with t'(2) assms show ?thesis
      by (auto simp: evolves_def holder_evolves_def recorded_def extends_def)
  qed (use t'(2) in simp)
qed

lemma extends_claims_ok:
  assumes "extends (snd s) (snd s')" "fst s' = fst s" "claims_ok s"
  shows "claims_ok s'"
proof -
  have "claim_ok t' \<and> (\<forall>l. t_lease t' = Some l \<longrightarrow> l \<in> fst s)" if t': "t' \<in> set (threads (snd s'))" for t'
    using assms(1) t'
  proof (rule extends_mem)
    fix t assume "t \<in> set (threads (snd s))" "evolves {} t t'"
    with assms(3) show ?thesis by (auto simp: claims_ok_def split_def evolves_def holder_evolves_def)
  qed (auto simp: claim_ok_def)
  with assms show ?thesis by (auto simp: claims_ok_def split_def extends_def)
qed

lemma thread_step_keeps:
  assumes "thread_step W jd s s'"
  shows "recorded (snd s) \<Longrightarrow> recorded (snd s')" "claims_ok s \<Longrightarrow> claims_ok s'"
    "has_worked (snd s) tid m \<Longrightarrow> has_worked (snd s') tid m"
proof -
  have "(recorded (snd s) \<longrightarrow> recorded (snd s')) \<and> (claims_ok s \<longrightarrow> claims_ok s')
      \<and> (has_worked (snd s) tid m \<longrightarrow> has_worked (snd s') tid m)"
    using assms
  proof (rule thread_step_cases)
    assume c: "claim_step jd s s'"
    obtain L where "frame L (snd s) (snd s')" using claim_step_frame [OF c] by blast
    then show ?thesis using claim_step_recorded [OF c] claim_step_claims_ok [OF c] by (simp add: frame_def)
  next
    assume e: "fst s' = fst s" "extends (snd s) (snd s')"
    show ?thesis
      using extends_recorded [OF e(2)] extends_claims_ok [OF e(2,1)] e(2) by (simp add: extends_def)
  qed
  then show "recorded (snd s) \<Longrightarrow> recorded (snd s')" "claims_ok s \<Longrightarrow> claims_ok s'"
    "has_worked (snd s) tid m \<Longrightarrow> has_worked (snd s') tid m" by simp_all
qed

definition held_by :: "thread_id \<Rightarrow> member_id \<Rightarrow> ('z) claim_db_scheme \<Rightarrow> bool" where
  "held_by tid m db \<longleftrightarrow> (\<exists>t \<in> set (threads db). t_id t = tid \<and> t_assignee t = Some m)"

text \<open>Whether a member held the thread at some point of a run between two states.\<close>

definition ever_held where
  "ever_held W jd s0 s tid m \<longleftrightarrow>
     (\<exists>s1. (thread_step W jd)\<^sup>*\<^sup>* s0 s1 \<and> (thread_step W jd)\<^sup>*\<^sup>* s1 s \<and> held_by tid m (snd s1))"

interpretation thread_recorded: step_invariant "thread_step W jd" "\<lambda>s. recorded (snd s)" for W jd
  by unfold_locales (rule thread_step_keeps(1))

interpretation thread_claims: step_invariant "thread_step W jd" claims_ok for W jd
  by unfold_locales (rule thread_step_keeps(2))

interpretation thread_worked: step_invariant "thread_step W jd" "\<lambda>s. has_worked (snd s) tid m" for W jd tid m
  by unfold_locales (rule thread_step_keeps(3))

lemmas thread_steps_keep = thread_recorded.run_keeps thread_claims.run_keeps thread_worked.run_keeps

lemma ever_held_worked:
  assumes "recorded (snd s0)" "ever_held W jd s0 s tid m"
  shows "has_worked (snd s) tid m"
proof -
  obtain s1 where r1: "(thread_step W jd)\<^sup>*\<^sup>* s0 s1" and r2: "(thread_step W jd)\<^sup>*\<^sup>* s1 s" and h: "held_by tid m (snd s1)"
    using assms(2) by (auto simp: ever_held_def)
  have "recorded (snd s1)" by (rule thread_steps_keep(1) [OF r1 assms(1)])
  with h have "has_worked (snd s1) tid m" by (auto simp: recorded_def held_by_def)
  then show ?thesis by (rule thread_steps_keep(3) [OF r2])
qed

subsection \<open>Closing\<close>

text \<open>An approval by \<open>p\<close> that stands for the thread's latest packet.\<close>

definition approved_by :: "('z) review_db_scheme \<Rightarrow> thread_id \<Rightarrow> member_id \<Rightarrow> bool" where
  "approved_by db tid p \<longleftrightarrow> (\<exists>r \<in> set (reviews db). review_principal r = p \<and> standing_approval db tid r)"

text \<open>A live member of the workspace the thread is in.\<close>

definition member_here :: "('z) claim_db_scheme \<Rightarrow> thread_id \<Rightarrow> member_id \<Rightarrow> bool" where
  "member_here db tid p \<longleftrightarrow>
     (\<exists>t \<in> set (threads db). \<exists>c \<in> set (channels db). t_id t = tid \<and> c_id c = t_channel t
        \<and> live_member_in db (c_workspace c) p)"

lemma counted_facts:
  assumes "counted_approval db tid r" "r \<in> set (reviews db)" "distinct (map t_id (threads db))" "find_thread db tid = Some t"
  shows "approved_by db tid (review_principal r)" "member_here db tid (review_principal r)" "t_owner t \<noteq> Some (review_principal r)"
    "\<not> has_worked db tid (review_principal r)"
proof -
  obtain u c where u: "u \<in> set (threads db)" "t_id u = tid" "c \<in> set (channels db)" "c_id c = t_channel u"
    "live_member_in db (c_workspace c) (review_principal r)" "independent db u (review_principal r)"
    using counted_principal [OF assms(1)] by metis
  have "t = u" using assms(3) find_thread_Some [OF assms(4)] u(1,2) by (auto simp: distinct_map inj_on_def)
  with u show "approved_by db tid (review_principal r)" "member_here db tid (review_principal r)" "t_owner t \<noteq> Some (review_principal r)"
    "\<not> has_worked db tid (review_principal r)"
    using assms(1,2) by (auto simp: approved_by_def counted_approval_def member_here_def independent_def not_owner_nor_worker_def)
qed

lemma distinct_list_of_card:
  assumes "int k \<le> int (card A)" "finite A"
  shows "\<exists>xs. length xs = k \<and> distinct xs \<and> set xs \<subseteq> A"
proof -
  obtain B where "B \<subseteq> A" "card B = k" using obtain_subset_with_card_n [of k A] assms by auto
  then show ?thesis using finite_distinct_list [of B] assms(2) by (metis distinct_card finite_subset)
qed

lemma transition_with_event_parts:
  assumes "transition_with_event W scope clk tid actor action db = Inr (r, db')"
  obtains db1 where "transition_in_spawning W clk tid actor action db = Inr (r, db1)"
  using assms by (auto simp: transition_with_event_def and_then_Inr)

subsection \<open>A run\<close>

text \<open>Thread 7 is in review, owned by member 6 and held by member 5 under lease 30; two approvals are
  required, and members 8 and 9 have approved.\<close>

definition approval :: "member_id \<Rightarrow> review_row" where
  "approval m =
     \<lparr>rv_thread = 7, rv_reviewer = m, rv_decision = Approve, rv_note = None, rv_actor = None,
      rv_evidence_root = None, rv_head_sha = None, rv_created_at = secs 5, rv_updated_at = secs 5,
      rv_dismissed_at = None\<rparr>"

definition review_store :: review_db where
  "review_store =
     (review_store_with [give_claim (secs 1) 5 (Some (secs 600)) 30 ((fresh_thread 7 2)\<lparr>t_state := InReview, t_owner := Some 6\<rparr>)])
       \<lparr>workers := [\<lparr>w_thread = 7, w_member = 5, w_seq = None\<rparr>],
        review_reqs := [\<lparr>rq_thread = 7, rq_required_count = 2, rq_max_rounds = 3, rq_created_at = 0, rq_updated_at = 0\<rparr>],
        reviews := [approval 8, approval 9]\<rparr>"

text \<open>Member 5 releases the thread and then closes it.\<close>

definition released_store :: review_db where
  "released_store = snd (projr (release_claim (secs 9) 7 5 30 review_store))"

lemma release_run:
  "(thread_step plain_outside (\<lambda>t. t div 1000))\<^sup>*\<^sup>* ({30}, review_store) ({30}, released_store)"
  "claims_ok ({30}, review_store)" "recorded review_store" "held_by 7 5 review_store"
proof -
  have "isl (release_claim (secs 9) 7 5 30 review_store) = False" by code_simp
  then obtain t where "release_claim (secs 9) 7 5 30 review_store = Inr (t, released_store)"
    by (cases "release_claim (secs 9) 7 5 30 review_store") (auto simp: released_store_def)
  then have "thread_step plain_outside (\<lambda>t. t div 1000) ({30}, review_store) ({30}, released_store)"
    by (intro thread_step.claims claim_step.released)
  then show "(thread_step plain_outside (\<lambda>t. t div 1000))\<^sup>*\<^sup>* ({30}, review_store) ({30}, released_store)" ..
  show "claims_ok ({30}, review_store)" "recorded review_store" "held_by 7 5 review_store"
    by (simp_all add: claims_ok_def recorded_def held_by_def review_store_def review_store_with_def give_claim_def fresh_thread_def
        claim_ok_def has_worked_def)
qed

definition closed_pair :: "store_error + transition_result \<times> review_db" where
  "closed_pair = transition_with_event plain_outside None (secs 10) 7 5 Close released_store"

lemma closed_pair_facts:
  "closed_pair = Inr (fst (projr closed_pair), snd (projr closed_pair))"
  "required_count released_store 7 = int 2" "xr_to (fst (projr closed_pair)) = Closed"
  "t_owner (xr_thread (fst (projr closed_pair))) = Some 6"
proof -
  have "isl closed_pair = False" by code_simp
  then show "closed_pair = Inr (fst (projr closed_pair), snd (projr closed_pair))" by (cases closed_pair) auto
  show "required_count released_store 7 = int 2" "xr_to (fst (projr closed_pair)) = Closed"
    "t_owner (xr_thread (fst (projr closed_pair))) = Some 6" by code_simp+
qed

text \<open>C4: a close needs independent approvals.  After any run of the store, when a thread that requires
  \<open>k\<close> approvals is closed, there are \<open>k\<close> different principals who each stand behind an approval of the
  evidence last handed over, are live members of the thread's workspace, are not its owner, and never held
  the thread at any point of the run, however it was released, reaped or reassigned since; the evidence
  is still what was handed over, nothing refutes the thread, and its land gate passes.\<close>

theorem close_needs_independent_approvals:
  assumes "claims_ok s0" "recorded (snd s0)" "(thread_step W jd)\<^sup>*\<^sup>* s0 (U, db)"
    and "transition_with_event W scope clk tid actor Close db = Inr (r, db')"
    and "required_count db tid = int k" "0 < k"
  shows "(\<exists>ps. length ps = k \<and> distinct ps \<and> list_all (\<lambda>p. approved_by db tid p \<and> member_here db tid p
             \<and> t_owner (xr_thread r) \<noteq> Some p \<and> \<not> ever_held W jd s0 (U, db) tid p) ps)
     \<and> \<not> evidence_changed W db tid \<and> \<not> refuted db tid \<and> land_gate_in_tx db tid = Inr ()"
proof -
  have ok: "distinct (map t_id (threads db))"
    using thread_steps_keep(2) [OF assms(3,1)] by (simp add: claims_ok_def)
  have worked: "has_worked db tid p" if "ever_held W jd s0 (U, db) tid p" for p
    using ever_held_worked [OF assms(2) that] by simp
  obtain db1 where "transition_in_spawning W clk tid actor Close db = Inr (r, db1)"
    using transition_with_event_parts [OF assms(4)] .
  then obtain t now where t: "find_thread db tid = Some t" "xr_thread r = move_row now Closed t"
    and g: "close_gates W db tid = Inr ()"
    by (rule transitionD) (auto elim!: apply_action_InrE)
  have gate: "review_gate W db tid = Inr ()" and land: "land_gate_in_tx db tid = Inr ()"
    using g by (auto simp: close_gates_def and_then_unit)
  let ?P = "review_principal ` {r \<in> set (reviews db). counted_approval db tid r}"
  have "int k \<le> int (card ?P)"
    using gate assms(5,6) by (simp add: review_gate_ok count_principals_card)
  then obtain ps where ps: "length ps = k" "distinct ps" "set ps \<subseteq> ?P"
    using distinct_list_of_card [of k ?P] by auto
  have "approved_by db tid p \<and> member_here db tid p \<and> t_owner (xr_thread r) \<noteq> Some p \<and> \<not> ever_held W jd s0 (U, db) tid p"
    if p: "p \<in> set ps" for p
  proof -
    obtain v where v: "v \<in> set (reviews db)" "counted_approval db tid v" "p = review_principal v" using ps(3) p by auto
    show ?thesis using counted_facts [OF v(2,1) ok t(1)] worked [of p] by (auto simp: t(2) v(3))
  qed
  moreover have "\<not> evidence_changed W db tid" "\<not> refuted db tid"
    using gate assms(5,6) by (auto simp: review_gate_ok evidence_changed_def split: option.splits)
  ultimately show ?thesis using ps land by (auto simp: list_all_iff)
qed

theorem close_needs_independent_approvals_witness:
  "\<exists>ps. length ps = 2 \<and> distinct ps \<and> list_all (\<lambda>p. approved_by released_store 7 p \<and> member_here released_store 7 p
     \<and> \<not> ever_held plain_outside (\<lambda>t. t div 1000) ({30}, review_store) ({30}, released_store) 7 p) ps"
  using close_needs_independent_approvals [OF release_run(2) _ release_run(1)
      closed_pair_facts(1) [unfolded closed_pair_def] closed_pair_facts(2)] release_run(3)
  by (auto simp: list_all_iff)

subsection \<open>Separation of duties\<close>

text \<open>A green land-gate pass recorded by \<open>p\<close> that the close gate accepts.\<close>

definition passed_by :: "('z) review_db_scheme \<Rightarrow> thread_id \<Rightarrow> member_id \<Rightarrow> bool" where
  "passed_by db tid p \<longleftrightarrow> (\<exists>x. read_in_tx db tid = Recorded x \<and> qualifies x \<and> rp_recorded_by x = p)"

lemma outside_review_facts:
  assumes "outside_review db tid v" "v \<in> set (reviews db)"
  shows "approved_by db tid (review_principal v)" "member_here db tid (review_principal v)"
    "\<not> has_worked db tid (review_principal v)"
    "distinct (map t_id (threads db)) \<Longrightarrow> find_thread db tid = Some t \<Longrightarrow> t_owner t \<noteq> Some (review_principal v)"
proof -
  obtain u c where u: "u \<in> set (threads db)" "c \<in> set (channels db)" "t_id u = tid" "c_id c = t_channel u"
    "live_member_in db (c_workspace c) (review_principal v)" "not_owner_nor_worker db u (review_principal v)"
    and st: "standing_approval db tid v"
    using assms(1)
    by (cases "rv_actor v") (auto simp: outside_review_def standing_approval_def review_principal_def)
  show "approved_by db tid (review_principal v)" using st assms(2) by (auto simp: approved_by_def)
  show "member_here db tid (review_principal v)" "\<not> has_worked db tid (review_principal v)"
    using u by (auto simp: member_here_def not_owner_nor_worker_def)
  assume "distinct (map t_id (threads db))" "find_thread db tid = Some t"
  then have "t = u" using find_thread_Some u(1,3) by (fastforce simp: distinct_map inj_on_def)
  then show "t_owner t \<noteq> Some (review_principal v)" using u(6) by (simp add: not_owner_nor_worker_def)
qed

lemma qualifying_pass_facts:
  assumes "read_in_tx db tid = Recorded x" "qualifies x" "find_thread db tid = Some t"
  shows "t_owner t \<noteq> Some (rp_recorded_by x)" "\<not> has_worked db tid (rp_recorded_by x)"
proof -
  obtain g u v where g: "armed_gate db tid = Some (g, u)" "lg_verdict g = Some v" "landing_verdict db u v"
    using read_in_tx_qualifies [of db tid x] assms(1,2) by blast
  have "u = t" using g(1) assms(3) by (auto simp: armed_gate_def split: option.splits)
  moreover have "t_id t = tid" using find_thread_Some [OF assms(3)] by simp
  moreover have "rp_recorded_by x = lv_recorded_by v" using assms(1) g(1,2) by (auto simp: read_in_tx_def Let_def)
  ultimately show "t_owner t \<noteq> Some (rp_recorded_by x)" "\<not> has_worked db tid (rp_recorded_by x)"
    using g(3) by (auto simp: landing_verdict_def)
qed

lemma outside_approvalE:
  assumes "outside_approval db tid" "distinct (map t_id (threads db))" "find_thread db tid = Some t"
  obtains p where "approved_by db tid p \<or> passed_by db tid p" "member_here db tid p" "t_owner t \<noteq> Some p"
    "\<not> has_worked db tid p"
proof (cases "\<exists>v \<in> set (reviews db). outside_review db tid v")
  case True
  then obtain v where v: "v \<in> set (reviews db)" "outside_review db tid v" by blast
  show thesis
    by (rule that [of "review_principal v"]) (use outside_review_facts [OF v(2,1)] assms(2,3) in auto)
next
  case False
  then obtain x where x: "read_in_tx db tid = Recorded x" "qualifies x"
    and m: "\<exists>t \<in> set (threads db). \<exists>c \<in> set (channels db). t_id t = tid \<and> c_id c = t_channel t
               \<and> live_member_in db (c_workspace c) (rp_recorded_by x)"
    using assms(1) by (auto simp: outside_approval_def split: gate_reading.split_asm)
  show thesis
    by (rule that [of "rp_recorded_by x"])
      (use qualifying_pass_facts [OF x assms(3)] x m in \<open>auto simp: passed_by_def member_here_def\<close>)
qed



end
