(* ===== verification/Dependency_Safety.thy ===== *)
theory Dependency_Safety
  imports Landing_Frames Concrete_Reviews
begin

text \<open>
  The dependency edges under everything that writes them: adding and removing an edge, and an abandoned
  close, which moves the dependents of the closed thread to its replacement.  Transitions and the plan
  walk leave the edges alone.  The edges stay acyclic, and the repointing moves exactly the dependents
  it reports as moved.
\<close>

subsection \<open>What leaves the edges alone\<close>

named_theorems deps_kept \<open>operations that leave the dependency table as it was\<close>

lemma transition_in_spawning_deps [deps_kept]:
  "transition_in_spawning W clk tid actor action db = Inr (r, db') \<Longrightarrow> deps db' = deps db"
  by (erule transitionD) (simp add: gate_tables_def)

lemma land_in_tx_deps [deps_kept]: "land_in_tx clk t actor s db = Inr (r, db') \<Longrightarrow> deps db' = deps db"
  by (erule land_in_txD) (simp add: gate_tables_def)

lemma deps_append_event [simp]: "deps (append_event e db) = deps db"
  by (simp add: append_event_def)

lemma state_changed_deps [deps_kept]: "state_changed clk actor r db = Inr db' \<Longrightarrow> deps db' = deps db"
  by (auto simp: state_changed_def and_then_Inr Let_def)

lemma post_notice_deps [deps_kept]: "post_notice clk tid author msg db = Inr db' \<Longrightarrow> deps db' = deps db"
  by (auto simp: post_notice_def and_then_Inr Let_def)

lemma close_through_gates_deps [deps_kept]:
  "close_through_gates W clk parent actor from_open db = Inr db' \<Longrightarrow> deps db' = deps db"
  by (auto simp: close_through_gates_def and_then_Inr dest!: deps_kept split: if_split_asm)

lemma try_close_parent_deps [deps_kept]:
  assumes "try_close_parent W clk p actor pull db = Inr (b, db')"
  shows "deps db' = deps db"
  using assms
  by (cases "close_through_gates W clk (t_id p) actor (t_state p = Open) db")
    (auto simp: try_close_parent_def Let_def and_then_Inr dest!: deps_kept split: store_error.split_asm)

lemma close_parent_deps [deps_kept]:
  assumes "close_parent W clk parent completing actor db = Inr (b, db')"
  shows "deps db' = deps db"
  using assms
  by (cases "landing db completing") (auto simp: close_parent_def and_then_Inr dest!: deps_kept split: if_split_asm)

lemma block_dependents_deps [deps_kept]:
  "block_dependents clk child actor ds db = Inr db' \<Longrightarrow> deps db' = deps db"
proof (induction ds arbitrary: db)
  case (Cons d ds)
  then show ?case by (fastforce simp: and_then_Inr Let_def dest: post_notice_deps split: if_split_asm)
qed simp

lemma unlanded_child_deps [deps_kept]:
  "unlanded_child clk parent child actor db = Inr db' \<Longrightarrow> deps db' = deps db"
  by (auto simp: unlanded_child_def and_then_Inr dest!: deps_kept)

lemma after_close_deps [deps_kept]:
  "after_close W clk child actor db = Inr db' \<Longrightarrow> deps db' = deps db"
proof (induction W clk child actor db rule: after_close.induct)
  case (1 W clk child actor db)
  show ?case
  proof (cases "plan_parent db child")
    case None
    with "1.prems" show ?thesis by (simp add: after_close.simps [of W clk child])
  next
    case (Some parent)
    show ?thesis
    proof (cases "landing db child")
      case None
      with Some "1.prems" show ?thesis by (simp add: after_close.simps [of W clk child] unlanded_child_deps)
    next
      case (Some pull)
      with \<open>plan_parent db child = Some parent\<close> "1.prems" obtain b db1 where
        c: "close_parent W clk parent child actor db = Inr (b, db1)"
        and r: "(if b then after_close W clk parent actor db1 else Inr db1) = Inr db'"
        by (auto simp: after_close.simps [of W clk child] and_then_Inr)
      have "deps db' = deps db1"
        using r "1.IH" [OF \<open>plan_parent db child = Some parent\<close> _ c refl] Some by (auto split: if_split_asm)
      with close_parent_deps [OF c] show ?thesis by simp
    qed
  qed
qed

lemma escalate_deps [simp]: "deps (escalate_round_cap W scope clk ws ch tid reviewer db) = deps db"
  by (simp add: escalate_round_cap_def open_review_round_cap_def Let_def split_def)

lemma transition_deps [deps_kept]:
  "transition W scope clk tid actor action db = Inr (r, db') \<Longrightarrow> deps db' = deps db"
  "transition_with_event W scope clk tid actor action db = Inr (r, db') \<Longrightarrow> deps db' = deps db"
  by (auto simp: transition_def transition_with_event_def send_back_cap_def close_follow_up_def and_then_Inr
      simp del: after_close.simps split: if_split_asm dest!: deps_kept)

lemma relate_closed_deps [deps_kept]: "relate_closed clk tid actor relation db = Inr db' \<Longrightarrow> deps db' = deps db"
  by (auto simp: relate_closed_def add_reference_def and_then_Inr Let_def split: option.split_asm)

lemma relate_closed_threads: "relate_closed clk tid actor relation db = Inr db' \<Longrightarrow> threads db' = threads db"
  by (auto simp: relate_closed_def add_reference_def and_then_Inr Let_def split: option.split_asm)

lemma dep_edges_cong: "deps db' = deps db \<Longrightarrow> dep_edges db' = dep_edges db"
  by (simp add: dep_edges_def)

subsection \<open>Repointing\<close>

text \<open>One turn of the loop.\<close>

lemma repoint_loop_ConsE:
  assumes "repoint_loop clk closed replacement actor (d # ds) db = Inr ((moved, kept), db')" "d \<noteq> replacement"
  obtains (refused) db1 kept' where "(replacement, d) \<in> (dep_edges db)\<^sup>+" "kept = d # kept'" "dep_edges db1 = dep_edges db"
      "repoint_loop clk closed replacement actor ds db1 = Inr ((moved, kept'), db')"
  | (moved) db1 moved' where "(replacement, d) \<notin> (dep_edges db)\<^sup>+" "moved = d # moved'"
      "dep_edges db1 = insert (d, replacement) (dep_edges db) - {(d, closed)}"
      "\<And>x. (replacement, x) \<in> (dep_edges db1)\<^sup>+ \<longleftrightarrow> (replacement, x) \<in> (dep_edges db)\<^sup>+"
      "acyclic (dep_edges db) \<Longrightarrow> acyclic (dep_edges db1)"
      "repoint_loop clk closed replacement actor ds db1 = Inr ((moved', kept), db')"
proof (cases "depends_transitively db replacement d")
  case True
  then obtain db1 kept' where n: "post_notice clk d actor (DependencyRepointRefused closed replacement) db = Inr db1"
    and l: "repoint_loop clk closed replacement actor ds db1 = Inr ((moved, kept'), db')" and k: "kept = d # kept'"
    using assms(1) by (auto simp: and_then_Inr)
  show thesis
    by (rule refused [OF _ k dep_edges_cong [OF post_notice_deps [OF n]] l])
      (use True in \<open>simp add: depends_transitively_iff\<close>)
next
  case False
  let ?db1 = "delete_dependency d closed (insert_dependency d replacement db)"
  obtain db2 moved' where n: "post_notice clk d actor (DependencyRepointed closed replacement) ?db1 = Inr db2"
    and l: "repoint_loop clk closed replacement actor ds db2 = Inr ((moved', kept), db')" and m: "moved = d # moved'"
    using assms(1) False by (auto simp: and_then_Inr Let_def)
  note move = dg.move_edges [OF False assms(2), where c = closed, folded dep_edges_cong [OF post_notice_deps [OF n]]]
  show thesis by (rule moved [OF _ m move l]) (use False in \<open>simp add: depends_transitively_iff\<close>)
qed

lemma repoint_loop_acyclic:
  assumes "repoint_loop clk closed replacement actor ds db = Inr ((moved, kept), db')"
    and "replacement \<notin> set ds" "acyclic (dep_edges db)"
  shows "acyclic (dep_edges db')"
  using assms
proof (induction ds arbitrary: db moved kept)
  case (Cons d ds)
  have "d \<noteq> replacement" using Cons.prems(2) by auto
  with Cons.prems(1) show ?case by (rule repoint_loop_ConsE) (use Cons.IH Cons.prems(2,3) in auto)
qed simp

lemma repoint_loop_exact:
  assumes "repoint_loop clk closed replacement actor ds db = Inr ((moved, kept), db')"
    and "replacement \<notin> set ds" "closed \<noteq> replacement"
  shows "moved = filter (\<lambda>d. (replacement, d) \<notin> (dep_edges db)\<^sup>+) ds
       \<and> kept = filter (\<lambda>d. (replacement, d) \<in> (dep_edges db)\<^sup>+) ds
       \<and> dep_edges db' = dep_edges db - set moved \<times> {closed} \<union> set moved \<times> {replacement}"
  using assms(1,2)
proof (induction ds arbitrary: db moved kept)
  case (Cons d ds)
  have d: "d \<noteq> replacement" "replacement \<notin> set ds" using Cons.prems(2) by auto
  from Cons.prems(1) d(1) show ?case
  proof (cases rule: repoint_loop_ConsE)
    case (refused db1 kept')
    with Cons.IH [OF refused(4) d(2)] show ?thesis by simp
  next
    case (moved db1 moved')
    with Cons.IH [OF moved(6) d(2)] assms(3) show ?thesis by (auto simp: moved(3))
  qed
qed simp

lemma repoint_dependents_exact:
  assumes "repoint_dependents clk closed replacement actor db = Inr ((moved, kept), db')" "closed \<noteq> replacement"
  defines "E \<equiv> dep_edges db - {(replacement, closed)}"
    and "ds \<equiv> live_dependents (delete_dependency replacement closed db) closed"
  shows "moved = filter (\<lambda>d. (replacement, d) \<notin> E\<^sup>+) ds" "kept = filter (\<lambda>d. (replacement, d) \<in> E\<^sup>+) ds"
    "dep_edges db' = E - set moved \<times> {closed} \<union> set moved \<times> {replacement}"
    "acyclic (dep_edges db) \<Longrightarrow> acyclic (dep_edges db')"
proof -
  let ?db1 = "delete_dependency replacement closed db"
  have l: "repoint_loop clk closed replacement actor ds ?db1 = Inr ((moved, kept), db')"
    using assms(1) by (simp add: repoint_dependents_def Let_def ds_def)
  have "replacement \<notin> set ds" by (auto simp: ds_def live_dependents_def delete_dependency_def)
  note * = repoint_loop_exact [OF l this assms(2)] repoint_loop_acyclic [OF l this]
  show "moved = filter (\<lambda>d. (replacement, d) \<notin> E\<^sup>+) ds" "kept = filter (\<lambda>d. (replacement, d) \<in> E\<^sup>+) ds"
    "dep_edges db' = E - set moved \<times> {closed} \<union> set moved \<times> {replacement}"
    "acyclic (dep_edges db) \<Longrightarrow> acyclic (dep_edges db')"
    using * dg.drp_acyclic [of db replacement closed] by (simp_all only: dep_edges_delete E_def)
qed

lemma close_relation_other:
  "close_relation reason (Some other) tid = Inr relation \<Longrightarrow> other \<noteq> tid"
  by (cases reason) (auto split: if_split_asm)

text \<open>Where an abandoned close writes the edges: between the landing and the plan walk.\<close>

lemma close_abandoned_repoints:
  fixes db :: "('z) review_db_scheme"
  assumes "close_abandoned W clk tid actor maintainer reason duplicate_of db = Inr (r, db')"
  obtains db3 db4 :: "('z) review_db_scheme" and mk now where "deps db3 = deps db" "deps db' = deps db4"
    "threads db3 = update_where (\<lambda>u. t_id u = tid) (move_row now Closed) (threads db)"
    "(case replacement_of reason duplicate_of of
        Some other \<Rightarrow> other \<noteq> tid \<and> repoint_dependents clk tid other actor db3 = Inr (mk, db4)
      | None \<Rightarrow> db4 = db3)"
  using assms
proof (rule close_abandoned_parts)
  fix t relation db1 db2 mk db4 au db6
  assume t: "find_thread db tid = Some t"
    and s: "relate_closed clk tid actor relation db = Inr db1" "land_in_tx clk t actor Closed db1 = Inr (r, db2)"
    "state_changed clk actor r (db4\<lparr>audits := au\<rparr>) = Inr db6" "after_close W clk tid actor db6 = Inr db'"
    and c: "close_relation reason duplicate_of tid = Inr relation"
    and m: "(case replacement_of reason duplicate_of of
        Some other \<Rightarrow> repoint_dependents clk tid other actor (db2\<lparr>unlanded := unlanded db2 @ [tid]\<rparr>)
      | None \<Rightarrow> Inr (([], []), db2\<lparr>unlanded := unlanded db2 @ [tid]\<rparr>)) = Inr (mk, db4)"
  have "t_id t = tid" using find_thread_Some [OF t] by simp
  then obtain now where ts: "threads db2 = update_where (\<lambda>u. t_id u = tid) (move_row now Closed) (threads db1)"
    using land_in_txD [OF s(2)] by metis
  show thesis
  proof (rule that [of "db2\<lparr>unlanded := unlanded db2 @ [tid]\<rparr>" db4 now mk])
    show "threads (db2\<lparr>unlanded := unlanded db2 @ [tid]\<rparr>) = update_where (\<lambda>u. t_id u = tid) (move_row now Closed) (threads db)"
      using ts relate_closed_threads [OF s(1)] by simp
    show "deps (db2\<lparr>unlanded := unlanded db2 @ [tid]\<rparr>) = deps db"
      using relate_closed_deps [OF s(1)] land_in_tx_deps [OF s(2)] by simp
    show "deps db' = deps db4"
      using state_changed_deps [OF s(3)] after_close_deps [OF s(4)] by simp
    show "(case replacement_of reason duplicate_of of
        Some other \<Rightarrow> other \<noteq> tid \<and> repoint_dependents clk tid other actor (db2\<lparr>unlanded := unlanded db2 @ [tid]\<rparr>) = Inr (mk, db4)
      | None \<Rightarrow> db4 = db2\<lparr>unlanded := unlanded db2 @ [tid]\<rparr>)"
      using m c by (auto simp: replacement_of_def dest: close_relation_other split: option.splits if_splits)
  qed
qed

subsection \<open>Acyclic along every run\<close>

inductive dep_step :: "outside \<Rightarrow> ('z) review_db_scheme \<Rightarrow> ('z) review_db_scheme \<Rightarrow> bool" for W where
  adds: "add_dependency tid other db = Inr db' \<Longrightarrow> dep_step W db db'"
| removes: "remove_dependency tid other db = (b, db') \<Longrightarrow> dep_step W db db'"
| moves: "transition W scope clk tid actor action db = Inr (r, db') \<Longrightarrow> dep_step W db db'"
| moves_event: "transition_with_event W scope clk tid actor action db = Inr (r, db') \<Longrightarrow> dep_step W db db'"
| abandons: "close_abandoned W clk tid actor maintainer reason dup db = Inr (r, db') \<Longrightarrow> dep_step W db db'"

lemma close_abandoned_acyclic:
  fixes db :: "('z) review_db_scheme"
  assumes "close_abandoned W clk tid actor maintainer reason duplicate_of db = Inr (r, db')" "acyclic (dep_edges db)"
  shows "acyclic (dep_edges db')"
  using assms(1)
proof (rule close_abandoned_repoints)
  fix db3 db4 :: "('z) review_db_scheme" and mk now
  assume "deps db3 = deps db" "deps db' = deps db4"
    and m: "case replacement_of reason duplicate_of of
        Some other \<Rightarrow> other \<noteq> tid \<and> repoint_dependents clk tid other actor db3 = Inr (mk, db4)
      | None \<Rightarrow> db4 = db3"
  then have e: "acyclic (dep_edges db3)" "dep_edges db' = dep_edges db4" using assms(2) by (simp_all add: dep_edges_def)
  obtain moved kept where mk: "mk = (moved, kept)" by (cases mk)
  show ?thesis
    using m e repoint_dependents_exact(4) [of clk tid _ actor db3 moved kept db4]
    by (cases "replacement_of reason duplicate_of") (auto simp: mk)
qed

lemma dep_step_acyclic: "dep_step W db db' \<Longrightarrow> acyclic (dep_edges db) \<Longrightarrow> acyclic (dep_edges db')"
  by (erule dep_step.cases)
    (auto simp: remove_dependency_def dep_edges_def [of db'] dep_edges_def [of db, symmetric]
      dest: transition_deps intro: add_dependency_acyclic dg.drp_acyclic close_abandoned_acyclic)

interpretation acyclic_run: step_invariant "dep_step W" "\<lambda>db. acyclic (dep_edges db)" for W
  by unfold_locales (rule dep_step_acyclic)

text \<open>Threads 9 and 10 wait for thread 7, and thread 8 waits for thread 10; member 5 closes thread 7 as a
  duplicate of thread 8.\<close>

definition waiting_store :: review_db where
  "waiting_store =
     (review_store_with ((fresh_thread 7 2)\<lparr>t_created_by := Some 5\<rparr> # map (\<lambda>i. fresh_thread i 2) [8, 9, 10]))
       \<lparr>deps := map (\<lambda>(a, b). \<lparr>dep_thread = a, dep_on = b\<rparr>) [(9, 7), (10, 7), (8, 10)]\<rparr>"

definition abandoned_pair :: "store_error + transition_result \<times> review_db" where
  "abandoned_pair = close_abandoned plain_outside (secs 9) 7 5 False Duplicate (Some 8) waiting_store"

lemma abandoned_pair_facts:
  "abandoned_pair = Inr (fst (projr abandoned_pair), snd (projr abandoned_pair))"
  "acyclic (dep_edges waiting_store)"
proof -
  have "isl abandoned_pair = False" by code_simp
  then show "abandoned_pair = Inr (fst (projr abandoned_pair), snd (projr abandoned_pair))" by (cases abandoned_pair) auto
  have "dep_edges waiting_store = {(9, 7), (10, 7), (8, 10)}"
    by (simp add: dep_edges_def waiting_store_def)
  then show "acyclic (dep_edges waiting_store)"
    by (simp only:) (rule acyclicI_order [of _ "\<lambda>i. if i = 7 then 0 else if i = 10 then 1 else 2 :: nat"], auto)
qed

text \<open>C12: task dependencies never form a cycle, and the cycle guard is exact.  Along any run of additions,
  removals, transitions and abandoned closes that starts without a cycle there is none, so no thread ever
  waits for itself; and the recursive search answers precisely whether one thread waits, at any
  distance, for another.\<close>

theorem dependencies_stay_acyclic:
  assumes "(dep_step W)\<^sup>*\<^sup>* db db'" "acyclic (dep_edges db)"
  shows "acyclic (dep_edges db') \<and> \<not> depends_transitively db' x x
     \<and> (depends_transitively db' x y \<longleftrightarrow> (x, y) \<in> (dep_edges db')\<^sup>+)"
proof -
  have "acyclic (dep_edges db')" by (rule acyclic_run.run_keeps [OF assms])
  then show ?thesis by (simp add: depends_transitively_iff acyclic_def)
qed

theorem dependencies_stay_acyclic_witness:
  "\<not> depends_transitively (snd (projr abandoned_pair)) 9 9"
proof -
  have "dep_step plain_outside waiting_store (snd (projr abandoned_pair))"
    using abandoned_pair_facts(1) [unfolded abandoned_pair_def] unfolding abandoned_pair_def by (rule dep_step.abandons)
  then have "(dep_step plain_outside)\<^sup>*\<^sup>* waiting_store (snd (projr abandoned_pair))" ..
  then show ?thesis using dependencies_stay_acyclic [OF _ abandoned_pair_facts(2)] by blast
qed

lemma live_dependents_set:
  "set (live_dependents db tid) =
     t_id ` {t \<in> set (threads db). \<not> is_terminal (t_state t) \<and> live t \<and> (t_id t, tid) \<in> dep_edges db}"
  by (force simp: live_dependents_def dep_edges_def)

text \<open>C20: an abandoned close moves exactly the dependents it can.  Closing a thread in favour of another
  drops the edge from the replacement to the closed thread and moves every live, unfinished dependent of
  the closed thread to the replacement, except those the replacement itself waits for, which keep their
  edge (moving them would close a cycle); no other edge changes.\<close>

theorem abandoned_close_moves_the_safe_dependents:
  fixes db db' :: "('z) review_db_scheme"
  assumes "close_abandoned W clk tid actor maintainer reason duplicate_of db = Inr (r, db')"
    and "replacement_of reason duplicate_of = Some other" "acyclic (dep_edges db)"
  defines "E \<equiv> dep_edges db - {(other, tid)}"
  defines "movable \<equiv> t_id ` {t \<in> set (threads db). \<not> is_terminal (t_state t) \<and> live t
     \<and> (t_id t, tid) \<in> E \<and> (other, t_id t) \<notin> E\<^sup>+}"
  shows "dep_edges db' = E - movable \<times> {tid} \<union> movable \<times> {other}"
  using assms(1)
proof (rule close_abandoned_repoints)
  fix db3 db4 :: "('z) review_db_scheme" and mk now
  assume d: "deps db3 = deps db" "deps db' = deps db4"
    and ts: "threads db3 = update_where (\<lambda>u. t_id u = tid) (move_row now Closed) (threads db)"
    and m: "case replacement_of reason duplicate_of of
        Some other \<Rightarrow> other \<noteq> tid \<and> repoint_dependents clk tid other actor db3 = Inr (mk, db4)
      | None \<Rightarrow> db4 = db3"
  obtain moved kept where mk: "mk = (moved, kept)" by (cases mk)
  have e: "dep_edges db3 = dep_edges db" "dep_edges db' = dep_edges db4" using d by (simp_all add: dep_edges_def)
  have r: "repoint_dependents clk tid other actor db3 = Inr ((moved, kept), db4)" "tid \<noteq> other"
    using m assms(2) by (auto simp: mk)
  note x = repoint_dependents_exact [OF r, unfolded e(1)]
  have "(tid, tid) \<notin> E" using assms(3) by (auto simp: E_def acyclic_def)
  then have "{t \<in> set (threads db3). \<not> is_terminal (t_state t) \<and> live t \<and> (t_id t, tid) \<in> E} =
      {t \<in> set (threads db). \<not> is_terminal (t_state t) \<and> live t \<and> (t_id t, tid) \<in> E}"
    by (auto simp: ts set_update_where)
  then have "set (live_dependents (delete_dependency other tid db3) tid) =
      t_id ` {t \<in> set (threads db). \<not> is_terminal (t_state t) \<and> live t \<and> (t_id t, tid) \<in> E}"
    by (simp add: live_dependents_set dep_edges_delete e(1) E_def) (simp add: delete_dependency_def)
  then have "set moved = movable" using x(1) by (auto simp: movable_def E_def)
  then show ?thesis using x(3) e(2) by (simp add: E_def)
qed

theorem abandoned_close_moves_the_safe_dependents_witness:
  "dep_edges (snd (projr abandoned_pair)) = {(9, 8), (10, 7), (8, 10)}"
proof -
  let ?E = "dep_edges waiting_store - {(8, 7)}"
  let ?movable = "t_id ` {t \<in> set (threads waiting_store). \<not> is_terminal (t_state t) \<and> live t
     \<and> (t_id t, 7) \<in> ?E \<and> (8, t_id t) \<notin> ?E\<^sup>+}"
  have E: "?E = {(9, 7), (10, 7), (8, 10)}" by (simp add: dep_edges_def waiting_store_def)
  have ts: "map (\<lambda>t. (t_id t, t_state t, live t)) (threads waiting_store)
      = [(7, Open, True), (8, Open, True), (9, Open, True), (10, Open, True)]" by code_simp
  have "(8, 10) \<in> ?E\<^sup>+" by (rule r_into_trancl) (simp add: E)
  moreover have "(8, 9) \<notin> ?E\<^sup>+" by (auto simp: E dest: tranclD2)
  ultimately have "?movable = {9}"
    unfolding E using ts by (auto simp: map_eq_Cons_conv)
  moreover have "dep_edges (snd (projr abandoned_pair)) = ?E - ?movable \<times> {7} \<union> ?movable \<times> {8}"
    by (rule abandoned_close_moves_the_safe_dependents [OF abandoned_pair_facts(1) [unfolded abandoned_pair_def]
          _ abandoned_pair_facts(2), folded abandoned_pair_def])
      (simp add: replacement_of_def)
  ultimately show ?thesis by (simp add: E)
qed

end
