(* ===== verification/Review_Rounds.thy ===== *)
theory Review_Rounds
  imports Closing Concrete_Reviews
begin

text \<open>
  The round cap: every send-back counts, and the one that reaches the cap takes the claim off the thread,
  opens one gate and keeps everybody from claiming it until a person answers.
\<close>

subsection \<open>Every send-back counts\<close>

lemma accepted_cap_cong: "gates db' = gates db \<Longrightarrow> accepted_cap db' tid = accepted_cap db tid"
  by (simp add: accepted_cap_def)

lemma round_standing_cong:
  "gates db' = gates db \<Longrightarrow> transitions db' = transitions db \<Longrightarrow> review_reqs db' = review_reqs db
    \<Longrightarrow> round_standing db' tid = round_standing db tid"
  by (simp add: round_standing_def get_requirement_def cap_pending_def accepted_cap_cong [of db' db])

lemma after_floor_gt: "f < after_floor now (Some f)"
  by (simp add: after_floor_def)

lemma send_back_counts:
  assumes "transition_in_spawning W clk tid actor RequestChanges db = Inr (x, db')"
    and "round_standing db tid = (cap, n, pending)"
  shows "round_standing db' tid = (cap, n + 1, pending) \<and> xr_to x = Open \<and> gates db' = gates db"
  using assms(1)
proof (rule transitionD)
  fix t to_state new now
  assume t: "find_thread db tid = Some t" and a: "apply_action (t_state t) RequestChanges = Inr to_state"
    and g: "gate_tables db' = gate_tables db" "gates db' = gates db"
    and tr: "transitions db' = transitions db @
       [\<lparr>tr_thread = tid, tr_from = t_state t, tr_to = to_state, tr_actor = actor, tr_occurred_at = now\<rparr>]"
    and now: "RequestChanges \<noteq> StartReview \<Longrightarrow> now = landed_at clk t to_state db" and x: "xr_to x = to_state"
  have s: "t_state t = InReview" "to_state = Open" using a by (auto elim!: apply_action_InrE)
  have tid: "t_id t = tid" using find_thread_Some [OF t] by simp
  have "case accepted_cap db tid of None \<Rightarrow> True | Some c \<Rightarrow> now > c"
    using now by (simp add: landed_at_def s tid after_floor_gt split: option.split)
  moreover have "review_reqs db' = review_reqs db" using g(1) by (simp add: gate_tables_def)
  ultimately show ?thesis
    using assms(2) g(2) x
    by (cases "accepted_cap db tid")
      (auto simp: round_standing_def Let_def get_requirement_def cap_pending_def accepted_cap_cong [OF g(2)] tr s)
qed

subsection \<open>A held thread\<close>

definition unheld :: "thread_id \<Rightarrow> ('z) claim_db_scheme \<Rightarrow> bool" where
  "unheld tid db \<longleftrightarrow> (\<forall>t \<in> set (threads db). t_id t = tid \<longrightarrow> t_assignee t = None \<and> t_lease t = None)"

lemma under_cap:
  assumes "round_standing db tid = (cap, n, pending)" "cap = 0 \<or> pending \<or> n < cap"
  shows "escalate_round_cap W scope clk ws ch tid m db = db"
  using assms by (simp add: escalate_round_cap_def)

lemma escalated:
  assumes "round_standing db tid = (cap, n, pending)" "\<not> (cap = 0 \<or> pending \<or> n < cap)"
    and db': "db' = escalate_round_cap W scope clk ws ch tid m db"
  shows "cap_pending db' tid" "unheld tid db'"
proof -
  have ts: "threads db' = update_where (\<lambda>t. t_id t = tid) (clear_claim clk) (threads db)"
    using assms(1,2) unfolding db'
    by (simp only: escalate_round_cap_def Let_def prod.case if_False open_review_round_cap_def) simp
  have gs: "gates db' = gates db @ [fst (open_review_round_cap W scope tid m db)]"
    using assms(1,2) unfolding db'
    by (simp only: escalate_round_cap_def Let_def prod.case if_False open_review_round_cap_def) simp
  show "cap_pending db' tid"
    unfolding cap_pending_def gs by (simp add: open_review_round_cap_def Let_def)
  show "unheld tid db'"
    unfolding unheld_def ts Ball_update_where by (simp add: clear_claim_def)
qed

lemma pending_cap_refuses:
  assumes "cap_pending db tid"
  shows "\<not> is_ok (claim scope clk l tid m db)" "\<not> is_ok (claim_with_event scope clk l tid m db)"
    "\<not> is_ok (assign scope clk l tid m db)" "\<not> is_ok (assign_with_event scope clk l tid m actor nt db)"
proof -
  have "refuse_round_cap_claim db tid = Inl (Conflict RoundCapHeld)"
    using assms by (simp add: refuse_round_cap_claim_def cap_pending_def)
  then show "\<not> is_ok (claim scope clk l tid m db)" "\<not> is_ok (claim_with_event scope clk l tid m db)"
    "\<not> is_ok (assign scope clk l tid m db)" "\<not> is_ok (assign_with_event scope clk l tid m actor nt db)"
    by (auto simp: is_ok_iff claim_def claim_with_event_def assign_def assign_with_event_def and_then_Inr)
qed

lemma pending_cap_not_eligible:
  assumes "cap_pending db tid" "t_id t = tid"
  shows "\<not> eligible jd sc m clk now repo engine db t"
  using assms by (auto simp: eligible_def claimable_def stalled_def GATED_def cap_pending_def)


text \<open>Thread 7 is in review and held by member 5, the cap is one round, and the owner, member 6, sends it
  back.\<close>

definition capped_store :: review_db where
  "capped_store =
     (review_store_with [give_claim (secs 1) 5 (Some (secs 600)) 30 ((fresh_thread 7 2)\<lparr>t_state := InReview, t_owner := Some 6\<rparr>)])
       \<lparr>workers := [\<lparr>w_thread = 7, w_member = 5, w_seq = None\<rparr>],
        review_reqs := [\<lparr>rq_thread = 7, rq_required_count = 1, rq_max_rounds = 1, rq_created_at = 0, rq_updated_at = 0\<rparr>]\<rparr>"


end
