(* ===== verification/Evidence_Safety.thy ===== *)
theory Evidence_Safety
  imports Reviews Concrete_Reviews
begin

text \<open>
  What a verdict is bound to.  Packets are written only when a thread enters review, each with the root of
  its manifest; a verdict that names a root is stored only when the manifest of that root is what was last
  handed over and is still the thread's evidence.
\<close>

subsection \<open>Packets keep their roots\<close>

lemma transition_packets_ok:
  assumes "transition_in_spawning W clk tid actor action db = Inr (x, db')" "packets_ok W db"
  shows "packets_ok W db'"
proof (cases "action = StartReview")
  case False
  have "packets db' = packets db" using assms(1) by (rule transitionD) (simp add: False)
  then show ?thesis using assms(2) by (simp add: packets_ok_def)
next
  case True
  obtain t to_state db1 where h: "hand_over W clk tid actor db = Inr db1"
    and l: "land_in_tx clk t actor to_state db1 = Inr (x, db')"
    using transition_parts [OF assms(1)] True by (metis (full_types))
  obtain p where p: "record_packet W clk tid actor db = Inr (p, db\<lparr>packets := packets db @ [p]\<rparr>)"
    "packets db1 = packets db @ [p]"
    using h by (rule hand_overD) blast
  have "packets db' = packets db1" using l by (rule land_in_txD) blast
  then show ?thesis using record_packet_ok [OF p(1) assms(2)] p(2) by (simp add: packets_ok_def)
qed

lemma settle_verdict_packets:
  assumes "settle_verdict W scope clk r db = Inr db'"
  shows "packets db' = packets db"
proof -
  have e: "packets (escalate_round_cap W scope clk ws ch tid m db) = packets db" for ws ch tid m and db
    by (simp add: escalate_round_cap_def open_review_round_cap_def Let_def split_def)
  have s: "packets db2 = packets db1" if "send_back W clk tid m db1 = Inr (x, db2)" for tid m x db1 db2
    using that by (auto simp: send_back_def and_then_Inr dismiss_approvals_def elim!: transitionD)
  have v: "packets db2 = packets db1" if "review_event clk r b db1 = Inr (y, db2)" for b y db1 db2
    using that by (auto simp: review_event_def and_then_Inr)
  have c: "packets db2 = packets db1" if "state_changed clk m x db1 = Inr db2" for m x db1 db2
    using that by (auto simp: state_changed_def and_then_Inr Let_def)
  show ?thesis
    using assms by (auto simp: settle_verdict_def and_then_Inr e split: if_split_asm dest!: s v c)
qed

subsection \<open>Roots\<close>

lemma verified_root:
  assumes "json_printers W" "packets_ok W db" "verify_root W db tid r = Inr ()" "root W m = Inr r"
    and "inj_on (sha256 (hashing W)) (manifest_bytes W ` insert m (pk_manifest ` set (packets db)))"
  obtains p current where "latest_packet db tid = Some p" "pk_manifest p = m"
    "manifest_in_tx W db tid = Inr current" "same_evidence m current"
proof -
  have named: "pk_manifest p = m" if "p \<in> set (packets db)" "pk_evidence_root p = r" for p
  proof (rule root_inj [OF assms(1) _ _ assms(4)])
    show "inj_on (sha256 (hashing W)) {manifest_bytes W (pk_manifest p), manifest_bytes W m}"
      using assms(5) by (rule inj_on_subset) (use that in auto)
    show "root W (pk_manifest p) = Inr r" using assms(2) that by (auto simp: packets_ok_def)
  qed
  obtain p where p: "latest_packet db tid = Some p" "pk_evidence_root p = r"
    and u: "ensure_unchanged W db tid r = Inr ()"
    using assms(3) by (auto simp: verify_root_def and_then_unit and_then_Inr latest_root_def)
  obtain q current where q: "q \<in> set (packets db)" "pk_evidence_root q = r"
    "manifest_in_tx W db tid = Inr current" "same_evidence (pk_manifest q) current"
    using ensure_unchangedD [OF assms(2) u] by metis
  show thesis
    using that [OF p(1) _ q(3)] named [of p] named [OF q(1,2)] latest_packet_Some [OF p(1)] p(2) q(4) by simp
qed

text \<open>C8: a verdict that names evidence was given on that evidence.  As long as the digest does not collide on
  the manifests involved, a review that names the root of manifest \<open>m\<close> is stored only if \<open>m\<close>, tiers and all, is
  the manifest last handed over, and only if the thread's result and artifacts are still those of \<open>m\<close>; the
  stored review carries that root, and every packet still carries the root of its manifest.\<close>

theorem verdict_is_bound_to_what_was_read:
  assumes "json_printers W" "packets_ok W db" "root W m = Inr r"
    and "inj_on (sha256 (hashing W)) (manifest_bytes W ` insert m (pk_manifest ` set (packets db)))"
    and "submit_review W scope clk tid reviewer d nt (Some r) named_head db = Inr (v, db')"
  shows "(\<exists>p current. latest_packet db tid = Some p \<and> pk_manifest p = m
            \<and> manifest_in_tx W db tid = Inr current \<and> same_evidence m current)
       \<and> rv_evidence_root v = Some r \<and> packets_ok W db'"
proof -
  obtain head where root: "verify_root W db tid r = Inr ()"
    and v: "v = new_review scope clk tid reviewer d nt (Some r) head db"
    and s: "settle_verdict W scope clk v (record_verdict clk v db) = Inr db'"
    using assms(5) by (auto simp: submit_review_def and_then_unit and_then_Inr Let_def)
  have "packets db' = packets db" using settle_verdict_packets [OF s] by (simp add: record_verdict_def)
  then have "packets_ok W db'" using assms(2) by (simp add: packets_ok_def)
  moreover obtain p current where "latest_packet db tid = Some p" "pk_manifest p = m"
    "manifest_in_tx W db tid = Inr current" "same_evidence m current"
    using verified_root [OF assms(1,2) root assms(3,4)] .
  ultimately show ?thesis by (auto simp: v new_review_def)
qed

text \<open>Thread 7 with one artifact enters review, and member 8 approves naming the root it was handed.\<close>

definition evidence_store :: review_db where
  "evidence_store =
     (review_store_with [(fresh_thread 7 2)\<lparr>t_owner := Some 6\<rparr>])
       \<lparr>thread_artifacts := [\<lparr>ar_thread = 7, ar_sha256 = ''ab'', ar_linked_by = 5, ar_linked_actor = None\<rparr>]\<rparr>"

definition handed_over :: review_db where
  "handed_over = snd (projr (transition_in_spawning plain_outside (secs 3) 7 5 StartReview evidence_store))"

definition handed_manifest :: evidence_manifest where
  "handed_manifest = pk_manifest (hd (packets handed_over))"

lemma plain_json_printers: "json_printers plain_outside"
proof -
  have "inj (uuid plain_outside)" by (auto simp: plain_outside_def inj_def dest: arg_cong [where f = length])
  then show ?thesis by (simp add: json_printers_def plain_outside_def plain_hashing_literals)
qed

lemma handed_over_facts:
  "packets_ok plain_outside handed_over" "map pk_manifest (packets handed_over) = [handed_manifest]"
  "isl (root plain_outside handed_manifest) = False"
proof -
  let ?r = "transition_in_spawning plain_outside (secs 3) 7 5 StartReview evidence_store"
  have "isl ?r = False" by code_simp
  then have "?r = Inr (fst (projr ?r), handed_over)" by (cases ?r) (auto simp: handed_over_def)
  then show "packets_ok plain_outside handed_over"
    by (rule transition_packets_ok) (simp add: packets_ok_def evidence_store_def review_store_with_def)
  have "length (packets handed_over) = 1" by code_simp
  then show "map pk_manifest (packets handed_over) = [handed_manifest]"
    by (cases "packets handed_over") (auto simp: handed_manifest_def)
  show "isl (root plain_outside handed_manifest) = False" by code_simp
qed

theorem verdict_is_bound_to_what_was_read_witness:
  "\<exists>r v db' current. submit_review plain_outside None (secs 5) 7 8 Approve None (Some r) None handed_over = Inr (v, db')
     \<and> manifest_in_tx plain_outside handed_over 7 = Inr current \<and> same_evidence handed_manifest current
     \<and> rv_evidence_root v = Some r"
proof -
  let ?root = "projr (root plain_outside handed_manifest)"
  let ?s = "submit_review plain_outside None (secs 5) 7 8 Approve None (Some ?root) None handed_over"
  have r: "root plain_outside handed_manifest = Inr ?root"
    using handed_over_facts(3) by (cases "root plain_outside handed_manifest") auto
  have one: "pk_manifest ` set (packets handed_over) = {handed_manifest}"
    using arg_cong [OF handed_over_facts(2), of set] by simp
  have "isl ?s = False" by code_simp
  then obtain v db' where s: "?s = Inr (v, db')" by (cases ?s) auto
  show ?thesis
    using verdict_is_bound_to_what_was_read [OF plain_json_printers handed_over_facts(1) r _ s] s by (auto simp: one)
qed

end
