(* ===== verification/Ip_Addr.thy ===== *)
theory Ip_Addr
  imports Rust_Num "HOL-Library.Monad_Syntax"
begin

text \<open>
  The part of Rust's \<open>std::net\<close> the egress guard uses.  An \<open>Ipv4Addr\<close> is its four octets and an
  \<open>Ipv6Addr\<close> its eight segments, as words of their width.  \<open>parse_ip_addr\<close> is
  \<open>IpAddr::from_str\<close>, written like the recursive-descent parser of the standard library: a decimal
  octet has at most three digits and no leading zero, a hexadecimal group at most four digits, one
  double colon may stand for one or more zero groups, and the last two groups may be a dotted
  quad.  \<open>ip_to_string\<close> is the \<open>Display\<close> implementation, which compresses the first longest run of
  at least two zero groups.  Printing then parsing gives the address back.
\<close>

unbundle bit_operations_syntax

subsection \<open>Addresses\<close>

datatype ipv4_addr = Ipv4 "8 word" "8 word" "8 word" "8 word"

datatype ipv6_addr =
  Ipv6 "16 word" "16 word" "16 word" "16 word" "16 word" "16 word" "16 word" "16 word"

datatype ip_addr = V4 ipv4_addr | V6 ipv6_addr

fun segments :: "ipv6_addr \<Rightarrow> 16 word list" where
  "segments (Ipv6 a b c d e f g h) = [a, b, c, d, e, f, g, h]"

definition of_segments :: "16 word list \<Rightarrow> ipv6_addr" where
  "of_segments xs = Ipv6 (xs ! 0) (xs ! 1) (xs ! 2) (xs ! 3) (xs ! 4) (xs ! 5) (xs ! 6) (xs ! 7)"

text \<open>\<open>u16::from_be_bytes\<close> and the octets of a segment.\<close>

definition be16 :: "8 word \<Rightarrow> 8 word \<Rightarrow> 16 word" where
  "be16 hi lo = push_bit 8 (ucast hi) OR ucast lo"

definition hi_octet :: "16 word \<Rightarrow> 8 word" where
  "hi_octet s = ucast (drop_bit 8 s)"

definition lo_octet :: "16 word \<Rightarrow> 8 word" where
  "lo_octet s = ucast s"

text \<open>\<open>Ipv4Addr::from(u32)\<close>: the big-endian octets.\<close>

definition ipv4_from_u32 :: "32 word \<Rightarrow> ipv4_addr" where
  "ipv4_from_u32 w =
     Ipv4 (ucast (drop_bit 24 w)) (ucast (drop_bit 16 w)) (ucast (drop_bit 8 w)) (ucast w)"

fun to_ipv4_mapped :: "ipv6_addr \<Rightarrow> ipv4_addr option" where
  "to_ipv4_mapped (Ipv6 a b c d e f g h) =
     (if a = 0 \<and> b = 0 \<and> c = 0 \<and> d = 0 \<and> e = 0 \<and> f = 0xffff
      then Some (Ipv4 (hi_octet g) (lo_octet g) (hi_octet h) (lo_octet h)) else None)"

fun v4_is_unspecified :: "ipv4_addr \<Rightarrow> bool" where
  "v4_is_unspecified (Ipv4 a b c d) \<longleftrightarrow> a = 0 \<and> b = 0 \<and> c = 0 \<and> d = 0"

fun v4_is_broadcast :: "ipv4_addr \<Rightarrow> bool" where
  "v4_is_broadcast (Ipv4 a b c d) \<longleftrightarrow> a = 255 \<and> b = 255 \<and> c = 255 \<and> d = 255"

fun v4_is_multicast :: "ipv4_addr \<Rightarrow> bool" where
  "v4_is_multicast (Ipv4 a b c d) \<longleftrightarrow> 224 \<le> a \<and> a \<le> 239"

fun v4_is_link_local :: "ipv4_addr \<Rightarrow> bool" where
  "v4_is_link_local (Ipv4 a b c d) \<longleftrightarrow> a = 169 \<and> b = 254"

definition v6_is_unspecified :: "ipv6_addr \<Rightarrow> bool" where
  "v6_is_unspecified ip \<longleftrightarrow> (\<forall>s \<in> set (segments ip). s = 0)"

definition v6_is_multicast :: "ipv6_addr \<Rightarrow> bool" where
  "v6_is_multicast ip \<longleftrightarrow> segments ip ! 0 AND 0xff00 = 0xff00"

subsection \<open>Parsing\<close>

text \<open>
  A reader takes the remaining input and gives the value and what is left; \<open>None\<close> leaves the
  input where it was, as \<open>read_atomically\<close> does.
\<close>

fun read_digits :: "nat \<Rightarrow> nat \<Rightarrow> nat \<Rightarrow> nat \<Rightarrow> string \<Rightarrow> (nat \<times> nat \<times> string) option" where
  "read_digits b m k acc [] = Some (k, acc, [])"
| "read_digits b m k acc (c # cs) =
     (case to_digit b c of
        None \<Rightarrow> Some (k, acc, c # cs)
      | Some d \<Rightarrow> if m < k + 1 then None else read_digits b m (k + 1) (acc * b + d) cs)"

definition read_number :: "nat \<Rightarrow> nat \<Rightarrow> bool \<Rightarrow> nat \<Rightarrow> string \<Rightarrow> (nat \<times> string) option" where
  "read_number b m allow_zero_prefix lim s =
     (case read_digits b m 0 0 s of
        None \<Rightarrow> None
      | Some (k, v, r) \<Rightarrow>
          if k = 0 then None
          else if \<not> allow_zero_prefix \<and> starts_with s ''0'' \<and> 1 < k then None
          else if v < lim then Some (v, r) else None)"

fun read_given_char :: "char \<Rightarrow> string \<Rightarrow> string option" where
  "read_given_char c [] = None"
| "read_given_char c (x # xs) = (if x = c then Some xs else None)"

definition read_separator :: "char \<Rightarrow> nat \<Rightarrow> (string \<Rightarrow> ('a \<times> string) option) \<Rightarrow> string \<Rightarrow> ('a \<times> string) option" where
  "read_separator sep i inner s =
     (if 0 < i then Option.bind (read_given_char sep s) inner else inner s)"

definition read_octet :: "nat \<Rightarrow> string \<Rightarrow> (nat \<times> string) option" where
  "read_octet i = read_separator CHR ''.'' i (read_number 10 3 False 256)"

definition read_ipv4_addr :: "string \<Rightarrow> (ipv4_addr \<times> string) option" where
  "read_ipv4_addr s =
     do { (a, r) \<leftarrow> read_octet 0 s;
          (b, r) \<leftarrow> read_octet 1 r;
          (c, r) \<leftarrow> read_octet 2 r;
          (d, r) \<leftarrow> read_octet 3 r;
          Some (Ipv4 (of_nat a) (of_nat b) (of_nat c) (of_nat d), r) }"

text \<open>
  \<open>read_groups\<close> with \<open>n\<close> slots left at index \<open>i\<close>: the groups read, whether they end in a dotted
  quad, and the rest.
\<close>

fun read_groups :: "nat \<Rightarrow> nat \<Rightarrow> string \<Rightarrow> 16 word list \<times> bool \<times> string" where
  "read_groups 0 i s = ([], False, s)"
| "read_groups (Suc n) i s =
     (case (if 0 < n then read_separator CHR '':'' i read_ipv4_addr s else None) of
        Some (Ipv4 a b c d, r) \<Rightarrow> ([be16 a b, be16 c d], True, r)
      | None \<Rightarrow>
          (case read_separator CHR '':'' i (read_number 16 4 True 65536) s of
             None \<Rightarrow> ([], False, s)
           | Some (g, r) \<Rightarrow>
               (case read_groups n (i + 1) r of (gs, v4, r') \<Rightarrow> (of_nat g # gs, v4, r'))))"

definition read_ipv6_addr :: "string \<Rightarrow> (ipv6_addr \<times> string) option" where
  "read_ipv6_addr s =
     (case read_groups 8 0 s of (head, head_ipv4, r) \<Rightarrow>
        if length head = 8 then Some (of_segments head, r)
        else if head_ipv4 then None
        else
          do { r \<leftarrow> read_given_char CHR '':'' r;
               r \<leftarrow> read_given_char CHR '':'' r;
               (case read_groups (7 - length head) 0 r of (tail, _, r) \<Rightarrow>
                  Some (of_segments
                          (head @ replicate (8 - length head - length tail) 0 @ tail), r)) })"

definition whole :: "('a \<times> string) option \<Rightarrow> 'a option" where
  "whole p = (case p of Some (v, []) \<Rightarrow> Some v | _ \<Rightarrow> None)"

definition parse_ip_addr :: "string \<Rightarrow> ip_addr option" where
  "parse_ip_addr s =
     (case read_ipv4_addr s of
        Some p \<Rightarrow> whole (Some (map_prod V4 id p))
      | None \<Rightarrow> whole (map_option (map_prod V6 id) (read_ipv6_addr s)))"

subsection \<open>Printing\<close>

definition octet_string :: "8 word \<Rightarrow> string" where
  "octet_string a = to_radix 10 (unat a)"

fun ipv4_to_string :: "ipv4_addr \<Rightarrow> string" where
  "ipv4_to_string (Ipv4 a b c d) =
     octet_string a @ ''.'' @ octet_string b @ ''.'' @ octet_string c @ ''.'' @ octet_string d"

definition group_string :: "16 word \<Rightarrow> string" where
  "group_string s = to_ascii_lowercase (to_radix 16 (unat s))"

fun fmt_subslice :: "16 word list \<Rightarrow> string" where
  "fmt_subslice [] = []"
| "fmt_subslice [s] = group_string s"
| "fmt_subslice (s # ss) = group_string s @ '':'' @ fmt_subslice ss"

text \<open>The scan for the first longest run of zeros: index, current span, longest span.\<close>

fun zero_span :: "nat \<Rightarrow> nat \<times> nat \<Rightarrow> nat \<times> nat \<Rightarrow> 16 word list \<Rightarrow> nat \<times> nat" where
  "zero_span i cur best [] = best"
| "zero_span i (st, len) best (s # ss) =
     (if s = 0 then
        (let cur = (if len = 0 then i else st, len + 1) in
         zero_span (i + 1) cur (if snd best < snd cur then cur else best) ss)
      else zero_span (i + 1) (0, 0) best ss)"

definition ipv6_to_string :: "ipv6_addr \<Rightarrow> string" where
  "ipv6_to_string ip =
     (case to_ipv4_mapped ip of
        Some v4 \<Rightarrow> ''::ffff:'' @ ipv4_to_string v4
      | None \<Rightarrow>
          (case zero_span 0 (0, 0) (0, 0) (segments ip) of (st, len) \<Rightarrow>
             if 1 < len
             then fmt_subslice (take st (segments ip)) @ ''::''
                    @ fmt_subslice (drop (st + len) (segments ip))
             else fmt_subslice (segments ip)))"

fun ip_to_string :: "ip_addr \<Rightarrow> string" where
  "ip_to_string (V4 ip) = ipv4_to_string ip"
| "ip_to_string (V6 ip) = ipv6_to_string ip"

subsection \<open>Reading a printed number back\<close>

definition no_digit :: "nat \<Rightarrow> string \<Rightarrow> bool" where
  "no_digit b r \<longleftrightarrow> (case r of [] \<Rightarrow> True | c # _ \<Rightarrow> to_digit b c = None)"

lemma no_digit_simps [simp]:
  "no_digit b []"
  "no_digit b (c # r) \<longleftrightarrow> to_digit b c = None"
  by (simp_all add: no_digit_def)

lemma read_digits_stop: "no_digit b r \<Longrightarrow> read_digits b m k acc r = Some (k, acc, r)"
  by (cases r) simp_all

lemma to_digit_lower [simp]: "to_digit b (ascii_lower c) = to_digit b c" if "b \<le> 16"
proof -
  have "code (ascii_lower c) = (if 65 \<le> code c \<and> code c \<le> 90 then code c + 32 else code c)"
    by (simp add: ascii_lower_def)
  then show ?thesis using that by (simp add: to_digit_def Let_def)
qed

text \<open>The digits of a string of digits, most significant first.\<close>

definition digits_value :: "nat \<Rightarrow> nat \<Rightarrow> string \<Rightarrow> nat" where
  "digits_value b = foldl (\<lambda>acc c. acc * b + the (to_digit b c))"

lemma read_digits_all:
  assumes "\<forall>c \<in> set ds. to_digit b c \<noteq> None" "no_digit b r"
  shows "read_digits b m k acc (ds @ r) =
     (if ds = [] \<or> k + length ds \<le> m
      then Some (k + length ds, digits_value b acc ds, r) else None)"
  using assms(1)
proof (induction ds arbitrary: k acc)
  case Nil
  then show ?case using assms(2) by (simp add: read_digits_stop digits_value_def)
next
  case (Cons c ds)
  then obtain d where "to_digit b c = Some d" by auto
  with Cons show ?case by (auto simp: digits_value_def)
qed

lemma to_radix_value:
  assumes "2 \<le> b" "b \<le> 16"
  shows "digits_value b 0 (to_radix b n) = n"
  using assms
proof (induction b n rule: to_radix.induct)
  case (1 b n)
  then show ?case
    using to_radix.simps [of b n]
    by (cases "n < b") (auto simp: digits_value_def to_digit_upper)
qed

lemma to_radix_all_digits:
  assumes "2 \<le> b" "b \<le> 16" "c \<in> set (to_radix b n)"
  shows "to_digit b c \<noteq> None"
  using to_radix_digits [OF assms] to_digit_upper [OF assms(2)] by force

lemma to_radix_length:
  assumes "2 \<le> b" "n < b ^ k" "0 < k"
  shows "length (to_radix b n) \<le> k"
  using assms
proof (induction k arbitrary: n)
  case (Suc k)
  show ?case
  proof (cases "n < b")
    case True
    then show ?thesis by (subst to_radix.simps) simp
  next
    case False
    then have "0 < k" using Suc.prems(2) by (cases k) auto
    moreover have "n div b < b ^ k"
      using Suc.prems by (simp add: less_mult_imp_div_less mult.commute)
    ultimately have "length (to_radix b (n div b)) \<le> k" using Suc by blast
    then show ?thesis using False Suc.prems(1) by (subst to_radix.simps) simp
  qed
qed simp

lemma to_radix_leading_zero:
  assumes "2 \<le> b" "b \<le> 16" "starts_with (to_radix b n @ r) ''0''"
  shows "length (to_radix b n) = 1"
  using assms
proof (induction b n rule: to_radix.induct)
  case (1 b n)
  show ?case
  proof (cases "n < b")
    case True
    then show ?thesis by (subst to_radix.simps) simp
  next
    case False
    have split: "to_radix b n = to_radix b (n div b) @ [upper_digit (n mod b)]"
      using 1 False by (subst to_radix.simps) simp
    then have sw: "starts_with (to_radix b (n div b) @ r) ''0''"
      using 1 by (cases "to_radix b (n div b)") (auto simp: starts_with_def)
    then have len: "length (to_radix b (n div b)) = 1" using 1 False by simp
    then have "to_radix b (n div b) = ''0''"
      using sw by (cases "to_radix b (n div b)") (auto simp: starts_with_def)
    then have "n div b = 0"
      using to_radix_value [of b "n div b"] 1 by (simp add: digits_value_def to_digit_def)
    then show ?thesis using 1 False by (simp add: div_eq_0_iff)
  qed
qed

lemma read_number_printed:
  assumes "2 \<le> b" "b \<le> 16" "n < b ^ m" "0 < m" "n < lim" "no_digit b r"
  shows "read_number b m zp lim (to_radix b n @ r) = Some (n, r)"
    and "read_number b m True lim (to_ascii_lowercase (to_radix b n) @ r) = Some (n, r)"
proof -
  have len: "length (to_radix b n) \<le> m" using to_radix_length assms by blast
  have ds: "\<forall>c \<in> set (to_radix b n). to_digit b c \<noteq> None"
    using to_radix_all_digits [OF assms(1,2)] by blast
  have lower: "digits_value b acc (to_ascii_lowercase xs) = digits_value b acc xs" for acc xs
    using assms(2) by (induction xs arbitrary: acc) (auto simp: digits_value_def to_ascii_lowercase_def)
  have "read_digits b m 0 0 (to_radix b n @ r) = Some (length (to_radix b n), n, r)"
    using read_digits_all [OF ds assms(6), of m 0 0] len to_radix_value [OF assms(1,2)] by simp
  then show "read_number b m zp lim (to_radix b n @ r) = Some (n, r)"
    using to_radix_leading_zero [OF assms(1,2)] assms(5) by (auto simp: read_number_def)
  have "\<forall>c \<in> set (to_ascii_lowercase (to_radix b n)). to_digit b c \<noteq> None"
    using ds assms(2) by (auto simp: to_ascii_lowercase_def)
  from read_digits_all [OF this assms(6), of m 0 0]
  have "read_digits b m 0 0 (to_ascii_lowercase (to_radix b n) @ r) =
      Some (length (to_radix b n), n, r)"
    using len to_radix_value [OF assms(1,2)] by (simp add: lower) (simp add: to_ascii_lowercase_def)
  then show "read_number b m True lim (to_ascii_lowercase (to_radix b n) @ r) = Some (n, r)"
    using assms(5) by (auto simp: read_number_def)
qed

subsection \<open>Reading a printed address back\<close>

lemma sep_no_digit [simp]:
  "to_digit 10 CHR ''.'' = None" "to_digit 10 CHR '':'' = None"
  "to_digit 16 CHR ''.'' = None" "to_digit 16 CHR '':'' = None"
  by (simp_all add: to_digit_def)

lemma read_octet_printed:
  assumes "no_digit 10 r"
  shows "read_octet 0 (octet_string a @ r) = Some (unat a, r)"
    and "0 < i \<Longrightarrow> read_octet i (CHR ''.'' # octet_string a @ r) = Some (unat a, r)"
proof -
  have "unat a < 256" using unsigned_less [of a] by simp
  then have "read_number 10 3 False 256 (octet_string a @ r) = Some (unat a, r)"
    unfolding octet_string_def using assms by (intro read_number_printed(1)) simp_all
  then show "read_octet 0 (octet_string a @ r) = Some (unat a, r)"
    "0 < i \<Longrightarrow> read_octet i (CHR ''.'' # octet_string a @ r) = Some (unat a, r)"
    by (simp_all add: read_octet_def read_separator_def)
qed

lemma read_ipv4_printed:
  "no_digit 10 r \<Longrightarrow> read_ipv4_addr (ipv4_to_string ip @ r) = Some (ip, r)"
  by (cases ip) (simp add: read_ipv4_addr_def read_octet_printed)

text \<open>A dotted quad needs a dot after its first number, which no printed group has.\<close>

lemma read_digits_shape:
  "read_digits b m k acc s = Some (k', v, r) \<Longrightarrow>
   \<exists>ds. s = ds @ r \<and> (\<forall>c \<in> set ds. to_digit b c \<noteq> None) \<and> no_digit b r"
proof (induction b m k acc s rule: read_digits.induct)
  case (2 b m k acc c cs)
  show ?case
  proof (cases "to_digit b c")
    case None
    then show ?thesis using 2(2) by auto
  next
    case (Some d)
    then have "read_digits b m (k + 1) (acc * b + d) cs = Some (k', v, r)"
      using 2(2) by (auto split: if_splits)
    then obtain ds where "cs = ds @ r" "\<forall>c \<in> set ds. to_digit b c \<noteq> None" "no_digit b r"
      using 2(1) [OF Some] 2(2) Some by (auto split: if_splits)
    then show ?thesis using Some by (intro exI [of _ "c # ds"]) simp
  qed
qed simp

lemma read_number_shape:
  assumes "read_number b m zp lim s = Some (v, r)"
  shows "\<exists>ds. s = ds @ r \<and> (\<forall>c \<in> set ds. to_digit b c \<noteq> None) \<and> no_digit b r"
  using assms read_digits_shape [of b m 0 0 s]
  by (auto simp: read_number_def split: option.splits if_splits prod.splits)

lemma group_string_digits: "c \<in> set (group_string g) \<Longrightarrow> to_digit 16 c \<noteq> None"
  using to_radix_all_digits [of 16] by (auto simp: group_string_def to_ascii_lowercase_def)

lemma to_digit_10_16: "to_digit 10 c \<noteq> None \<Longrightarrow> to_digit 16 c \<noteq> None"
  by (auto simp: to_digit_def Let_def split: if_splits)

lemma hex_digits_no_quad:
  assumes "\<forall>c \<in> set ds. to_digit 16 c \<noteq> None" "r = [] \<or> hd r = CHR '':''"
  shows "read_ipv4_addr (ds @ r) = None"
proof (rule ccontr)
  assume "read_ipv4_addr (ds @ r) \<noteq> None"
  then obtain a q b q' where first: "read_octet 0 (ds @ r) = Some (a, q)"
      and snd: "read_octet 1 q = Some (b, q')"
    by (auto simp: read_ipv4_addr_def bind_eq_Some_conv split: option.splits)
  obtain es where es: "ds @ r = es @ q" "\<forall>c \<in> set es. to_digit 10 c \<noteq> None"
    using read_number_shape first by (fastforce simp: read_octet_def read_separator_def)
  obtain q2 where q: "q = CHR ''.'' # q2"
    using snd by (cases q) (auto simp: read_octet_def read_separator_def split: if_splits)
  have "CHR ''.'' \<notin> set ds" using assms(1) sep_no_digit by metis
  then have "\<exists>us. r = us @ q \<and> es = ds @ us"
    using es(1) q by (auto simp: append_eq_append_conv2 Cons_eq_append_conv append_eq_Cons_conv)
  then obtain us where us: "r = us @ q" "es = ds @ us" by blast
  show False
  proof (cases us)
    case Nil
    then show False using us(1) q assms(2) by auto
  next
    case (Cons u us')
    then have "u = CHR '':''" using us(1) assms(2) by auto
    then show False using es(2) us(2) Cons sep_no_digit by auto
  qed
qed

lemma read_group_printed:
  assumes "no_digit 16 r"
  shows "read_number 16 4 True 65536 (group_string g @ r) = Some (unat g, r)"
proof -
  have "unat g < 65536" using unsigned_less [of g] by simp
  then show ?thesis
    unfolding group_string_def using assms by (intro read_number_printed(2)) simp_all
qed

text \<open>
  Reading printed groups: after the first, each is preceded by a colon.  What follows them is the
  end, or the double colon, which ends the reading.
\<close>

definition tail_groups :: "16 word list \<Rightarrow> string" where
  "tail_groups gs = concat (map (\<lambda>g. CHR '':'' # group_string g) gs)"

lemma fmt_subslice_tail: "fmt_subslice (g # gs) = group_string g @ tail_groups gs"
  by (induction gs arbitrary: g) (simp_all add: tail_groups_def)

definition group_end :: "string \<Rightarrow> bool" where
  "group_end r \<longleftrightarrow> r = [] \<or> (\<exists>r'. r = CHR '':'' # CHR '':'' # r')"

lemma read_number_colon [simp]: "read_number b m zp lim (CHR '':'' # r) = None" if "b \<le> 16"
proof -
  have "to_digit b CHR '':'' = None" using that by (simp add: to_digit_def)
  then show ?thesis by (simp add: read_number_def)
qed

lemma read_number_Nil [simp]: "read_number b m zp lim [] = None"
  by (simp add: read_number_def)

lemma read_ipv4_stop [simp]: "read_ipv4_addr [] = None" "read_ipv4_addr (CHR '':'' # r) = None"
  by (simp_all add: read_ipv4_addr_def read_octet_def read_separator_def)

lemma read_groups_end:
  assumes "group_end r"
  shows "read_groups n i r = ([], False, r)"
  using assms by (cases n) (auto simp: group_end_def read_separator_def)

lemma read_groups_tail:
  assumes "length gs \<le> n" "group_end r" "0 < i"
  shows "read_groups n i (tail_groups gs @ r) = (gs, False, r)"
  using assms
proof (induction gs arbitrary: n i)
  case Nil
  then show ?case by (simp add: tail_groups_def read_groups_end)
next
  case (Cons g gs)
  let ?rest = "tail_groups gs @ r"
  obtain n' where n: "n = Suc n'" using Cons.prems(1) by (cases n) auto
  have rest: "?rest = [] \<or> hd ?rest = CHR '':''"
    using Cons.prems(2) by (cases gs) (auto simp: tail_groups_def group_end_def)
  then have "no_digit 16 ?rest" by (cases ?rest) auto
  then have "read_number 16 4 True 65536 (group_string g @ ?rest) = Some (unat g, ?rest)"
    by (rule read_group_printed)
  moreover have "read_ipv4_addr (group_string g @ ?rest) = None"
    using rest by (intro hex_digits_no_quad ballI group_string_digits) simp_all
  moreover have "read_groups n' (i + 1) ?rest = (gs, False, r)" using Cons n by simp
  ultimately show ?case
    using Cons.prems(1,3) n by (auto simp: tail_groups_def read_separator_def)
qed

lemma read_groups_fmt:
  assumes "length gs \<le> n" "group_end r"
  shows "read_groups n 0 (fmt_subslice gs @ r) = (gs, False, r)"
proof (cases gs)
  case Nil
  then show ?thesis using assms by (simp add: read_groups_end)
next
  case (Cons g hs)
  let ?rest = "tail_groups hs @ r"
  obtain n' where n: "n = Suc n'" using assms(1) Cons by (cases n) auto
  have rest: "?rest = [] \<or> hd ?rest = CHR '':''"
    using assms(2) by (cases hs) (auto simp: tail_groups_def group_end_def)
  then have "no_digit 16 ?rest" by (cases ?rest) auto
  then have "read_number 16 4 True 65536 (group_string g @ ?rest) = Some (unat g, ?rest)"
    by (rule read_group_printed)
  moreover have "read_ipv4_addr (group_string g @ ?rest) = None"
    using rest by (intro hex_digits_no_quad ballI group_string_digits) simp_all
  moreover have "read_groups n' 1 ?rest = (hs, False, r)"
    using read_groups_tail [of hs n' r 1] assms Cons n by simp
  ultimately show ?thesis
    using assms(1) Cons n by (auto simp: fmt_subslice_tail read_separator_def)
qed

text \<open>What the scan finds is a run of zero groups.\<close>

definition zero_run :: "16 word list \<Rightarrow> nat \<Rightarrow> nat \<times> nat \<Rightarrow> bool" where
  "zero_run xs n sp \<longleftrightarrow>
     fst sp + snd sp \<le> n \<and> (\<forall>j. fst sp \<le> j \<and> j < fst sp + snd sp \<longrightarrow> xs ! j = 0)"

lemma zero_span_run:
  assumes "i \<le> length xs" "zero_run xs i best" "zero_run xs i cur" "0 < snd cur \<longrightarrow> fst cur + snd cur = i"
  shows "zero_run xs (length xs) (zero_span i cur best (drop i xs))"
  using assms
proof (induction "length xs - i" arbitrary: i cur best)
  case 0
  then show ?case by simp
next
  case (Suc n)
  then have i: "i < length xs" "n = length xs - Suc i" by auto
  then have drop: "drop i xs = xs ! i # drop (Suc i) xs" by (simp add: Cons_nth_drop_Suc)
  obtain st len where cur: "cur = (st, len)" by (cases cur)
  have mono: "zero_run xs (Suc i) best" using Suc.prems(2) by (simp add: zero_run_def)
  show ?case
  proof (cases "xs ! i = 0")
    case False
    have "zero_run xs (Suc i) (0, 0)" by (simp add: zero_run_def)
    then show ?thesis using Suc.hyps(1) [of "Suc i" best "(0, 0)"] i mono False drop cur by simp
  next
    case True
    let ?cur = "(if len = 0 then i else st, len + 1)"
    have run: "zero_run xs (Suc i) ?cur" and "fst ?cur + snd ?cur = Suc i"
      using Suc.prems(3,4) True cur by (auto simp: zero_run_def less_Suc_eq)
    then have "zero_run xs (length xs) (zero_span (Suc i) ?cur (if snd best < snd ?cur then ?cur else best) (drop (Suc i) xs))"
      using Suc.hyps(1) [of "Suc i" "if snd best < snd ?cur then ?cur else best" ?cur] i mono
      by (simp split: if_splits)
    then show ?thesis using True drop cur by (simp add: Let_def split: if_splits)
  qed
qed

lemma zero_run_split:
  assumes "zero_run xs (length xs) (st, len)"
  shows "xs = take st xs @ replicate len 0 @ drop (st + len) xs"
proof (rule nth_equalityI)
  show "length xs = length (take st xs @ replicate len 0 @ drop (st + len) xs)"
    using assms by (simp add: zero_run_def)
next
  fix j assume "j < length xs"
  then show "xs ! j = (take st xs @ replicate len 0 @ drop (st + len) xs) ! j"
    using assms by (simp add: zero_run_def nth_append)
qed

lemma of_segments_segments [simp]: "of_segments (segments ip) = ip"
  by (cases ip) (simp add: of_segments_def)

lemma length_segments [simp]: "length (segments ip) = 8"
  by (cases ip) simp

lemma be16_octets [simp]: "be16 (hi_octet g) (lo_octet g) = g"
  unfolding be16_def hi_octet_def lo_octet_def
  by (rule bit_word_eqI) (auto simp: bit_simps)

lemma fmt_no_quad:
  assumes "group_end r"
  shows "read_ipv4_addr (fmt_subslice gs @ r) = None"
proof (cases gs)
  case Nil
  then show ?thesis using assms by (auto simp: group_end_def)
next
  case (Cons g hs)
  have "tail_groups hs @ r = [] \<or> hd (tail_groups hs @ r) = CHR '':''"
    using assms by (cases hs) (auto simp: tail_groups_def group_end_def)
  then have "read_ipv4_addr (group_string g @ tail_groups hs @ r) = None"
    by (intro hex_digits_no_quad ballI group_string_digits) simp_all
  then show ?thesis by (simp only: Cons fmt_subslice_tail append_assoc)
qed

lemma read_ipv6_compressed:
  assumes "zero_run (segments ip) 8 (st, len)" "1 < len"
  shows "read_ipv6_addr (fmt_subslice (take st (segments ip)) @ ''::''
           @ fmt_subslice (drop (st + len) (segments ip))) = Some (ip, [])"
proof -
  let ?hd = "take st (segments ip)" and ?tl = "drop (st + len) (segments ip)"
  have bound: "st + len \<le> 8" using assms(1) by (simp add: zero_run_def)
  have head: "read_groups 8 0 (fmt_subslice ?hd @ ''::'' @ fmt_subslice ?tl) =
      (?hd, False, ''::'' @ fmt_subslice ?tl)"
    by (rule read_groups_fmt) (simp_all add: group_end_def)
  have tail: "read_groups (7 - st) 0 (fmt_subslice ?tl) = (?tl, False, [])"
    using read_groups_fmt [of ?tl "7 - st" "[]"] assms(2) bound by (simp add: group_end_def)
  have len: "length ?hd = st" "8 - st - length ?tl = len" using bound by auto
  have "?hd @ replicate len 0 @ ?tl = segments ip"
    using zero_run_split assms(1) by (metis length_segments)
  then show ?thesis
    using head tail len bound assms(2) by (simp add: read_ipv6_addr_def del: length_take length_drop)
qed

lemma read_ipv6_full: "read_ipv6_addr (fmt_subslice (segments ip)) = Some (ip, [])"
  using read_groups_fmt [of "segments ip" 8 "[]"]
  by (simp add: group_end_def read_ipv6_addr_def)

lemma to_ipv4_mapped_Some:
  assumes "to_ipv4_mapped ip = Some v4"
  obtains g h where "ip = Ipv6 0 0 0 0 0 0xffff g h"
    "v4 = Ipv4 (hi_octet g) (lo_octet g) (hi_octet h) (lo_octet h)"
  using assms by (cases ip) (auto split: if_splits)

lemma read_ipv6_mapped:
  assumes "to_ipv4_mapped ip = Some v4"
  shows "read_ipv6_addr (''::ffff:'' @ ipv4_to_string v4) = Some (ip, [])"
proof -
  obtain g h where ip: "ip = Ipv6 0 0 0 0 0 0xffff g h"
    and v4: "v4 = Ipv4 (hi_octet g) (lo_octet g) (hi_octet h) (lo_octet h)"
    using to_ipv4_mapped_Some [OF assms] .
  let ?v = "ipv4_to_string v4"
  have start: "read_groups 8 0 (''::ffff:'' @ ?v) = ([], False, ''::ffff:'' @ ?v)"
    by (rule read_groups_end) (simp add: group_end_def)
  have noquad: "read_ipv4_addr (''ffff'' @ CHR '':'' # ?v) = None"
    by (rule hex_digits_no_quad) (simp_all add: to_digit_def)
  have num: "read_number 16 4 True 65536 (''ffff'' @ CHR '':'' # ?v) = Some (65535, CHR '':'' # ?v)"
    by (simp add: read_number_def to_digit_def)
  have quad: "read_ipv4_addr ?v = Some (v4, [])"
    using read_ipv4_printed [of "[]" v4] by simp
  have "read_groups 6 1 (CHR '':'' # ?v) = ([g, h], True, [])"
    using quad by (simp add: numeral_eq_Suc read_separator_def v4)
  then have "read_groups (Suc 6) 0 (''ffff:'' @ ?v) = ([0xffff, g, h], True, [])"
    using noquad num by (subst read_groups.simps(2)) (simp add: read_separator_def)
  then show ?thesis
    using start by (simp add: read_ipv6_addr_def ip of_segments_def nth_append)
qed

lemma parse_ip_to_string [simp]: "parse_ip_addr (ip_to_string ip) = Some ip"
proof (cases ip)
  case (V4 v)
  then show ?thesis using read_ipv4_printed [of "[]" v] by (simp add: parse_ip_addr_def whole_def)
next
  case (V6 v)
  obtain st len where span: "zero_span 0 (0, 0) (0, 0) (segments v) = (st, len)" by fastforce
  then have run: "zero_run (segments v) 8 (st, len)"
    using zero_span_run [of 0 "segments v" "(0, 0)" "(0, 0)"] by (simp add: zero_run_def)
  have ends: "group_end (''::'' @ r)" "group_end []" for r by (simp_all add: group_end_def)
  have noquad: "read_ipv4_addr (ipv6_to_string v) = None"
    using fmt_no_quad [OF ends(1), of "take st (segments v)"] fmt_no_quad [OF ends(2), of "segments v"] span
    by (simp add: ipv6_to_string_def split: option.split)
  have "read_ipv6_addr (ipv6_to_string v) = Some (v, [])"
    using read_ipv6_mapped [of v] read_ipv6_compressed [OF run] read_ipv6_full [of v] span
    by (auto simp: ipv6_to_string_def split: option.split)
  then show ?thesis using noquad V6 by (simp add: parse_ip_addr_def whole_def)
qed

subsection \<open>What an address is spelled with\<close>

definition ip_text :: "string \<Rightarrow> bool" where
  "ip_text u \<longleftrightarrow> (\<forall>c \<in> set u. to_digit 16 c \<noteq> None \<or> c = CHR ''.'' \<or> c = CHR '':'')"

definition consumes :: "string \<Rightarrow> string \<Rightarrow> bool" where
  "consumes s r \<longleftrightarrow> (\<exists>u. s = u @ r \<and> ip_text u)"

lemma consumes_refl [simp]: "consumes s s"
  by (auto simp: consumes_def ip_text_def intro: exI [of _ "[]"])

lemma consumes_trans: "consumes s r \<Longrightarrow> consumes r q \<Longrightarrow> consumes s q"
  unfolding consumes_def ip_text_def by (metis append_assoc set_append Un_iff)

lemma consumes_Cons: "c = CHR ''.'' \<or> c = CHR '':'' \<Longrightarrow> consumes r q \<Longrightarrow> consumes (c # r) q"
  unfolding consumes_def ip_text_def by (metis append_Cons set_ConsD)

lemma read_number_consumes:
  assumes "read_number b m zp lim s = Some (v, r)" "b = 10 \<or> b = 16"
  shows "consumes s r"
  using read_number_shape [OF assms(1)] assms(2) to_digit_10_16
  by (auto simp: consumes_def ip_text_def)

lemma read_separator_consumes:
  assumes "read_separator sep i inner s = Some (v, r)" "sep = CHR ''.'' \<or> sep = CHR '':''"
    and "\<And>t. inner t = Some (v, r) \<Longrightarrow> consumes t r"
  shows "consumes s r"
  using assms by (cases s) (auto simp: read_separator_def consumes_Cons split: if_splits)

lemma read_octet_consumes: "read_octet i s = Some (v, r) \<Longrightarrow> consumes s r"
  unfolding read_octet_def by (erule read_separator_consumes) (auto dest: read_number_consumes)

lemma read_ipv4_consumes:
  assumes "read_ipv4_addr s = Some (v, r)"
  shows "consumes s r"
proof -
  obtain a ra b rb c rc d where
    "read_octet 0 s = Some (a, ra)" "read_octet 1 ra = Some (b, rb)"
    "read_octet 2 rb = Some (c, rc)" "read_octet 3 rc = Some (d, r)"
    using assms by (auto simp: read_ipv4_addr_def bind_eq_Some_conv)
  then show ?thesis using read_octet_consumes consumes_trans by metis
qed

lemma read_groups_consumes: "read_groups n i s = (gs, v4, r) \<Longrightarrow> consumes s r"
proof (induction n i s arbitrary: gs v4 r rule: read_groups.induct)
  case (2 n i s)
  show ?case
  proof (cases "if 0 < n then read_separator CHR '':'' i read_ipv4_addr s else None")
    case quad: None
    show ?thesis
    proof (cases "read_separator CHR '':'' i (read_number 16 4 True 65536) s")
      case None
      then show ?thesis using 2(2) quad by simp
    next
      case (Some p)
      obtain g q where p: "p = (g, q)" by (cases p)
      obtain hs w q' where rec: "read_groups n (i + 1) q = (hs, w, q')" by (metis prod_cases3)
      have "r = q'" using 2(2) quad Some p rec by simp
      then have "consumes q r" using 2(1) [OF quad Some p [symmetric]] rec by simp
      moreover have "consumes s q"
        using Some p by (auto elim: read_separator_consumes dest: read_number_consumes)
      ultimately show ?thesis using consumes_trans by blast
    qed
  next
    case (Some p)
    obtain v q where p: "p = (v, q)" by (cases p)
    have "r = q" using 2(2) Some p by (cases v) simp
    then show ?thesis
      using Some p
      by (auto split: if_splits elim: read_separator_consumes dest: read_ipv4_consumes)
  qed
qed simp

lemma read_ipv6_consumes:
  assumes "read_ipv6_addr s = Some (v, r)"
  shows "consumes s r"
proof -
  obtain head h4 q where head: "read_groups 8 0 s = (head, h4, q)" by (metis prod_cases3)
  then have first: "consumes s q" by (rule read_groups_consumes)
  show ?thesis
  proof (cases "length head = 8")
    case True
    then show ?thesis using assms head first by (simp add: read_ipv6_addr_def)
  next
    case False
    then obtain q1 q2 where q: "read_given_char CHR '':'' q = Some q1"
        "read_given_char CHR '':'' q1 = Some q2"
      and rest: "r = snd (snd (read_groups (7 - length head) 0 q2))"
      using assms head
      by (auto simp: read_ipv6_addr_def bind_eq_Some_conv case_prod_unfold split: if_splits)
    have colon: "read_given_char CHR '':'' x = Some y \<Longrightarrow> consumes x y" for x y
      by (cases x) (auto simp: consumes_Cons split: if_splits)
    have "consumes q2 r"
      using rest read_groups_consumes by (metis prod.collapse)
    then show ?thesis using first colon [OF q(1)] colon [OF q(2)] consumes_trans by metis
  qed
qed

lemma parse_ip_text:
  assumes "parse_ip_addr s = Some ip"
  shows "ip_text s"
proof -
  have "consumes s []"
    using assms read_ipv4_consumes read_ipv6_consumes
    by (auto simp: parse_ip_addr_def whole_def split: option.splits list.splits prod.splits)
  then show ?thesis by (simp add: consumes_def)
qed

end
