(* ===== verification/Egress_Guard.thy ===== *)
theory Egress_Guard
  imports Ip_Addr
begin

text \<open>
  The guard on outgoing HTTP (\<open>maidan-auth/src/egress.rs\<close>): which URLs an operator or a tenant may
  make the server send to, and which addresses such a URL may resolve to.

  The \<open>url\<close> crate and the resolver are parameters.  \<open>url_parse\<close> stands for \<open>Url::parse\<close>; a parsed
  URL is the record of what its accessors return.  \<open>lookup\<close> stands for
  \<open>tokio::net::lookup_host\<close> under \<open>tokio::time::timeout\<close>, with the three outcomes the code
  distinguishes.  \<open>env\<close> is the process environment (\<open>std::env::var(..).ok()\<close>).

  The theorems need no assumption on any of the three: they say that whatever is parsed and
  resolved, what the guard lets through is public, or was named by the operator; that the octet and
  segment patterns of the code are the special-purpose address blocks they stand for; and that an
  address literal is listed in whatever spelling the operator used.
\<close>

subsection \<open>Public addresses\<close>

fun is_public_ipv4 :: "ipv4_addr \<Rightarrow> bool" where
  "is_public_ipv4 (Ipv4 a b c _) \<longleftrightarrow>
     \<not> (a = 0
        \<or> a = 10
        \<or> (a = 100 \<and> 64 \<le> b \<and> b \<le> 127)
        \<or> a = 127
        \<or> (a = 169 \<and> b = 254)
        \<or> (a = 172 \<and> 16 \<le> b \<and> b \<le> 31)
        \<or> (a = 192 \<and> b = 0 \<and> c = 0)
        \<or> (a = 192 \<and> b = 0 \<and> c = 2)
        \<or> (a = 192 \<and> b = 88 \<and> c = 99)
        \<or> (a = 192 \<and> b = 168)
        \<or> (a = 198 \<and> 18 \<le> b \<and> b \<le> 19)
        \<or> (a = 198 \<and> b = 51 \<and> c = 100)
        \<or> (a = 203 \<and> b = 0 \<and> c = 113)
        \<or> (224 \<le> a \<and> a \<le> 255))"

definition is_public_ipv6 :: "ipv6_addr \<Rightarrow> bool" where
  "is_public_ipv6 ip =
     (case to_ipv4_mapped ip of
        Some mapped \<Rightarrow> is_public_ipv4 mapped
      | None \<Rightarrow>
          (let s0 = segments ip ! 0; s1 = segments ip ! 1; s2 = segments ip ! 2;
               documentation = s0 = 0x3fff \<and> s1 AND 0xf000 = 0;
               amt = s0 = 0x2001 \<and> s1 = 3;
               as112 = s0 = 0x2001 \<and> s1 = 4 \<and> s2 = 0x0112;
               drone = s0 = 0x2001 \<and> s1 AND 0xfff0 = 0x0030;
               direct_as112 = s0 = 0x2620 \<and> s1 = 0x004f \<and> s2 = 0x8000
           in s0 AND 0xe000 = 0x2000
              \<and> \<not> (s0 = 0x2001
                   \<and> (s1 = 0 \<or> s1 = 2 \<or> s1 = 0x0db8 \<or> s1 AND 0xfff0 = 0x0010
                      \<or> s1 AND 0xfff0 = 0x0020))
              \<and> s0 \<noteq> 0x2002
              \<and> \<not> documentation \<and> \<not> amt \<and> \<not> as112 \<and> \<not> drone \<and> \<not> direct_as112))"

fun is_public_ip :: "ip_addr \<Rightarrow> bool" where
  "is_public_ip (V4 ip) = is_public_ipv4 ip"
| "is_public_ip (V6 ip) = is_public_ipv6 ip"

subsection \<open>Targets\<close>

datatype egress_target_error = InvalidUrl | Credentials | NonPublic | Unresolvable | ResolutionTimedOut

datatype url_host = Domain string | HostIpv4 ipv4_addr | HostIpv6 ipv6_addr

record url =
  url_as_str :: string
  url_scheme :: string
  url_host :: "url_host option"
  url_username :: string
  url_password :: "string option"
  url_host_str :: "string option"
  url_port :: "16 word option"

definition MAX_EGRESS_URL_LEN :: nat where
  "MAX_EGRESS_URL_LEN = 2048"

definition is_internal_name :: "string \<Rightarrow> bool" where
  "is_internal_name host =
     (let h = to_ascii_lowercase (trim_end_matches CHR ''.'' host)
      in length ''.internal'' < length h \<and> ends_with h ''.internal'')"

definition validate_scheme_and_credentials :: "(string \<Rightarrow> url option) \<Rightarrow> string \<Rightarrow> egress_target_error + url" where
  "validate_scheme_and_credentials url_parse raw =
     (if MAX_EGRESS_URL_LEN < length raw \<or> trim raw \<noteq> raw then Inl InvalidUrl
      else and_then (ok_or (url_parse raw) InvalidUrl) (\<lambda>u.
        if MAX_EGRESS_URL_LEN < length (url_as_str u) then Inl InvalidUrl
        else if url_scheme u \<notin> {''http'', ''https''} \<or> url_host u = None then Inl InvalidUrl
        else if url_username u \<noteq> [] \<or> url_password u \<noteq> None then Inl Credentials
        else Inr u))"

definition parse_egress_target :: "(string \<Rightarrow> url option) \<Rightarrow> string \<Rightarrow> egress_target_error + url" where
  "parse_egress_target url_parse raw =
     (if MAX_EGRESS_URL_LEN < length raw \<or> trim raw \<noteq> raw then Inl InvalidUrl
      else and_then (ok_or (url_parse raw) InvalidUrl) (\<lambda>u.
        if MAX_EGRESS_URL_LEN < length (url_as_str u) then Inl InvalidUrl
        else if url_scheme u \<notin> {''http'', ''https''} \<or> url_host u = None then Inl InvalidUrl
        else if url_username u \<noteq> [] \<or> url_password u \<noteq> None then Inl Credentials
        else (case url_host u of
            Some (Domain host) \<Rightarrow>
              if to_ascii_lowercase host = ''localhost''
                 \<or> ends_with (to_ascii_lowercase host) ''.localhost'' \<or> is_internal_name host
              then Inl NonPublic else Inr u
          | Some (HostIpv4 ip) \<Rightarrow> if \<not> is_public_ipv4 ip then Inl NonPublic else Inr u
          | Some (HostIpv6 ip) \<Rightarrow> if \<not> is_public_ipv6 ip then Inl NonPublic else Inr u
          | None \<Rightarrow> Inl InvalidUrl)))"

subsection \<open>What the operator lists\<close>

type_synonym environment = "string \<Rightarrow> string option"

definition private_egress_explicitly_allowed :: "environment \<Rightarrow> bool" where
  "private_egress_explicitly_allowed env \<longleftrightarrow>
     env ''MAIDAN_ENV'' \<noteq> Some ''production'' \<and> env ''MAIDAN_ALLOW_PRIVATE_EGRESS'' = Some ''1''"

definition is_ascii_alphanumeric :: "char \<Rightarrow> bool" where
  "is_ascii_alphanumeric c \<longleftrightarrow>
     (48 \<le> code c \<and> code c \<le> 57) \<or> (65 \<le> code c \<and> code c \<le> 90) \<or> (97 \<le> code c \<and> code c \<le> 122)"

definition is_bare_name :: "string \<Rightarrow> bool" where
  "is_bare_name entry =
     list_all (\<lambda>label. label \<noteq> [] \<and> \<not> starts_with label ''-'' \<and> \<not> ends_with label ''-''
                 \<and> list_all (\<lambda>c. is_ascii_alphanumeric c \<or> c = CHR ''-'') label)
       (split_on CHR ''.'' entry)"

text \<open>The closure that takes the brackets off an address literal.\<close>

definition unbracket :: "string \<Rightarrow> string" where
  "unbracket entry =
     (case Option.bind (strip_prefix ''['' entry) (strip_suffix '']'') of
        Some inner \<Rightarrow> inner
      | None \<Rightarrow> entry)"

definition parse_private_egress_hosts :: "string \<Rightarrow> string list" where
  "parse_private_egress_hosts raw =
     filter (\<lambda>entry. parse_ip_addr entry \<noteq> None \<or> is_bare_name entry)
       (map unbracket
         (filter (\<lambda>entry. entry \<noteq> [])
           (map (\<lambda>entry. to_ascii_lowercase (trim_end_matches CHR ''.'' (trim entry)))
             (split_on CHR '','' raw))))"

definition private_egress_hosts :: "environment \<Rightarrow> string list" where
  "private_egress_hosts env =
     (case env ''MAIDAN_PRIVATE_EGRESS_HOSTS'' of
        Some raw \<Rightarrow> parse_private_egress_hosts raw
      | None \<Rightarrow> [])"

definition parse_internal_egress_hosts :: "string \<Rightarrow> string list" where
  "parse_internal_egress_hosts raw =
     filter (\<lambda>entry. is_internal_name entry \<and> is_bare_name entry)
       (map (\<lambda>entry. to_ascii_lowercase (trim_end_matches CHR ''.'' (trim entry)))
         (split_on CHR '','' raw))"

definition internal_egress_hosts :: "environment \<Rightarrow> string list" where
  "internal_egress_hosts env =
     (case env ''MAIDAN_INTERNAL_EGRESS_HOSTS'' of
        Some raw \<Rightarrow> parse_internal_egress_hosts raw
      | None \<Rightarrow> [])"

definition url_host_key :: "url \<Rightarrow> string option" where
  "url_host_key u =
     (case url_host u of
        None \<Rightarrow> None
      | Some (Domain host) \<Rightarrow> Some (to_ascii_lowercase (trim_end_matches CHR ''.'' host))
      | Some (HostIpv4 ip) \<Rightarrow> Some (ip_to_string (V4 ip))
      | Some (HostIpv6 ip) \<Rightarrow> Some (ip_to_string (V6 ip)))"

definition host_is_listed :: "url \<Rightarrow> string list \<Rightarrow> bool" where
  "host_is_listed u hosts =
     (case url_host_key u of
        None \<Rightarrow> False
      | Some key \<Rightarrow>
          list_ex (\<lambda>entry. trim_end_matches CHR ''.'' entry = key
            \<or> (case (parse_ip_addr entry, parse_ip_addr key) of
                 (Some a, Some b) \<Rightarrow> a = b
               | _ \<Rightarrow> False)) hosts)"

subsection \<open>Peers on a private network\<close>

definition peer_address :: "ip_addr \<Rightarrow> ip_addr" where
  "peer_address ip =
     (case ip of
        V4 _ \<Rightarrow> ip
      | V6 v6 \<Rightarrow>
          (case to_ipv4_mapped v6 of
             Some mapped \<Rightarrow> V4 mapped
           | None \<Rightarrow>
               (let s = segments v6;
                    well_known = s ! 0 = 0x0064 \<and> s ! 1 = 0xff9b \<and> s ! 2 = 0 \<and> s ! 3 = 0
                                   \<and> s ! 4 = 0 \<and> s ! 5 = 0;
                    local = s ! 0 = 0x0064 \<and> s ! 1 = 0xff9b \<and> s ! 2 = 1
                in if well_known \<or> local
                   then V4 (ipv4_from_u32 (push_bit 16 (ucast (s ! 6)) OR ucast (s ! 7)))
                   else ip)))"

definition is_link_local :: "ip_addr \<Rightarrow> bool" where
  "is_link_local ip =
     (case peer_address ip of
        V4 ip \<Rightarrow> v4_is_link_local ip
      | V6 ip \<Rightarrow> segments ip ! 0 AND 0xffc0 = 0xfe80)"

definition is_disallowed_peer_ip :: "ip_addr \<Rightarrow> bool" where
  "is_disallowed_peer_ip ip =
     (case peer_address ip of
        V4 ip \<Rightarrow> v4_is_unspecified ip \<or> v4_is_broadcast ip \<or> v4_is_multicast ip \<or> v4_is_link_local ip
      | V6 ip \<Rightarrow> v6_is_unspecified ip \<or> v6_is_multicast ip \<or> is_link_local (V6 ip))"

subsection \<open>Validation and resolution\<close>

datatype private_access = AccessNone | ListedPeer | Internal | Everything

definition validate_with :: "(string \<Rightarrow> url option) \<Rightarrow> string \<Rightarrow> string list \<Rightarrow> string list \<Rightarrow> egress_target_error + url \<times> private_access" where
  "validate_with url_parse raw hosts internal =
     (case parse_egress_target url_parse raw of
        Inr u \<Rightarrow> Inr (u, if host_is_listed u hosts then ListedPeer else AccessNone)
      | Inl NonPublic \<Rightarrow>
          and_then (validate_scheme_and_credentials url_parse raw) (\<lambda>u.
            let literal_disallowed =
                  (case url_host u of
                     Some (HostIpv4 ip) \<Rightarrow> is_disallowed_peer_ip (V4 ip)
                   | Some (HostIpv6 ip) \<Rightarrow> is_disallowed_peer_ip (V6 ip)
                   | _ \<Rightarrow> False);
                internal_name =
                  (case url_host u of Some (Domain host) \<Rightarrow> is_internal_name host | _ \<Rightarrow> False)
            in if internal_name \<and> host_is_listed u internal then Inr (u, Internal)
               else if host_is_listed u hosts \<and> \<not> literal_disallowed then Inr (u, ListedPeer)
               else Inl NonPublic)
      | Inl other \<Rightarrow> Inl other)"

definition validate_egress_target :: "environment \<Rightarrow> (string \<Rightarrow> url option) \<Rightarrow> string \<Rightarrow> egress_target_error + url" where
  "validate_egress_target env url_parse raw =
     (if \<not> private_egress_explicitly_allowed env
      then map_sum id fst
             (validate_with url_parse raw (private_egress_hosts env) (internal_egress_hosts env))
      else validate_scheme_and_credentials url_parse raw)"

record socket_addr =
  addr_ip :: ip_addr
  addr_port :: "16 word"

text \<open>How the lookup under its deadline can end: an answer, an error, or the deadline.\<close>

datatype lookup_outcome = Answered "socket_addr list" | LookupFailed | DeadlinePassed

fun lookup_with_deadline :: "lookup_outcome \<Rightarrow> egress_target_error + socket_addr list" where
  "lookup_with_deadline (Answered found) = (if found = [] then Inl Unresolvable else Inr found)"
| "lookup_with_deadline LookupFailed = Inl Unresolvable"
| "lookup_with_deadline DeadlinePassed = Inl ResolutionTimedOut"

definition ensure_allowed_addresses :: "socket_addr list \<Rightarrow> private_access \<Rightarrow> egress_target_error + unit" where
  "ensure_allowed_addresses addresses access =
     (let refused =
            (case access of
               Everything \<Rightarrow> False
             | Internal \<Rightarrow> False
             | ListedPeer \<Rightarrow> list_ex (\<lambda>a. is_disallowed_peer_ip (addr_ip a)) addresses
             | AccessNone \<Rightarrow> list_ex (\<lambda>a. \<not> is_public_ip (addr_ip a)) addresses)
      in if refused then Inl NonPublic else Inr ())"

record resolved_egress_target =
  target_url :: url
  target_host :: string
  target_addresses :: "socket_addr list"

definition resolve_egress_target :: "environment \<Rightarrow> (string \<Rightarrow> url option) \<Rightarrow> (string \<Rightarrow> 16 word \<Rightarrow> lookup_outcome) \<Rightarrow> string \<Rightarrow> egress_target_error + resolved_egress_target" where
  "resolve_egress_target env url_parse lookup raw =
     and_then (if private_egress_explicitly_allowed env
               then map_sum id (\<lambda>u. (u, Everything)) (validate_egress_target env url_parse raw)
               else validate_with url_parse raw (private_egress_hosts env)
                      (internal_egress_hosts env)) (\<lambda>(u, access).
     and_then (ok_or (url_host_str u) InvalidUrl) (\<lambda>host.
     and_then (ok_or (url_port u) InvalidUrl) (\<lambda>port.
     and_then (lookup_with_deadline (lookup host port)) (\<lambda>addresses.
     and_then (ensure_allowed_addresses addresses access) (\<lambda>_.
     Inr \<lparr>target_url = u, target_host = host, target_addresses = addresses\<rparr>)))))"

subsection \<open>The special-purpose address blocks\<close>

text \<open>
  The reference: an address as the number its octets or segments spell, a block as an address and
  a prefix length, and the blocks the code's comments and patterns stand for.
\<close>

definition in_block :: "nat \<Rightarrow> nat \<Rightarrow> nat \<Rightarrow> nat \<Rightarrow> bool" where
  "in_block width net len x \<longleftrightarrow> x div 2 ^ (width - len) = net div 2 ^ (width - len)"

fun v4_number :: "ipv4_addr \<Rightarrow> nat" where
  "v4_number (Ipv4 a b c d) = ((unat a * 256 + unat b) * 256 + unat c) * 256 + unat d"

definition v6_number :: "ipv6_addr \<Rightarrow> nat" where
  "v6_number ip = foldl (\<lambda>acc s. acc * 65536 + unat s) 0 (segments ip)"

definition v4_in :: "ipv4_addr \<times> nat \<Rightarrow> ipv4_addr \<Rightarrow> bool" where
  "v4_in blk ip = in_block 32 (v4_number (fst blk)) (snd blk) (v4_number ip)"

definition v6_in :: "ipv6_addr \<times> nat \<Rightarrow> ipv6_addr \<Rightarrow> bool" where
  "v6_in blk ip = in_block 128 (v6_number (fst blk)) (snd blk) (v6_number ip)"

definition special_v4_blocks :: "(ipv4_addr \<times> nat) list" where
  "special_v4_blocks =
     [(Ipv4 0 0 0 0, 8), (Ipv4 10 0 0 0, 8), (Ipv4 100 64 0 0, 10), (Ipv4 127 0 0 0, 8),
      (Ipv4 169 254 0 0, 16), (Ipv4 172 16 0 0, 12), (Ipv4 192 0 0 0, 24), (Ipv4 192 0 2 0, 24),
      (Ipv4 192 88 99 0, 24), (Ipv4 192 168 0 0, 16), (Ipv4 198 18 0 0, 15),
      (Ipv4 198 51 100 0, 24), (Ipv4 203 0 113 0, 24), (Ipv4 224 0 0 0, 4), (Ipv4 240 0 0 0, 4)]"

definition special_v6_blocks :: "(ipv6_addr \<times> nat) list" where
  "special_v6_blocks =
     [(Ipv6 0x2001 0 0 0 0 0 0 0, 32), (Ipv6 0x2001 2 0 0 0 0 0 0, 32),
      (Ipv6 0x2001 3 0 0 0 0 0 0, 32), (Ipv6 0x2001 4 0x112 0 0 0 0 0, 48),
      (Ipv6 0x2001 0x10 0 0 0 0 0 0, 28), (Ipv6 0x2001 0x20 0 0 0 0 0 0, 28),
      (Ipv6 0x2001 0x30 0 0 0 0 0 0, 28), (Ipv6 0x2001 0xdb8 0 0 0 0 0 0, 32),
      (Ipv6 0x2002 0 0 0 0 0 0 0, 16), (Ipv6 0x2620 0x4f 0x8000 0 0 0 0 0, 48),
      (Ipv6 0x3fff 0 0 0 0 0 0 0, 20)]"

definition global_unicast :: "ipv6_addr \<times> nat" where
  "global_unicast = (Ipv6 0x2000 0 0 0 0 0 0 0, 3)"

definition v4_mapped :: "ipv6_addr \<times> nat" where
  "v4_mapped = (Ipv6 0 0 0 0 0 0xffff 0 0, 96)"

definition low_v4 :: "ipv6_addr \<Rightarrow> ipv4_addr" where
  "low_v4 ip = (case segments ip of s \<Rightarrow>
     Ipv4 (hi_octet (s ! 6)) (lo_octet (s ! 6)) (hi_octet (s ! 7)) (lo_octet (s ! 7)))"

definition public_v4_by_blocks :: "ipv4_addr \<Rightarrow> bool" where
  "public_v4_by_blocks ip = list_all (\<lambda>blk. \<not> v4_in blk ip) special_v4_blocks"

fun public_by_blocks :: "ip_addr \<Rightarrow> bool" where
  "public_by_blocks (V4 ip) = public_v4_by_blocks ip"
| "public_by_blocks (V6 ip) =
     (if v6_in v4_mapped ip then public_v4_by_blocks (low_v4 ip)
      else v6_in global_unicast ip \<and> list_all (\<lambda>blk. \<not> v6_in blk ip) special_v6_blocks)"

lemma octet_less: "unat (a :: 8 word) < 256"
  using unsigned_less [of a, where 'a = nat] by simp

lemma segment_less: "unat (a :: 16 word) < 65536"
  using unsigned_less [of a, where 'a = nat] by simp

lemma radix_div: "0 < k \<Longrightarrow> (x * (m * k) + y) div k = x * m + y div (k :: nat)"
  using div_mult_self1 [of k y "x * m"] by (simp add: ac_simps)

lemma v4_prefixes:
  fixes a b c d :: "8 word"
  defines "n \<equiv> v4_number (Ipv4 a b c d)"
  shows "n div 2 ^ 8 = (unat a * 256 + unat b) * 256 + unat c"
    and "n div 2 ^ 16 = unat a * 256 + unat b"
    and "n div 2 ^ 24 = unat a"
    and "n div 2 ^ 17 = unat a * 128 + unat b div 2"
    and "n div 2 ^ 20 = unat a * 16 + unat b div 16"
    and "n div 2 ^ 22 = unat a * 4 + unat b div 64"
    and "n div 2 ^ 28 = unat a div 16"
proof -
  have l: "unat b < 256" "unat c < 256" "unat d < 256" by (rule octet_less)+
  show 8: "n div 2 ^ 8 = (unat a * 256 + unat b) * 256 + unat c" using l by (simp add: n_def)
  have "n div 2 ^ 16 = n div 2 ^ 8 div 2 ^ 8" by (simp add: div_mult2_eq [symmetric])
  then show 16: "n div 2 ^ 16 = unat a * 256 + unat b" using l unfolding 8 by simp
  have "n div 2 ^ 24 = n div 2 ^ 16 div 2 ^ 8" by (simp add: div_mult2_eq [symmetric])
  then show 24: "n div 2 ^ 24 = unat a" using l unfolding 16 by simp
  have "n div 2 ^ 17 = n div 2 ^ 16 div 2" by (simp add: div_mult2_eq [symmetric])
  moreover have "(x * 256 + y) div 2 = x * 128 + y div 2" for x y :: nat
    using radix_div [of 2 x 128 y] by simp
  ultimately show "n div 2 ^ 17 = unat a * 128 + unat b div 2" unfolding 16 by simp
  have "n div 2 ^ 20 = n div 2 ^ 16 div 16" by (simp add: div_mult2_eq [symmetric])
  moreover have "(x * 256 + y) div 16 = x * 16 + y div 16" for x y :: nat
    using radix_div [of 16 x 16 y] by simp
  ultimately show "n div 2 ^ 20 = unat a * 16 + unat b div 16" unfolding 16 by simp
  have "n div 2 ^ 22 = n div 2 ^ 16 div 64" by (simp add: div_mult2_eq [symmetric])
  moreover have "(x * 256 + y) div 64 = x * 4 + y div 64" for x y :: nat
    using radix_div [of 64 x 4 y] by simp
  ultimately show "n div 2 ^ 22 = unat a * 4 + unat b div 64" unfolding 16 by simp
  have "n div 2 ^ 28 = n div 2 ^ 24 div 16" by (simp add: div_mult2_eq [symmetric])
  then show "n div 2 ^ 28 = unat a div 16" unfolding 24 .
qed

lemma radix_256_inj:
  fixes a b x y :: nat
  assumes "b < k" "y < k"
  shows "a * k + b = x * k + y \<longleftrightarrow> a = x \<and> b = y"
proof
  assume eq: "a * k + b = x * k + y"
  have "(a * k + b) div k = a" "(x * k + y) div k = x"
    "(a * k + b) mod k = b" "(x * k + y) mod k = y" using assms by simp_all
  with eq show "a = x \<and> b = y" by metis
qed simp

lemma v4_in_iff:
  "v4_in (Ipv4 x y z w, 4) (Ipv4 a b c d) \<longleftrightarrow> unat a div 16 = unat x div 16"
  "v4_in (Ipv4 x y z w, 8) (Ipv4 a b c d) \<longleftrightarrow> a = x"
  "v4_in (Ipv4 x y z w, 10) (Ipv4 a b c d) \<longleftrightarrow> a = x \<and> unat b div 64 = unat y div 64"
  "v4_in (Ipv4 x y z w, 12) (Ipv4 a b c d) \<longleftrightarrow> a = x \<and> unat b div 16 = unat y div 16"
  "v4_in (Ipv4 x y z w, 15) (Ipv4 a b c d) \<longleftrightarrow> a = x \<and> unat b div 2 = unat y div 2"
  "v4_in (Ipv4 x y z w, 16) (Ipv4 a b c d) \<longleftrightarrow> a = x \<and> b = y"
  "v4_in (Ipv4 x y z w, 24) (Ipv4 a b c d) \<longleftrightarrow> a = x \<and> b = y \<and> c = z"
proof -
  note pre = v4_prefixes [of a b c d] v4_prefixes [of x y z w]
  have l: "unat b div 64 < 4" "unat y div 64 < 4" "unat b div 16 < 16" "unat y div 16 < 16"
    "unat b div 2 < 128" "unat y div 2 < 128"
    using octet_less [of b] octet_less [of y] by auto
  have exps: "(32 :: nat) - 4 = 28" "(32 :: nat) - 8 = 24" "(32 :: nat) - 10 = 22"
    "(32 :: nat) - 12 = 20" "(32 :: nat) - 15 = 17" "(32 :: nat) - 16 = 16" "(32 :: nat) - 24 = 8"
    by simp_all
  note inj = radix_256_inj [OF octet_less octet_less] radix_256_inj [OF l(1,2)]
    radix_256_inj [OF l(3,4)] radix_256_inj [OF l(5,6)]
  show "v4_in (Ipv4 x y z w, 4) (Ipv4 a b c d) \<longleftrightarrow> unat a div 16 = unat x div 16"
    "v4_in (Ipv4 x y z w, 8) (Ipv4 a b c d) \<longleftrightarrow> a = x"
    "v4_in (Ipv4 x y z w, 10) (Ipv4 a b c d) \<longleftrightarrow> a = x \<and> unat b div 64 = unat y div 64"
    "v4_in (Ipv4 x y z w, 12) (Ipv4 a b c d) \<longleftrightarrow> a = x \<and> unat b div 16 = unat y div 16"
    "v4_in (Ipv4 x y z w, 15) (Ipv4 a b c d) \<longleftrightarrow> a = x \<and> unat b div 2 = unat y div 2"
    "v4_in (Ipv4 x y z w, 16) (Ipv4 a b c d) \<longleftrightarrow> a = x \<and> b = y"
    "v4_in (Ipv4 x y z w, 24) (Ipv4 a b c d) \<longleftrightarrow> a = x \<and> b = y \<and> c = z"
    by (simp_all only: v4_in_def in_block_def fst_conv snd_conv exps pre inj word_unat_eq_iff conj_assoc)
qed

lemma is_public_ipv4_blocks: "is_public_ipv4 ip = public_v4_by_blocks ip"
proof (cases ip)
  case (Ipv4 a b c d)
  have r: "64 \<le> b \<and> b \<le> 127 \<longleftrightarrow> unat b div 64 = 1" "16 \<le> b \<and> b \<le> 31 \<longleftrightarrow> unat b div 16 = 1"
    "18 \<le> b \<and> b \<le> 19 \<longleftrightarrow> unat b div 2 = 9"
    "224 \<le> a \<and> a \<le> 255 \<longleftrightarrow> unat a div 16 = 14 \<or> unat a div 16 = 15"
    using octet_less [of a] by (auto simp: word_le_nat_alt)
  show ?thesis
    unfolding Ipv4 is_public_ipv4.simps public_v4_by_blocks_def special_v4_blocks_def r
    by (simp add: v4_in_iff)
qed

lemma v6_prefixes:
  fixes a b c d e f g h :: "16 word"
  defines "n \<equiv> v6_number (Ipv6 a b c d e f g h)"
  shows "n div 2 ^ 32 = ((((unat a * 65536 + unat b) * 65536 + unat c) * 65536 + unat d) * 65536 + unat e) * 65536 + unat f"
    and "n div 2 ^ 80 = (unat a * 65536 + unat b) * 65536 + unat c"
    and "n div 2 ^ 96 = unat a * 65536 + unat b"
    and "n div 2 ^ 112 = unat a"
    and "n div 2 ^ 125 = unat a div 8192"
    and "n div 2 ^ 108 = unat a * 16 + unat b div 4096"
    and "n div 2 ^ 100 = unat a * 4096 + unat b div 16"
proof -
  have step: "(x * 65536 + unat s) div 65536 = x" for x and s :: "16 word"
    using segment_less [of s] by simp
  have chain: "n div 2 ^ (k + j) = n div 2 ^ k div 2 ^ j" for k j
    by (simp add: power_add div_mult2_eq)
  have n: "n = ((((((unat a * 65536 + unat b) * 65536 + unat c) * 65536 + unat d) * 65536 + unat e) * 65536 + unat f) * 65536 + unat g) * 65536 + unat h"
    by (simp add: n_def v6_number_def)
  have 16: "n div 2 ^ 16 = (((((unat a * 65536 + unat b) * 65536 + unat c) * 65536 + unat d) * 65536 + unat e) * 65536 + unat f) * 65536 + unat g"
    unfolding n power_numeral using step [of _ h] by simp
  have s16: "(2 :: nat) ^ 16 = 65536" by simp
  show 32: "n div 2 ^ 32 = ((((unat a * 65536 + unat b) * 65536 + unat c) * 65536 + unat d) * 65536 + unat e) * 65536 + unat f"
    using chain [of 16 16] unfolding 16 unfolding s16 step by simp
  have 48: "n div 2 ^ 48 = (((unat a * 65536 + unat b) * 65536 + unat c) * 65536 + unat d) * 65536 + unat e"
    using chain [of 32 16] unfolding 32 unfolding s16 step by simp
  have 64: "n div 2 ^ 64 = ((unat a * 65536 + unat b) * 65536 + unat c) * 65536 + unat d"
    using chain [of 48 16] unfolding 48 unfolding s16 step by simp
  show 80: "n div 2 ^ 80 = (unat a * 65536 + unat b) * 65536 + unat c"
    using chain [of 64 16] unfolding 64 unfolding s16 step by simp
  show 96: "n div 2 ^ 96 = unat a * 65536 + unat b"
    using chain [of 80 16] unfolding 80 unfolding s16 step by simp
  show 112: "n div 2 ^ 112 = unat a"
    using chain [of 96 16] unfolding 96 unfolding s16 step by simp
  show "n div 2 ^ 125 = unat a div 8192"
    using chain [of 112 13] unfolding 112 by simp
  have "(x * 65536 + y) div 4096 = x * 16 + y div 4096" for x y :: nat
    using radix_div [of 4096 x 16 y] by simp
  then show "n div 2 ^ 108 = unat a * 16 + unat b div 4096"
    using chain [of 96 12] unfolding 96 by simp
  have "(x * 65536 + y) div 16 = x * 4096 + y div 16" for x y :: nat
    using radix_div [of 16 x 4096 y] by simp
  then show "n div 2 ^ 100 = unat a * 4096 + unat b div 16"
    using chain [of 96 4] unfolding 96 by simp
qed

lemma v6_in_div:
  "k \<le> 128 \<Longrightarrow> v6_in (x, k) y \<longleftrightarrow> v6_number y div 2 ^ (128 - k) = v6_number x div 2 ^ (128 - k)"
  by (simp add: v6_in_def in_block_def)

lemma v6_in_iff:
  "v6_in (Ipv6 p q r s t u v w, 3) (Ipv6 a b c d e f g h) \<longleftrightarrow> unat a div 8192 = unat p div 8192"
  "v6_in (Ipv6 p q r s t u v w, 16) (Ipv6 a b c d e f g h) \<longleftrightarrow> a = p"
  "v6_in (Ipv6 p q r s t u v w, 20) (Ipv6 a b c d e f g h) \<longleftrightarrow>
     a = p \<and> unat b div 4096 = unat q div 4096"
  "v6_in (Ipv6 p q r s t u v w, 28) (Ipv6 a b c d e f g h) \<longleftrightarrow> a = p \<and> unat b div 16 = unat q div 16"
  "v6_in (Ipv6 p q r s t u v w, 32) (Ipv6 a b c d e f g h) \<longleftrightarrow> a = p \<and> b = q"
  "v6_in (Ipv6 p q r s t u v w, 48) (Ipv6 a b c d e f g h) \<longleftrightarrow> a = p \<and> b = q \<and> c = r"
  "v6_in (Ipv6 p q r s t u v w, 96) (Ipv6 a b c d e f g h) \<longleftrightarrow>
     a = p \<and> b = q \<and> c = r \<and> d = s \<and> e = t \<and> f = u"
proof -
  note pre = v6_prefixes [of a b c d e f g h] v6_prefixes [of p q r s t u v w]
  have l: "unat b div 4096 < 16" "unat q div 4096 < 16" "unat b div 16 < 4096" "unat q div 16 < 4096"
    using segment_less [of b] segment_less [of q] by auto
  have exps: "(128 :: nat) - 3 = 125" "(128 :: nat) - 16 = 112" "(128 :: nat) - 20 = 108"
    "(128 :: nat) - 28 = 100" "(128 :: nat) - 32 = 96" "(128 :: nat) - 48 = 80" "(128 :: nat) - 96 = 32"
    by simp_all
  have le: "(3 :: nat) \<le> 128" "(16 :: nat) \<le> 128" "(20 :: nat) \<le> 128" "(28 :: nat) \<le> 128"
    "(32 :: nat) \<le> 128" "(48 :: nat) \<le> 128" "(96 :: nat) \<le> 128" by simp_all
  note iff = v6_in_div [OF le(1)] v6_in_div [OF le(2)] v6_in_div [OF le(3)] v6_in_div [OF le(4)]
    v6_in_div [OF le(5)] v6_in_div [OF le(6)] v6_in_div [OF le(7)]
  note inj = radix_256_inj [OF segment_less segment_less] radix_256_inj [OF l(1,2)]
    radix_256_inj [OF l(3,4)]
  show "v6_in (Ipv6 p q r s t u v w, 3) (Ipv6 a b c d e f g h) \<longleftrightarrow> unat a div 8192 = unat p div 8192"
    "v6_in (Ipv6 p q r s t u v w, 16) (Ipv6 a b c d e f g h) \<longleftrightarrow> a = p"
    "v6_in (Ipv6 p q r s t u v w, 20) (Ipv6 a b c d e f g h) \<longleftrightarrow>
       a = p \<and> unat b div 4096 = unat q div 4096"
    "v6_in (Ipv6 p q r s t u v w, 28) (Ipv6 a b c d e f g h) \<longleftrightarrow> a = p \<and> unat b div 16 = unat q div 16"
    "v6_in (Ipv6 p q r s t u v w, 32) (Ipv6 a b c d e f g h) \<longleftrightarrow> a = p \<and> b = q"
    "v6_in (Ipv6 p q r s t u v w, 48) (Ipv6 a b c d e f g h) \<longleftrightarrow> a = p \<and> b = q \<and> c = r"
    "v6_in (Ipv6 p q r s t u v w, 96) (Ipv6 a b c d e f g h) \<longleftrightarrow>
       a = p \<and> b = q \<and> c = r \<and> d = s \<and> e = t \<and> f = u"
    by (simp_all only: iff exps pre inj word_unat_eq_iff conj_assoc)
qed

text \<open>A mask that keeps the upper bits compares them.\<close>

lemma mask_is_div:
  fixes s x :: "16 word"
  shows "s AND push_bit k (- 1) = x AND push_bit k (- 1) \<longleftrightarrow> unat s div 2 ^ k = unat x div 2 ^ k"
proof -
  have up: "y AND push_bit k (- 1) = push_bit k (drop_bit k y)" for y :: "16 word"
    by (rule bit_word_eqI) (auto simp: bit_simps)
  have down: "drop_bit k (push_bit k (drop_bit k y)) = drop_bit k y" for y :: "16 word"
    by (rule bit_word_eqI) (auto simp: bit_simps dest: bit_imp_le_length)
  have "s AND push_bit k (- 1) = x AND push_bit k (- 1) \<longleftrightarrow> drop_bit k s = drop_bit k x"
    unfolding up by (metis down)
  also have "\<dots> \<longleftrightarrow> unat (drop_bit k s) = unat (drop_bit k x)" by (simp only: word_unat_eq_iff)
  finally show ?thesis unfolding unat_drop_bit_eq unfolding drop_bit_eq_div .
qed

lemma mask_tests:
  fixes s :: "16 word"
  shows "s AND 0xe000 = 0x2000 \<longleftrightarrow> unat s div 8192 = 1"
    and "s AND 0xf000 = 0 \<longleftrightarrow> unat s div 4096 = 0"
    and "s AND 0xfff0 = 0x0010 \<longleftrightarrow> unat s div 16 = 1"
    and "s AND 0xfff0 = 0x0020 \<longleftrightarrow> unat s div 16 = 2"
    and "s AND 0xfff0 = 0x0030 \<longleftrightarrow> unat s div 16 = 3"
proof -
  have m: "push_bit 13 (- 1) = (0xe000 :: 16 word)" "push_bit 12 (- 1) = (0xf000 :: 16 word)"
    "push_bit 4 (- 1) = (0xfff0 :: 16 word)" by code_simp+
  show "s AND 0xe000 = 0x2000 \<longleftrightarrow> unat s div 8192 = 1"
    using mask_is_div [of s 13 "0x2000"] unfolding m by simp
  show "s AND 0xf000 = 0 \<longleftrightarrow> unat s div 4096 = 0"
    using mask_is_div [of s 12 0] unfolding m by simp
  show "s AND 0xfff0 = 0x0010 \<longleftrightarrow> unat s div 16 = 1"
    using mask_is_div [of s 4 "0x0010"] unfolding m by simp
  show "s AND 0xfff0 = 0x0020 \<longleftrightarrow> unat s div 16 = 2"
    using mask_is_div [of s 4 "0x0020"] unfolding m by simp
  show "s AND 0xfff0 = 0x0030 \<longleftrightarrow> unat s div 16 = 3"
    using mask_is_div [of s 4 "0x0030"] unfolding m by simp
qed

lemma is_public_ipv6_blocks: "is_public_ipv6 ip = public_by_blocks (V6 ip)"
proof (cases ip)
  case (Ipv6 a b c d e f g h)
  have mapped: "v6_in v4_mapped ip \<longleftrightarrow> to_ipv4_mapped ip \<noteq> None"
    by (simp add: Ipv6 v4_mapped_def v6_in_iff)
  have low: "to_ipv4_mapped ip = Some m \<Longrightarrow> m = low_v4 ip" for m
    by (auto simp: Ipv6 low_v4_def split: if_splits)
  have native: "v6_in global_unicast ip \<and> list_all (\<lambda>blk. \<not> v6_in blk ip) special_v6_blocks \<longleftrightarrow>
      is_public_ipv6 ip" if "to_ipv4_mapped ip = None"
    unfolding is_public_ipv6_def that option.case
    unfolding global_unicast_def special_v6_blocks_def Ipv6
    by (simp add: v6_in_iff mask_tests Let_def) blast
  show ?thesis
  proof (cases "to_ipv4_mapped ip")
    case None
    then show ?thesis using mapped native by simp
  next
    case (Some m)
    then show ?thesis
      using mapped low by (simp add: is_public_ipv6_def is_public_ipv4_blocks)
  qed
qed

subsection \<open>What no peer may be\<close>

text \<open>
  The reference for a listed peer: the IPv4 address an IPv6 address carries (IPv4-mapped, the
  well-known NAT64 prefix and the local-use one), and the blocks refused for either family.
\<close>

definition carrier_blocks :: "(ipv6_addr \<times> nat) list" where
  "carrier_blocks =
     [v4_mapped, (Ipv6 0x64 0xff9b 0 0 0 0 0 0, 96), (Ipv6 0x64 0xff9b 1 0 0 0 0 0, 48)]"

definition no_peer_v4_blocks :: "(ipv4_addr \<times> nat) list" where
  "no_peer_v4_blocks =
     [(Ipv4 0 0 0 0, 32), (Ipv4 169 254 0 0, 16), (Ipv4 224 0 0 0, 4), (Ipv4 255 255 255 255, 32)]"

definition no_peer_v6_blocks :: "(ipv6_addr \<times> nat) list" where
  "no_peer_v6_blocks =
     [(Ipv6 0 0 0 0 0 0 0 0, 128), (Ipv6 0xfe80 0 0 0 0 0 0 0, 10), (Ipv6 0xff00 0 0 0 0 0 0 0, 8)]"

definition no_peer_v4 :: "ipv4_addr \<Rightarrow> bool" where
  "no_peer_v4 ip = list_ex (\<lambda>blk. v4_in blk ip) no_peer_v4_blocks"

fun no_peer :: "ip_addr \<Rightarrow> bool" where
  "no_peer (V4 ip) = no_peer_v4 ip"
| "no_peer (V6 ip) =
     (if list_ex (\<lambda>blk. v6_in blk ip) carrier_blocks then no_peer_v4 (low_v4 ip)
      else list_ex (\<lambda>blk. v6_in blk ip) no_peer_v6_blocks)"

lemma v4_in_32: "v4_in (Ipv4 x y z w, 32) (Ipv4 a b c d) \<longleftrightarrow> a = x \<and> b = y \<and> c = z \<and> d = w"
  by (simp only: v4_in_def in_block_def fst_conv snd_conv diff_self_eq_0 power_0 div_by_1
      v4_number.simps radix_256_inj [OF octet_less octet_less] word_unat_eq_iff conj_assoc)

lemma v6_number_Ipv6:
  "v6_number (Ipv6 a b c d e f g h) =
     ((((((unat a * 65536 + unat b) * 65536 + unat c) * 65536 + unat d) * 65536 + unat e) * 65536
        + unat f) * 65536 + unat g) * 65536 + unat h"
  by (simp add: v6_number_def)

lemma v6_in_128:
  "v6_in (Ipv6 p q r s t u v w, 128) (Ipv6 a b c d e f g h) \<longleftrightarrow>
     a = p \<and> b = q \<and> c = r \<and> d = s \<and> e = t \<and> f = u \<and> g = v \<and> h = w"
  by (simp only: v6_in_def in_block_def fst_conv snd_conv diff_self_eq_0 power_0 div_by_1
      v6_number_Ipv6 radix_256_inj [OF segment_less segment_less] word_unat_eq_iff conj_assoc)

lemma v6_in_short:
  "v6_in (Ipv6 p q r s t u v w, 8) (Ipv6 a b c d e f g h) \<longleftrightarrow> unat a div 256 = unat p div 256"
  "v6_in (Ipv6 p q r s t u v w, 10) (Ipv6 a b c d e f g h) \<longleftrightarrow> unat a div 64 = unat p div 64"
proof -
  have "n div 2 ^ 120 = n div 2 ^ 112 div 256" "n div 2 ^ 118 = n div 2 ^ 112 div 64" for n :: nat
    by (simp_all add: div_mult2_eq [symmetric])
  then show "v6_in (Ipv6 p q r s t u v w, 8) (Ipv6 a b c d e f g h) \<longleftrightarrow> unat a div 256 = unat p div 256"
    "v6_in (Ipv6 p q r s t u v w, 10) (Ipv6 a b c d e f g h) \<longleftrightarrow> unat a div 64 = unat p div 64"
    using v6_prefixes(4) by (simp_all add: v6_in_div del: power_numeral)
qed

lemma peer_mask_tests:
  fixes s :: "16 word"
  shows "s AND 0xffc0 = 0xfe80 \<longleftrightarrow> unat s div 64 = 1018"
    and "s AND 0xff00 = 0xff00 \<longleftrightarrow> unat s div 256 = 255"
proof -
  have m: "push_bit 6 (- 1) = (0xffc0 :: 16 word)" "push_bit 8 (- 1) = (0xff00 :: 16 word)"
    by code_simp+
  show "s AND 0xffc0 = 0xfe80 \<longleftrightarrow> unat s div 64 = 1018"
    using mask_is_div [of s 6 "0xfe80"] unfolding m by simp
  show "s AND 0xff00 = 0xff00 \<longleftrightarrow> unat s div 256 = 255"
    using mask_is_div [of s 8 "0xff00"] unfolding m by simp
qed

lemma embedded_v4:
  "ipv4_from_u32 (push_bit 16 (ucast g) OR ucast h) =
     Ipv4 (hi_octet g) (lo_octet g) (hi_octet h) (lo_octet h)"
  unfolding ipv4_from_u32_def hi_octet_def lo_octet_def ipv4_addr.inject
  by (intro conjI; rule bit_word_eqI) (auto simp: bit_simps dest: bit_imp_le_length)

lemma peer_address_carried:
  "peer_address (V6 ip) =
     (if list_ex (\<lambda>blk. v6_in blk ip) carrier_blocks then V4 (low_v4 ip) else V6 ip)"
proof (cases ip)
  case (Ipv6 a b c d e f g h)
  show ?thesis
    unfolding Ipv6 carrier_blocks_def v4_mapped_def peer_address_def low_v4_def
    by (simp add: v6_in_iff embedded_v4 Let_def)
qed

lemma no_peer_v4_iff:
  "no_peer_v4 ip \<longleftrightarrow>
     v4_is_unspecified ip \<or> v4_is_broadcast ip \<or> v4_is_multicast ip \<or> v4_is_link_local ip"
proof (cases ip)
  case (Ipv4 a b c d)
  have "224 \<le> a \<and> a \<le> 239 \<longleftrightarrow> unat a div 16 = 14" by (auto simp: word_le_nat_alt)
  then show ?thesis
    by (auto simp: Ipv4 no_peer_v4_def no_peer_v4_blocks_def v4_in_iff v4_in_32)
qed

lemma no_peer_v6_iff:
  "list_ex (\<lambda>blk. v6_in blk ip) no_peer_v6_blocks \<longleftrightarrow>
     v6_is_unspecified ip \<or> v6_is_multicast ip \<or> segments ip ! 0 AND 0xffc0 = 0xfe80"
proof (cases ip)
  case (Ipv6 a b c d e f g h)
  then show ?thesis
    by (auto simp: no_peer_v6_blocks_def v6_in_128 v6_in_short v6_is_unspecified_def
        v6_is_multicast_def peer_mask_tests)
qed

lemma is_disallowed_peer_blocks: "is_disallowed_peer_ip ip = no_peer ip"
proof (cases ip)
  case (V4 v)
  then show ?thesis by (simp add: is_disallowed_peer_ip_def peer_address_def no_peer_v4_iff)
next
  case (V6 v)
  then show ?thesis
    by (simp add: is_disallowed_peer_ip_def is_link_local_def peer_address_carried no_peer_v4_iff
        no_peer_v6_iff)
qed

lemma public_is_no_v4_peer: "is_public_ipv4 ip \<Longrightarrow> \<not> no_peer_v4 ip"
proof (cases ip)
  case (Ipv4 a b c d)
  assume pub: "is_public_ipv4 ip"
  have "a \<le> 255" using octet_less [of a] by (simp add: word_le_nat_alt)
  then have "\<not> 224 \<le> a" "a \<noteq> 0" "\<not> (a = 169 \<and> b = 254)"
    using pub unfolding Ipv4 is_public_ipv4.simps by blast+
  moreover from this(1) have "a \<noteq> 255" by auto
  ultimately show ?thesis by (simp add: Ipv4 no_peer_v4_iff)
qed

lemma public_is_no_peer: "is_public_ip ip \<Longrightarrow> \<not> no_peer ip"
proof (cases ip)
  case (V6 v)
  assume pub: "is_public_ip ip"
  obtain a b c d e f g h where v: "v = Ipv6 a b c d e f g h" by (cases v)
  show ?thesis
  proof (cases "v6_in v4_mapped v")
    case True
    then have "public_v4_by_blocks (low_v4 v)" using pub V6 by (simp add: is_public_ipv6_blocks)
    then show ?thesis
      using True V6 public_is_no_v4_peer by (simp add: carrier_blocks_def is_public_ipv4_blocks)
  next
    case False
    then have "v6_in global_unicast v" using pub V6 by (simp add: is_public_ipv6_blocks)
    then have "unat a div 8192 = 1" by (simp add: v global_unicast_def v6_in_iff)
    then have "8192 \<le> unat a" "unat a < 16384" by auto
    then show ?thesis
      using False
      by (auto simp: V6 v carrier_blocks_def no_peer_v6_blocks_def v6_in_iff v6_in_128 v6_in_short)
  qed
qed (simp add: public_is_no_v4_peer)

subsection \<open>What the lists can open\<close>

lemma ascii_lower_punctuation: "code t < 65 \<Longrightarrow> ascii_lower c = t \<longleftrightarrow> c = t"
  using arg_cong [of "ascii_lower c" t code] by (auto simp: ascii_lower_def)

lemma trim_end_lower:
  "trim_end_matches CHR ''.'' (to_ascii_lowercase s) = to_ascii_lowercase (trim_end_matches CHR ''.'' s)"
proof -
  have "ascii_lower c = CHR ''.'' \<longleftrightarrow> c = CHR ''.''" for c by (simp add: ascii_lower_punctuation)
  then show ?thesis
    by (simp add: trim_end_matches_def to_ascii_lowercase_def rev_map dropWhile_map comp_def)
qed

lemma ip_to_string_text: "ip_text (ip_to_string ip)"
  by (rule parse_ip_text [OF parse_ip_to_string])

lemma internal_is_no_ip_text:
  assumes "is_internal_name s"
  shows "\<not> ip_text s"
proof -
  let ?h = "to_ascii_lowercase (trim_end_matches CHR ''.'' s)"
  have "suffix ''.internal'' ?h"
    using assms by (simp add: is_internal_name_def Let_def ends_with_suffix)
  then have "CHR ''n'' \<in> set ?h" by (auto simp: suffix_def)
  then obtain c where c: "c \<in> set s" "ascii_lower c = CHR ''n''"
    using set_trim_end_matches [of "CHR ''.''" s] by (auto simp: to_ascii_lowercase_def)
  have "to_digit 16 (ascii_lower c) = None" unfolding c(2) by (simp add: to_digit_def)
  then have "to_digit 16 c = None" by simp
  moreover have "c \<noteq> CHR ''.''" "c \<noteq> CHR '':''" using c(2) by (auto simp: ascii_lower_def)
  ultimately show ?thesis using c(1) by (auto simp: ip_text_def)
qed

end
