(* ===== verification/Egress_Safety.thy ===== *)
theory Egress_Safety
  imports Egress_Guard
begin

text \<open>
  What the egress guard promises.  Every address a resolved target carries is public, or the
  operator named its host; no address that may never be a peer gets through except for a listed
  \<open>.internal\<close> name, whose address is not judged.  The octet and segment patterns of the code are
  the address blocks they stand for.  The \<open>.internal\<close> list opens nothing but \<open>.internal\<close> names, and
  an address on the private list is matched in any of its spellings.
\<close>

subsection \<open>One validation\<close>

lemmas guard_defs = validate_scheme_and_credentials_def parse_egress_target_def

definition plain_http :: "url \<Rightarrow> bool" where
  "plain_http u \<longleftrightarrow>
     url_scheme u \<in> {''http'', ''https''} \<and> url_host u \<noteq> None \<and> url_username u = []
     \<and> url_password u = None \<and> length (url_as_str u) \<le> 2048"

lemma validate_scheme_ok:
  assumes "validate_scheme_and_credentials up raw = Inr u"
  shows "plain_http u" "up raw = Some u"
  using assms
  by (auto simp: validate_scheme_and_credentials_def and_then_Inr plain_http_def
      MAX_EGRESS_URL_LEN_def split: if_splits)

lemma parse_target_ok:
  assumes "parse_egress_target up raw = Inr u"
  shows "validate_scheme_and_credentials up raw = Inr u"
  using assms
  by (auto simp: guard_defs and_then_Inr split: if_splits option.splits url_host.splits)

lemma validate_with_cases:
  assumes "validate_with up raw hosts internal = Inr (u, access)"
  shows "validate_scheme_and_credentials up raw = Inr u"
    and "access = Internal \<Longrightarrow>
           (\<exists>h. url_host u = Some (Domain h) \<and> is_internal_name h) \<and> host_is_listed u internal"
    and "access = ListedPeer \<Longrightarrow> host_is_listed u hosts"
    and "access \<noteq> Everything"
proof -
  consider (outright) "parse_egress_target up raw = Inr u"
      "access = (if host_is_listed u hosts then ListedPeer else AccessNone)"
    | (opened) "validate_scheme_and_credentials up raw = Inr u"
      "access = Internal \<and> (case url_host u of Some (Domain h) \<Rightarrow> is_internal_name h | _ \<Rightarrow> False)
         \<and> host_is_listed u internal \<or> access = ListedPeer \<and> host_is_listed u hosts"
    using assms
    by (auto simp: validate_with_def Let_def and_then_Inr
        split: sum.splits egress_target_error.splits if_splits)
  then show "validate_scheme_and_credentials up raw = Inr u"
    "access = Internal \<Longrightarrow>
       (\<exists>h. url_host u = Some (Domain h) \<and> is_internal_name h) \<and> host_is_listed u internal"
    "access = ListedPeer \<Longrightarrow> host_is_listed u hosts" "access \<noteq> Everything"
    by (cases; auto dest: parse_target_ok split: if_splits option.splits url_host.splits)+
qed

lemma ensure_allowed_ok:
  assumes "ensure_allowed_addresses as access = Inr ()" "a \<in> set as"
  shows "access = AccessNone \<Longrightarrow> is_public_ip (addr_ip a)"
    and "access = ListedPeer \<Longrightarrow> \<not> no_peer (addr_ip a)"
  using assms
  by (auto simp: ensure_allowed_addresses_def list_ex_iff is_disallowed_peer_blocks split: if_splits)

lemma resolve_ok:
  assumes "resolve_egress_target env up lookup raw = Inr t" "\<not> private_egress_explicitly_allowed env"
  obtains access port where
    "validate_with up raw (private_egress_hosts env) (internal_egress_hosts env) =
       Inr (target_url t, access)"
    "ensure_allowed_addresses (target_addresses t) access = Inr ()"
    "url_host_str (target_url t) = Some (target_host t)" "url_port (target_url t) = Some port"
    "lookup (target_host t) port = Answered (target_addresses t)" "target_addresses t \<noteq> []"
proof -
  have found: "lookup_with_deadline out = Inr as \<Longrightarrow> out = Answered as \<and> as \<noteq> []" for out as
    by (cases out) (auto split: if_splits)
  show ?thesis
    using assms found that
    by (auto simp: resolve_egress_target_def and_then_Inr and_then_unit)
qed

subsection \<open>Names and literals on the lists\<close>

lemma trim_end_idem [simp]: "trim_end_matches c (trim_end_matches c s) = trim_end_matches c s"
proof -
  have "dropWhile P (dropWhile P xs) = dropWhile P xs" for P and xs :: string
    by (induction xs) simp_all
  then show ?thesis by (simp add: trim_end_matches_def)
qed

lemma is_internal_trimmed:
  "is_internal_name (trim_end_matches CHR ''.'' s) = is_internal_name s"
  "is_internal_name (to_ascii_lowercase s) = is_internal_name s"
  by (simp_all add: is_internal_name_def trim_end_lower)

lemma host_is_listed_iff:
  "host_is_listed u hosts \<longleftrightarrow>
     (\<exists>key. url_host_key u = Some key \<and> (\<exists>e \<in> set hosts. trim_end_matches CHR ''.'' e = key
        \<or> (\<exists>ip. parse_ip_addr e = Some ip \<and> parse_ip_addr key = Some ip)))"
proof (cases "url_host_key u")
  case (Some key)
  have "(case (parse_ip_addr e, parse_ip_addr key) of (Some a, Some b) \<Rightarrow> a = b | _ \<Rightarrow> False) \<longleftrightarrow>
      (\<exists>ip. parse_ip_addr e = Some ip \<and> parse_ip_addr key = Some ip)" for e
    by (cases "parse_ip_addr e"; cases "parse_ip_addr key") auto
  then show ?thesis by (simp add: host_is_listed_def Some list_ex_iff)
qed (simp add: host_is_listed_def)

lemma internal_listed:
  assumes "host_is_listed u (parse_internal_egress_hosts raw)"
  shows "\<exists>h. url_host u = Some (Domain h) \<and> is_internal_name h"
proof -
  obtain key e where key: "url_host_key u = Some key"
    and e: "e \<in> set (parse_internal_egress_hosts raw)"
    and eq: "trim_end_matches CHR ''.'' e = key \<or>
        (\<exists>ip. parse_ip_addr e = Some ip \<and> parse_ip_addr key = Some ip)"
    using assms unfolding host_is_listed_iff by blast
  have internal: "is_internal_name e" using e by (simp add: parse_internal_egress_hosts_def)
  then have "parse_ip_addr e = None" using internal_is_no_ip_text parse_ip_text by fastforce
  then have "is_internal_name key" using eq internal is_internal_trimmed(1) by auto
  then show ?thesis
    using key internal_is_no_ip_text ip_to_string_text
    by (auto simp: url_host_key_def is_internal_trimmed simp del: ip_to_string.simps
        split: option.splits url_host.splits)
qed

fun ip_host :: "ip_addr \<Rightarrow> url_host" where
  "ip_host (V4 ip) = HostIpv4 ip"
| "ip_host (V6 ip) = HostIpv6 ip"

lemma literal_key: "url_host u = Some (ip_host ip) \<Longrightarrow> url_host_key u = Some (ip_to_string ip)"
  by (cases ip) (simp_all add: url_host_key_def)

text \<open>An entry of the private list as it is read: trimmed, lower case, without brackets.\<close>

definition read_entry :: "string \<Rightarrow> string" where
  "read_entry e = unbracket (to_ascii_lowercase (trim_end_matches CHR ''.'' (trim e)))"

lemma read_entry_listed:
  assumes "e \<in> set (split_on CHR '','' raw)" "parse_ip_addr (read_entry e) = Some ip"
  shows "read_entry e \<in> set (parse_private_egress_hosts raw)"
proof -
  have "to_ascii_lowercase (trim_end_matches CHR ''.'' (trim e)) \<noteq> []"
  proof
    assume "to_ascii_lowercase (trim_end_matches CHR ''.'' (trim e)) = []"
    then have "read_entry e = []"
      unfolding read_entry_def by (simp add: unbracket_def strip_prefix_def starts_with_def)
    then show False
      using assms(2)
      by (simp add: parse_ip_addr_def whole_def read_ipv6_addr_def read_groups_end group_end_def)
  qed
  then show ?thesis
    using assms unfolding parse_private_egress_hosts_def read_entry_def by force
qed

lemma literal_listed:
  assumes "url_host u = Some (ip_host ip)" "e \<in> set hosts" "parse_ip_addr e = Some ip"
  shows "host_is_listed u hosts"
  using assms unfolding host_is_listed_iff by (metis literal_key parse_ip_to_string)

subsection \<open>The guarantees\<close>

text \<open>
  C9: Outside the development escape hatch, and always in production, a target that resolves is a
  plain http or https URL without credentials and of bounded length, is one that the check made when
  it was registered also accepts, and has at least one address.  All its addresses lie outside every
  special-purpose block; or the operator listed the host as a private peer, and then no address is
  unspecified, multicast, broadcast or link-local, also not inside an IPv4-mapped or NAT64 address;
  or the host is a name under \<open>.internal\<close> that the operator listed.
\<close>

theorem egress_reaches_only_public_or_named:
  assumes "resolve_egress_target env url_parse lookup raw = Inr t"
    and "env ''MAIDAN_ENV'' = Some ''production'' \<or> env ''MAIDAN_ALLOW_PRIVATE_EGRESS'' \<noteq> Some ''1''"
  shows "plain_http (target_url t) \<and> target_addresses t \<noteq> []
    \<and> validate_egress_target env url_parse raw = Inr (target_url t)
    \<and> ((\<forall>a \<in> set (target_addresses t). public_by_blocks (addr_ip a))
       \<or> host_is_listed (target_url t) (private_egress_hosts env)
         \<and> (\<forall>a \<in> set (target_addresses t). \<not> no_peer (addr_ip a))
       \<or> (\<exists>h. url_host (target_url t) = Some (Domain h) \<and> is_internal_name h)
         \<and> host_is_listed (target_url t) (internal_egress_hosts env))"
proof -
  have shut: "\<not> private_egress_explicitly_allowed env"
    using assms(2) by (auto simp: private_egress_explicitly_allowed_def)
  obtain access port where valid:
      "validate_with url_parse raw (private_egress_hosts env) (internal_egress_hosts env) =
         Inr (target_url t, access)"
    and allowed: "ensure_allowed_addresses (target_addresses t) access = Inr ()"
    and some: "target_addresses t \<noteq> []"
    using resolve_ok [OF assms(1) shut] by blast
  note how = validate_with_cases [OF valid]
  have "is_public_ip ip = public_by_blocks ip" for ip
    by (cases ip) (simp_all add: is_public_ipv4_blocks is_public_ipv6_blocks)
  then have "access = AccessNone \<Longrightarrow> \<forall>a \<in> set (target_addresses t). public_by_blocks (addr_ip a)"
    using ensure_allowed_ok(1) [OF allowed] by blast
  moreover have "access = ListedPeer \<Longrightarrow> \<forall>a \<in> set (target_addresses t). \<not> no_peer (addr_ip a)"
    using ensure_allowed_ok(2) [OF allowed] by blast
  moreover have "validate_egress_target env url_parse raw = Inr (target_url t)"
    using shut valid by (simp add: validate_egress_target_def)
  ultimately show ?thesis
    using how some validate_scheme_ok(1) [OF how(1)] by (cases access) blast+
qed

text \<open>
  C25: The address tests are the address blocks.  An address is public exactly when it lies outside
  every special-purpose block (for IPv6: when it is global unicast and outside the blocks carved out
  of it, or carries a public IPv4 address), and refused for a peer exactly when it, or the IPv4
  address it carries, is unspecified, multicast, broadcast or link-local.  No public address is
  refused as a peer, so listing a host never closes a target that was open.
\<close>

theorem address_tests_are_the_blocks:
  "is_public_ip ip = public_by_blocks ip \<and> is_disallowed_peer_ip ip = no_peer ip
   \<and> \<not> (is_public_ip ip \<and> is_disallowed_peer_ip ip)"
proof -
  have "is_public_ip ip = public_by_blocks ip"
    by (cases ip) (simp_all add: is_public_ipv4_blocks is_public_ipv6_blocks)
  then show ?thesis using public_is_no_peer is_disallowed_peer_blocks by blast
qed

text \<open>
  C34: The operator's lists open what they name.  Whatever the text of the \<open>.internal\<close> list, a URL
  it lists has a name under \<open>.internal\<close> for its host: no address literal and no other domain.  An
  entry of the private list that spells an address, in any notation and with or without brackets,
  lists every URL whose host is that address.
\<close>

theorem egress_lists_open_what_they_name:
  "(host_is_listed u (parse_internal_egress_hosts raw) \<longrightarrow>
      (\<exists>h. url_host u = Some (Domain h) \<and> is_internal_name h))
   \<and> (\<forall>e \<in> set (split_on CHR '','' raw). \<forall>ip.
        parse_ip_addr (read_entry e) = Some ip \<longrightarrow> url_host u = Some (ip_host ip) \<longrightarrow>
        host_is_listed u (parse_private_egress_hosts raw))"
  using internal_listed literal_listed read_entry_listed by blast

subsection \<open>Runs of the guard\<close>

definition sample_env :: environment where
  "sample_env =
     [''MAIDAN_ENV'' \<mapsto> ''production'', ''MAIDAN_ALLOW_PRIVATE_EGRESS'' \<mapsto> ''1'',
      ''MAIDAN_PRIVATE_EGRESS_HOSTS'' \<mapsto> ''Peer.Example., [FD00:0::1]'']"

definition sample_url :: "url_host \<Rightarrow> string \<Rightarrow> url" where
  "sample_url h s =
     \<lparr>url_as_str = ''https://'' @ s @ ''/'', url_scheme = ''https'', url_host = Some h,
      url_username = [], url_password = None, url_host_str = Some s, url_port = Some 443\<rparr>"

definition sample_peer :: url where
  "sample_peer = sample_url (Domain ''peer.example'') ''peer.example''"

definition sample_resolve :: "ipv4_addr \<Rightarrow> egress_target_error + resolved_egress_target" where
  "sample_resolve ip =
     resolve_egress_target sample_env (\<lambda>_. Some sample_peer)
       (\<lambda>_ _. Answered [\<lparr>addr_ip = V4 ip, addr_port = 443\<rparr>]) ''https://peer.example''"

text \<open>Evaluating the address parser on a literal.\<close>

lemma read_groups_numeral:
  "read_groups (numeral k) i s =
     (case (if 0 < pred_numeral k then read_separator CHR '':'' i read_ipv4_addr s else None) of
        Some (Ipv4 a b c d, r) \<Rightarrow> ([be16 a b, be16 c d], True, r)
      | None \<Rightarrow>
          (case read_separator CHR '':'' i (read_number 16 4 True 65536) s of
             None \<Rightarrow> ([], False, s)
           | Some (g, r) \<Rightarrow>
               (case read_groups (pred_numeral k) (i + 1) r of (gs, v4, r') \<Rightarrow>
                  (of_nat g # gs, v4, r'))))"
  by (simp only: numeral_eq_Suc read_groups.simps)

lemmas ip_eval = parse_ip_addr_def whole_def read_ipv6_addr_def read_ipv4_addr_def read_octet_def
  read_separator_def read_number_def to_digit_def starts_with_def read_groups_numeral of_segments_def
  nth_append

lemma sample_literal: "parse_ip_addr ''fd00:0::1'' = Some (V6 (Ipv6 0xfd00 0 0 0 0 0 0 1))"
  by (simp add: ip_eval)

lemma sample_hosts: "private_egress_hosts sample_env = [''peer.example'', ''fd00:0::1'']"
proof -
  have "map unbracket
         (filter (\<lambda>entry. entry \<noteq> [])
           (map (\<lambda>entry. to_ascii_lowercase (trim_end_matches CHR ''.'' (trim entry)))
             (split_on CHR '','' ''Peer.Example., [FD00:0::1]''))) = [''peer.example'', ''fd00:0::1'']"
    by code_simp
  moreover have "is_bare_name ''peer.example''" by code_simp
  ultimately show ?thesis
    by (simp add: private_egress_hosts_def sample_env_def parse_private_egress_hosts_def
        sample_literal)
qed

lemma sample_url_checks:
  "trim ''https://peer.example'' = ''https://peer.example''"
  "\<not> ends_with ''peer.example'' ''.localhost''" "\<not> is_internal_name ''peer.example''"
  "to_ascii_lowercase ''peer.example'' = ''peer.example''"
  "trim_end_matches CHR ''.'' ''peer.example'' = ''peer.example''"
  by code_simp+

lemma sample_run:
  "sample_resolve ip =
     (if is_disallowed_peer_ip (V4 ip) then Inl NonPublic
      else Inr \<lparr>target_url = sample_peer, target_host = ''peer.example'',
                target_addresses = [\<lparr>addr_ip = V4 ip, addr_port = 443\<rparr>]\<rparr>)"
proof -
  have target: "parse_egress_target (\<lambda>_. Some sample_peer) ''https://peer.example'' = Inr sample_peer"
    by (simp add: parse_egress_target_def MAX_EGRESS_URL_LEN_def sample_peer_def sample_url_def
        sample_url_checks)
  have listed: "host_is_listed sample_peer (private_egress_hosts sample_env)"
    by (simp add: sample_hosts host_is_listed_iff url_host_key_def sample_peer_def sample_url_def
        sample_url_checks)
  have shut: "\<not> private_egress_explicitly_allowed sample_env"
    by (simp add: private_egress_explicitly_allowed_def sample_env_def)
  have port: "url_host_str sample_peer = Some ''peer.example''" "url_port sample_peer = Some 443"
    by (simp_all add: sample_peer_def sample_url_def)
  show ?thesis
    by (simp add: sample_resolve_def resolve_egress_target_def validate_with_def target listed shut
        port ensure_allowed_addresses_def)
qed

text \<open>
  The witness of the first guarantee: in production, a listed peer that resolves to a private
  address is let through, and the same peer answering with the metadata address is not.
\<close>

theorem egress_reaches_only_public_or_named_witness:
  "\<exists>t. sample_resolve (Ipv4 10 0 0 5) = Inr t
     \<and> host_is_listed (target_url t) (private_egress_hosts sample_env)
     \<and> \<not> no_peer (V4 (Ipv4 10 0 0 5)) \<and> \<not> public_by_blocks (V4 (Ipv4 10 0 0 5))
     \<and> sample_resolve (Ipv4 169 254 169 254) = Inl NonPublic"
proof -
  let ?t = "\<lparr>target_url = sample_peer, target_host = ''peer.example'',
    target_addresses = [\<lparr>addr_ip = V4 (Ipv4 10 0 0 5), addr_port = 443\<rparr>]\<rparr>"
  have run: "sample_resolve (Ipv4 10 0 0 5) = Inr ?t"
    by (simp add: sample_run is_disallowed_peer_ip_def peer_address_def)
  have env: "sample_env ''MAIDAN_ENV'' = Some ''production''
      \<or> sample_env ''MAIDAN_ALLOW_PRIVATE_EGRESS'' \<noteq> Some ''1''" by (simp add: sample_env_def)
  have refused: "sample_resolve (Ipv4 169 254 169 254) = Inl NonPublic"
    by (simp add: sample_run is_disallowed_peer_ip_def peer_address_def)
  have priv: "\<not> public_by_blocks (V4 (Ipv4 10 0 0 5))"
    by (simp add: is_public_ipv4_blocks [symmetric])
  show ?thesis
    using run refused priv sample_url_checks(3)
      egress_reaches_only_public_or_named [OF run [unfolded sample_resolve_def] env]
    by (auto simp: sample_peer_def sample_url_def)
qed

text \<open>
  The witness of the third: a bracketed, upper-case, uncompressed spelling lists the address, and a
  listed \<open>.internal\<close> name is one.
\<close>

theorem egress_lists_open_what_they_name_witness:
  "host_is_listed (sample_url (HostIpv6 (Ipv6 0xfd00 0 0 0 0 0 0 1)) ''[fd00::1]'')
     (parse_private_egress_hosts ''a, [FD00:0::1]'')
   \<and> host_is_listed (sample_url (Domain ''hooks.internal'') ''hooks.internal'')
       (parse_internal_egress_hosts ''10.0.0.1, Hooks.INTERNAL.'')
   \<and> is_internal_name ''hooks.internal''"
proof -
  have e: "'' [FD00:0::1]'' \<in> set (split_on CHR '','' ''a, [FD00:0::1]'')" by code_simp
  have "read_entry '' [FD00:0::1]'' = ''fd00:0::1''" by code_simp
  then have ip: "parse_ip_addr (read_entry '' [FD00:0::1]'') = Some (V6 (Ipv6 0xfd00 0 0 0 0 0 0 1))"
    by (simp add: sample_literal)
  have "parse_internal_egress_hosts ''10.0.0.1, Hooks.INTERNAL.'' = [''hooks.internal'']"
    "trim_end_matches CHR ''.'' ''hooks.internal'' = ''hooks.internal''"
    "to_ascii_lowercase ''hooks.internal'' = ''hooks.internal''" by code_simp+
  then have listed: "host_is_listed (sample_url (Domain ''hooks.internal'') ''hooks.internal'')
      (parse_internal_egress_hosts ''10.0.0.1, Hooks.INTERNAL.'')"
    by (simp add: host_is_listed_iff url_host_key_def sample_url_def)
  show ?thesis
    using egress_lists_open_what_they_name
        [of "sample_url (HostIpv6 (Ipv6 0xfd00 0 0 0 0 0 0 1)) ''[fd00::1]''" "''a, [FD00:0::1]''"]
      egress_lists_open_what_they_name
        [of "sample_url (Domain ''hooks.internal'') ''hooks.internal''"
          "''10.0.0.1, Hooks.INTERNAL.''"]
      e ip listed by (simp add: sample_url_def)
qed

end
