(* ===== verification/Usage_Safety.thy ===== *)
theory Usage_Safety
  imports Claim_Safety
begin

text \<open>
  What accounted usage promises.  A charge is the exact sum of its lines rounded up, computed in the
  code and in the rollup's SQL alike.  A report is charged once, whatever happens to the thread
  between its retries.  The token counters of every budget are the sums of the ledger.  A report that
  exhausts the budget ends the run in the same transaction.
\<close>

subsection \<open>The charge\<close>

text \<open>
  C15: The charge of a report is exact.  It is an error when a rate or a count is negative or the
  result does not fit 64 bits, and otherwise the sum of quantity times rate over the five tiers,
  divided by a million and rounded up; the 128-bit intermediate sum never decides.  The expression
  the rollup evaluates in SQL gives the same number without forming the products: each of its terms
  is at most the charge, and its remainder part stays below ten trillion, so it fits whenever the
  charge does.  The charge without caching is the same function of the prompt total.
\<close>

theorem charge_is_exact:
  "(charge_usd_micros p u = Inr c \<longleftrightarrow>
      (\<forall>q \<in> set (quantities u). 0 \<le> q) \<and> (\<forall>r \<in> set (rates p). 0 \<le> r)
      \<and> c = ceil_charge (zip (quantities u) (rates p)) \<and> c \<le> I64_MAX)
   \<and> (charge_usd_micros p u = Inr c \<longrightarrow>
      lane_standard_row p u = c \<and> 0 \<le> ceil_whole (zip (quantities u) (rates p))
      \<and> ceil_whole (zip (quantities u) (rates p)) \<le> c
      \<and> 0 \<le> ceil_rest (zip (quantities u) (rates p))
      \<and> ceil_rest (zip (quantities u) (rates p)) < 10 ^ 13)
   \<and> (uncached_charge_usd_micros p u = Inr c \<longrightarrow> uncached_row p u = c)"
proof (intro conjI impI)
  let ?z = "zip (quantities u) (rates p)"
  show "charge_usd_micros p u = Inr c \<longleftrightarrow>
      (\<forall>q \<in> set (quantities u). 0 \<le> q) \<and> (\<forall>r \<in> set (rates p). 0 \<le> r) \<and> c = ceil_charge ?z \<and> c \<le> I64_MAX"
    by (rule charge_usd_exact)
  assume ok: "charge_usd_micros p u = Inr c"
  then have nn: "nonneg_lines ?z" and c: "c = ceil_charge ?z"
    using charge_usd_exact zip_nonneg by blast+
  have "lane_standard_row p u = ceil_micros ?z"
    by (simp add: lane_standard_row_def quantities_def rates_def)
  then show "lane_standard_row p u = c" by (simp add: c ceil_micros_exact)
  show w: "0 \<le> ceil_whole ?z" and r: "0 \<le> ceil_rest ?z" using ceil_parts_nonneg(1,2) [OF nn] .
  have "c = ceil_whole ?z + (ceil_rest ?z + 999999) div 1000000"
    by (simp add: c ceil_micros_exact [symmetric] ceil_micros_def)
  then show "ceil_whole ?z \<le> c" using r by (simp add: pos_imp_zdiv_nonneg_iff)
  have "length ?z = 5" by (simp add: quantities_def rates_def)
  then show "ceil_rest ?z < 10 ^ 13" using ceil_parts_nonneg(3) [OF nn] by simp
next
  assume "uncached_charge_usd_micros p u = Inr c"
  then obtain n where n: "usage_prompt u = Inr n"
    and ch: "charge_usd_micros p (default_usage\<lparr>tu_input := n, tu_output := tu_output u\<rparr>) = Inr c"
    by (auto simp: uncached_charge_usd_micros_def and_then_Inr)
  have "n = tu_input u + tu_cache_read u + tu_cache_write_5m u + tu_cache_write_1h u"
    using n by (auto simp: usage_prompt_def and_then_Inr bind_eq_Some_conv)
  moreover have "c = ceil_charge (zip (quantities (default_usage\<lparr>tu_input := n, tu_output := tu_output u\<rparr>)) (rates p))"
    using ch charge_usd_exact by blast
  ultimately show "uncached_row p u = c"
    by (simp add: uncached_row_def ceil_micros_exact ceil_charge_def line_total_def quantities_def
        rates_def default_usage_def)
qed

definition sample_tokens :: token_usage where
  "sample_tokens = \<lparr>tu_input = 1000000, tu_output = 500000, tu_cache_read = 250000,
     tu_cache_write_5m = 1, tu_cache_write_1h = 1\<rparr>"

definition sample_price :: price_snapshot where
  "sample_price = \<lparr>pr_input = 10, pr_output = 20, pr_cache_read = 4, pr_cache_write_5m = 1,
     pr_cache_write_1h = 1\<rparr>"

lemma sample_charge: "charge_usd_micros sample_price sample_tokens = Inr 22"
  by (simp add: charge_usd_exact sample_price_def sample_tokens_def quantities_def rates_def
      ceil_charge_def line_total_def I64_MAX_def)

theorem charge_is_exact_witness:
  "charge_usd_micros sample_price sample_tokens = Inr 22
   \<and> lane_standard_row sample_price sample_tokens = 22
   \<and> uncached_row sample_price sample_tokens = 23"
proof -
  have "uncached_charge_usd_micros sample_price sample_tokens = Inr 23"
    by (simp add: uncached_charge_usd_micros_def usage_prompt_def usage_checked_def charge_usd_exact
        sample_price_def sample_tokens_def quantities_def rates_def ceil_charge_def line_total_def
        I64_MAX_def default_usage_def checked_def)
  then show ?thesis
    using charge_is_exact [of sample_price sample_tokens 22] charge_is_exact [of sample_price sample_tokens 23]
      sample_charge by simp
qed

definition free_reads :: new_usage_entry where
  "free_reads =
     \<lparr>nu_report = 1, nu_thread = 1, nu_reporter = 5, nu_lease = 30, nu_model = ''m'',
      nu_tokens = default_usage\<lparr>tu_cache_read := 4611686018427387904\<rparr>, nu_usd_micros = 0,
      nu_price = \<lparr>pr_input = 10000000, pr_output = 0, pr_cache_read = 0, pr_cache_write_5m = 0,
                  pr_cache_write_1h = 0\<rparr>,
      nu_turns = 1,
      nu_evidence = \<lparr>ev_provider = None, ev_service_tier = None, ev_batch = False, ev_harness = None,
         ev_harness_version = None, ev_effort = None, ev_cache_key = None, ev_cache_miss_reason = None,
         ev_pack_sha256 = [], ev_standard_price = None\<rparr>\<rparr>"

lemma free_reads_charge: "charge_usd_micros (nu_price free_reads) (nu_tokens free_reads) = Inr 0"
  by (simp add: charge_usd_exact free_reads_def default_usage_def quantities_def rates_def
      ceil_charge_def line_total_def I64_MAX_def)

lemma free_reads_valid: "entry_validate free_reads = Inr ()"
proof -
  have "trim (nu_model free_reads) = ''m''" "nu_usd_micros free_reads = 0" "nu_turns free_reads = 1"
    "evidence_validate (nu_evidence free_reads) = Inr ()" "ev_standard_price (nu_evidence free_reads) = None"
    by code_simp+
  then show ?thesis unfolding entry_validate_def by (simp add: free_reads_charge)
qed


subsection \<open>A report counts once\<close>

interpretation frames_run: step_order "claim_step jd" "\<lambda>s s'. \<exists>L. frame L (snd s) (snd s')" for jd
proof unfold_locales
  show "\<exists>L. frame L (snd s) (snd s)" for s :: "lease_id set \<times> ('z) queue_db_scheme" by auto
  show "\<exists>L. frame L (snd a) (snd b) \<Longrightarrow> \<exists>L. frame L (snd b) (snd c) \<Longrightarrow> \<exists>L. frame L (snd a) (snd c)"
    for a b c :: "lease_id set \<times> ('z) queue_db_scheme" using frame_trans by blast
  show "claim_step jd s s' \<Longrightarrow> \<exists>L. frame L (snd s) (snd s')"
    for s s' :: "lease_id set \<times> ('z) queue_db_scheme" using claim_step_frame by blast
qed

lemma frame_find_live:
  assumes "frame L db db'" "find (\<lambda>t. t_id t = tid \<and> live t) (threads db) = Some t"
  shows "\<exists>t'. find (\<lambda>t. t_id t = tid \<and> live t) (threads db') = Some t'"
proof -
  have "rel_option (evolves L) (find (\<lambda>t. t_id t = tid \<and> live t) (threads db))
      (find (\<lambda>t. t_id t = tid \<and> live t) (threads db'))"
    using assms(1) by (intro find_list_all2) (auto simp: frame_def evolves_def live_def)
  then show ?thesis using assms(2) by (cases "find (\<lambda>t. t_id t = tid \<and> live t) (threads db')") auto
qed

lemma report_ok_pre:
  assumes "report_accounted_usage clk new db = Inr (r, db')"
  obtains t where "entry_validate new = Inr ()"
    "find (\<lambda>t. t_id t = nu_thread new \<and> live t) (threads db) = Some t"
  using assms by (auto simp: report_accounted_usage_def and_then_Inr split: sum.splits)

lemma find_prefix: "prefix xs ys \<Longrightarrow> find P xs = Some x \<Longrightarrow> find P ys = Some x"
  by (auto elim: prefixE simp: find_append)

lemma get_usage_prefix:
  "prefix (usage db) (usage db') \<Longrightarrow> get_usage rid db = Inr (Some e) \<Longrightarrow> get_usage rid db' = Inr (Some e)"
  by (auto simp: get_usage_def split: option.splits dest: find_prefix)

lemma get_usage_row: "get_usage rid db = Inr (Some e) \<Longrightarrow> \<exists>r \<in> set (usage db). ul_report r = rid"
  by (auto simp: get_usage_def find_Some_iff split: option.splits)

lemma entry_of_row:
  "row_to_entry r = Inr e \<Longrightarrow>
   ue_report e = ul_report r \<and> ue_thread e = ul_thread r \<and> ue_stamp e = stamp_of r
   \<and> ue_turns e = ul_turns r \<and> ue_evidence e = evidence_of r"
  by (auto simp: row_to_entry_def and_then_Inr)

lemma reserved_row_fields:
  "ul_thread (reserved_row clk new ws) = nu_thread new" "ul_tokens (reserved_row clk new ws) = nu_tokens new"
  "ul_turns (reserved_row clk new ws) = nu_turns new" "stamp_of (reserved_row clk new ws) = report_stamp new ws"
  "evidence_of (reserved_row clk new ws) = nu_evidence new"
  by (simp_all add: reserved_row_def Let_def stamp_of_def report_stamp_def evidence_of_def)

lemma report_recorded:
  assumes "report_accounted_usage clk new db = Inr ((e, ids), db')"
  shows "get_usage (nu_report new) db' = Inr (Some e) \<and> matches_request e new
    \<and> (\<exists>ch. thread_scope db (nu_thread new) = Inr (ps_payer (ue_stamp e), ch))"
  using assms
proof (cases rule: report_accounted_usage_cases)
  case (accepted t ws ch)
  obtain row where row: "usage db' = usage db @ [row]" "row_to_entry row = Inr e"
    "ul_report row = nu_report new" "ul_thread row = nu_thread new" "stamp_of row = report_stamp new ws"
    "evidence_of row = nu_evidence new" "ul_turns row = nu_turns new"
    using settle_report_frame(2) [OF accepted(7) accepted(4)] reserved_row_valid [OF accepted(1)]
    by (auto simp: reserved_row_fields)
  have "find (\<lambda>r. ul_report r = nu_report new) (usage db) = None"
    using accepted(4) by (simp add: find_None_iff)
  then have "get_usage (nu_report new) db' = Inr (Some e)"
    using row by (simp add: get_usage_def find_snoc)
  then show ?thesis
    using entry_of_row [OF row(2)] row accepted(3) by (simp add: matches_request_def report_stamp_def)
qed auto

lemma retry_returns:
  assumes "entry_validate new = Inr ()"
    and "find (\<lambda>t. t_id t = nu_thread new \<and> live t) (threads db) = Some t"
    and "thread_scope db (nu_thread new) = Inr (ps_payer (ue_stamp e), ch)"
    and "get_usage (nu_report new) db = Inr (Some e)" "matches_request e new"
  shows "report_accounted_usage clk new db = Inr ((e, []), db)"
  using assms get_usage_row [OF assms(4)]
  by (simp add: report_accounted_usage_def reserve_in_tx_def)

text \<open>
  C10: A usage report counts once.  Once a report was accepted, then after any sequence of claim
  operations - renewals, hand-overs, reaping, other reports, the run stopped by this very report -
  sending it again returns the entry of the first time, emits no event and changes nothing; and no
  report with the same id and any other content is accepted.
\<close>

theorem usage_report_counts_once:
  assumes "report_accounted_usage clk new db = Inr ((e, ids), db1)"
    and "(claim_step jd)\<^sup>*\<^sup>* (U, db1) (U', db2)"
  shows "report_accounted_usage clk' new db2 = Inr ((e, []), db2)
    \<and> (\<forall>other r db3. nu_report other = nu_report new \<longrightarrow>
         report_accounted_usage clk' other db2 = Inr (r, db3) \<longrightarrow>
         r = (e, []) \<and> db3 = db2 \<and> matches_request e other)"
proof (intro conjI allI impI)
  obtain L1 where f1: "frame L1 db db1" using report_accounted_usage_frame [OF assms(1)] by blast
  obtain L2 where f2: "frame L2 db1 db2" using frames_run.run_le [OF assms(2)] by auto
  have f: "frame (L1 \<union> L2) db db2" using frame_trans [OF f1 f2] .
  obtain t where ok: "entry_validate new = Inr ()"
    and t: "find (\<lambda>t. t_id t = nu_thread new \<and> live t) (threads db) = Some t"
    using report_ok_pre [OF assms(1)] .
  obtain ch where rec: "get_usage (nu_report new) db1 = Inr (Some e)" "matches_request e new"
    and scope: "thread_scope db (nu_thread new) = Inr (ps_payer (ue_stamp e), ch)"
    using report_recorded [OF assms(1)] by blast
  have found: "get_usage (nu_report new) db2 = Inr (Some e)"
    by (rule get_usage_prefix [OF frame_usage [OF f2] rec(1)])
  obtain t' where "find (\<lambda>t. t_id t = nu_thread new \<and> live t) (threads db2) = Some t'"
    using frame_find_live [OF f t] by blast
  moreover have "thread_scope db2 (nu_thread new) = Inr (ps_payer (ue_stamp e), ch)"
    using frame_thread_scope [OF f] scope by simp
  ultimately show "report_accounted_usage clk' new db2 = Inr ((e, []), db2)"
    using retry_returns [OF ok _ _ found rec(2)] by blast
  fix other r db3
  assume same: "nu_report other = nu_report new" and run: "report_accounted_usage clk' other db2 = Inr (r, db3)"
  obtain e' ids' where r: "r = (e', ids')" by (cases r)
  show "r = (e, [])" "db3 = db2" "matches_request e other"
    using run [unfolded r] found get_usage_row [OF found] same
    by (cases rule: report_accounted_usage_cases; auto simp: r)+
qed

text \<open>A thread claimed by member 5 with a budget of 30 micro-dollars, and a report of 22.\<close>

definition usage_store :: queue_db where
  "usage_store =
     (store_with [(fresh_thread 1 2)\<lparr>t_assignee := Some 5, t_lease := Some 30, t_claimed_at := Some 0,
        t_work_started_at := Some 0\<rparr>])
       \<lparr>budgets := [(fresh_budget 1)\<lparr>b_max_usd := Some 30\<rparr>]\<rparr>"

definition sample_report :: "nat \<Rightarrow> new_usage_entry" where
  "sample_report rid =
     free_reads\<lparr>nu_report := rid, nu_tokens := sample_tokens, nu_price := sample_price, nu_usd_micros := 22\<rparr>"

text \<open>The same report again finds its entry; the second report of 22 ends the run.\<close>

definition after_one :: queue_db where
  "after_one = (case report_accounted_usage (secs 9) (sample_report 1) usage_store of
      Inr (_, db) \<Rightarrow> db | Inl _ \<Rightarrow> usage_store)"

lemma sample_runs:
  "case report_accounted_usage (secs 9) (sample_report 1) usage_store of
     Inr ((e, ids), db) \<Rightarrow> \<not> ue_stopped e \<and> ids = [1] | Inl _ \<Rightarrow> False"
  "case report_accounted_usage (secs 10) (sample_report 2) after_one of
     Inr ((e, ids), db) \<Rightarrow> ue_reason e = Some Usd \<and> ids = [2, 3] \<and> b_used_usd (ue_budget e) = 44
   | Inl _ \<Rightarrow> False"
  by code_simp+

theorem usage_report_counts_once_witness:
  "\<exists>e db1. report_accounted_usage (secs 9) (sample_report 1) usage_store = Inr ((e, [1]), db1)
     \<and> report_accounted_usage (secs 60) (sample_report 1) db1 = Inr ((e, []), db1)
     \<and> matches_request e (sample_report 1)"
proof -
  obtain e db1 where run: "report_accounted_usage (secs 9) (sample_report 1) usage_store = Inr ((e, [1]), db1)"
    using sample_runs(1) by (auto split: sum.splits)
  have "(claim_step (\<lambda>t. t div 1000))\<^sup>*\<^sup>* ({30}, db1) ({30}, db1)" ..
  note once = usage_report_counts_once [OF run this, of "secs 60"]
  then have "report_accounted_usage (secs 60) (sample_report 1) db1 = Inr ((e, []), db1)" by blast
  then show ?thesis using run once by blast
qed

subsection \<open>The counters are the ledger\<close>

text \<open>
  C14: The books balance.  If the token counters of every budget are the sums of the usage ledger, they
  still are after any sequence of claim operations, budget changes and reports, stopped or not; and
  the ledger itself only grows: no accepted row is changed or lost.
\<close>

theorem token_counters_are_the_ledger:
  assumes "(claim_step jd)\<^sup>*\<^sup>* (U, db) (U', db')" "ledger_balanced db"
  shows "(\<forall>tid. counted b_used_input db' tid = ledger_sum tu_input (usage db') tid
            \<and> counted b_used_output db' tid = ledger_sum tu_output (usage db') tid
            \<and> counted b_used_cache_read db' tid = ledger_sum tu_cache_read (usage db') tid
            \<and> counted b_used_cache_write_5m db' tid = ledger_sum tu_cache_write_5m (usage db') tid
            \<and> counted b_used_cache_write_1h db' tid = ledger_sum tu_cache_write_1h (usage db') tid)
    \<and> prefix (usage db) (usage db')"
proof -
  obtain L where "frame L db db'" using frames_run.run_le [OF assms(1)] by auto
  then have "ledger_balanced db'" "prefix (usage db) (usage db')"
    using assms(2) by (auto simp: frame_def)
  then show ?thesis by (simp add: ledger_balanced_def tiers_def)
qed

lemma usage_store_balanced: "ledger_balanced usage_store"
  by (auto simp: ledger_balanced_def tiers_def counted_def ledger_sum_def usage_store_def store_with_def
      get_budget_def fresh_budget_def)

theorem token_counters_are_the_ledger_witness:
  "\<exists>e db1. report_accounted_usage (secs 9) (sample_report 1) usage_store = Inr (e, db1)
     \<and> counted b_used_input db1 1 = ledger_sum tu_input (usage db1) 1
     \<and> prefix (usage usage_store) (usage db1)"
proof -
  obtain e db1 where run: "report_accounted_usage (secs 9) (sample_report 1) usage_store = Inr (e, db1)"
    using sample_runs(1) by (auto split: sum.splits)
  have "claim_step (\<lambda>t. t div 1000) ({30}, usage_store) ({30}, db1)" by (rule claim_step.accounted [OF run])
  then have "(claim_step (\<lambda>t. t div 1000))\<^sup>*\<^sup>* ({30}, usage_store) ({30}, db1)" ..
  from token_counters_are_the_ledger [OF this usage_store_balanced] run show ?thesis by blast
qed

subsection \<open>Charging and stopping\<close>

lemma update_thread_tables:
  "update_thread tid P f db = Some (t, db') \<Longrightarrow>
   budgets db' = budgets db \<and> dlq db' = dlq db \<and> log db' = log db
   \<and> threads db' = update_where (\<lambda>t. t_id t = tid \<and> P t) f (threads db)"
  by (erule update_thread_SomeD) simp

lemma keep_stopped_wall_budget:
  assumes "get_budget db tid = Some b"
  shows "get_budget (keep_stopped_wall tid wall db) tid =
           Some (b\<lparr>b_used_wall := b_used_wall b + (case wall of None \<Rightarrow> 0 | Some s \<Rightarrow> max 0 s)\<rparr>)"
    and "x \<noteq> tid \<Longrightarrow> get_budget (keep_stopped_wall tid wall db) x = get_budget db x"
proof -
  show "get_budget (keep_stopped_wall tid wall db) tid =
      Some (b\<lparr>b_used_wall := b_used_wall b + (case wall of None \<Rightarrow> 0 | Some s \<Rightarrow> max 0 s)\<rparr>)"
    using assms by (cases wall) (simp_all add: keep_stopped_wall_def limits_charge [OF assms] unwrap_or_def)
  show "x \<noteq> tid \<Longrightarrow> get_budget (keep_stopped_wall tid wall db) x = get_budget db x"
    by (cases wall) (simp_all add: keep_stopped_wall_def charge_wall_def get_upsert_budget)
qed

lemma keep_stopped_wall_tables [simp]:
  "threads (keep_stopped_wall tid w db) = threads db" "dlq (keep_stopped_wall tid w db) = dlq db"
  "log (keep_stopped_wall tid w db) = log db"
  by (simp_all add: keep_stopped_wall_def split: option.split)

lemma stop_run_tables:
  assumes "stop_run clk new ws ch b stopping db = Inr (failed, db')"
  shows "budgets db' = budgets db"
    and "stopping = None \<Longrightarrow> threads db' = threads db \<and> dlq db' = dlq db \<and> log db' = log db \<and> failed = None"
    and "stopping = Some reason \<Longrightarrow>
      threads db' = update_where (\<lambda>t. t_id t = nu_thread new \<and> t_assignee t = Some (nu_reporter new)
          \<and> t_lease t = Some (nu_lease new)) (clear_claim clk) (threads db)
      \<and> (\<exists>d. dlq db' = dlq db @ [d] \<and> d_reason d = reason \<and> d_member d = nu_reporter new)
      \<and> length (log db') = Suc (length (log db)) \<and> failed = Some (length (log db'))"
  using assms by (cases rule: stop_run_cases; auto dest!: update_thread_tables simp: fail_claim_def Let_def)+

text \<open>The first acceptance of a report, as one update of the tables.\<close>

lemma settle_report_effect:
  fixes db :: "('z) claim_db_scheme"
  assumes "settle_report clk new t ws ch (db\<lparr>usage := rows\<rparr>) = Inr ((e, ids), db')"
  shows "get_budget db' (nu_thread new) = Some (ue_budget e)"
    and "x \<noteq> nu_thread new \<Longrightarrow> get_budget db' x = get_budget db x"
    and "usage_fresh (nu_tokens new) = Inr (b_used_tokens (ue_budget e) - counted b_used_tokens db (nu_thread new))"
    and "b_used_usd (ue_budget e) = counted b_used_usd db (nu_thread new) + nu_usd_micros new"
    and "b_used_turns (ue_budget e) = counted b_used_turns db (nu_thread new) + nu_turns new"
    and "ue_reason e = exceeded ((ue_budget e)\<lparr>b_used_wall := counted b_used_wall db (nu_thread new)\<rparr>) (wall_of clk t)"
    and "ue_stopped e \<longleftrightarrow> ue_reason e \<noteq> None"
    and "ue_reason e = None \<Longrightarrow> threads db' = threads db \<and> dlq db' = dlq db \<and> length ids = 1"
    and "ue_reason e = Some reason \<Longrightarrow> length ids = 2
      \<and> threads db' = update_where (\<lambda>t. t_id t = nu_thread new \<and> t_assignee t = Some (nu_reporter new)
          \<and> t_lease t = Some (nu_lease new)) (clear_claim clk) (threads db)
      \<and> (\<exists>d. dlq db' = dlq db @ [d] \<and> d_reason d = reason \<and> d_member d = nu_reporter new)"
proof -
  let ?db1 = "db\<lparr>usage := rows\<rparr>" and ?tid = "nu_thread new"
  obtain db2 db3 db4 db5 b stopping failed where
    add: "add_accounted_usage new ?db1 = Inr db2"
    and stopping: "stopping = exceeded (the (get_budget db2 ?tid)) (wall_of clk t)"
    and db3: "db3 = (if stopping \<noteq> None then keep_stopped_wall ?tid (wall_of clk t) db2 else db2)"
    and b: "b = the (get_budget db3 ?tid)"
    and db4: "db4 = append_event (UsageReported clk ws ch ?tid (nu_report new)
               (report_stamp new ws) (nu_turns new) b) db3"
    and stop: "stop_run clk new ws ch b stopping db4 = Inr (failed, db5)"
    and fin: "finish_in_tx (nu_report new) b (stopping \<noteq> None) stopping (length (log db4)) failed db5
         = Inr (e, db')"
    and ids: "ids = length (log db4) # (case failed of Some x \<Rightarrow> [x] | None \<Rightarrow> [])"
    using settle_report_parts [OF assms] by metis
  obtain f where db2: "db2 = upsert_budget f ?tid ?db1" and f: "\<And>b. b_thread (f b) = b_thread b"
    and sums: "\<And>b. b_used_usd (f b) = b_used_usd b + nu_usd_micros new"
      "\<And>b. b_used_turns (f b) = b_used_turns b + nu_turns new"
      "\<And>b. usage_fresh (nu_tokens new) = Inr (b_used_tokens (f b) - b_used_tokens b)"
      "\<And>b. b_used_wall (f b) = b_used_wall b"
    using add_accounted_usage_Inr [OF add] by metis
  define b0 where "b0 = f (unwrap_or (get_budget db ?tid) (fresh_budget ?tid))"
  have same: "get_budget ?db1 = get_budget db" by (rule get_budget_cong) simp
  have at2: "get_budget db2 ?tid = Some b0" and other2: "x \<noteq> ?tid \<Longrightarrow> get_budget db2 x = get_budget db x" for x
    by (simp_all add: db2 get_upsert_budget [OF f] same b0_def)
  have base: "b_used_tokens (unwrap_or (get_budget db ?tid) (fresh_budget ?tid)) = counted b_used_tokens db ?tid"
    "b_used_usd (unwrap_or (get_budget db ?tid) (fresh_budget ?tid)) = counted b_used_usd db ?tid"
    "b_used_turns (unwrap_or (get_budget db ?tid) (fresh_budget ?tid)) = counted b_used_turns db ?tid"
    "b_used_wall (unwrap_or (get_budget db ?tid) (fresh_budget ?tid)) = counted b_used_wall db ?tid"
    by (simp_all add: counted_def unwrap_or_def fresh_budget_def split: option.split)
  obtain w where at3': "get_budget db3 ?tid = Some (b0\<lparr>b_used_wall := w\<rparr>)"
  proof (cases "stopping = None")
    case True
    then show thesis using that [of "b_used_wall b0"] at2 by (simp add: db3)
  next
    case False
    then show thesis using that keep_stopped_wall_budget(1) [OF at2, of "wall_of clk t"] by (simp add: db3)
  qed
  then have w: "b = b0\<lparr>b_used_wall := w\<rparr>" and at3: "get_budget db3 ?tid = Some b" by (simp_all add: b)
  have other3: "x \<noteq> ?tid \<Longrightarrow> get_budget db3 x = get_budget db x" for x
    using keep_stopped_wall_budget(2) [OF at2] other2 by (simp add: db3)
  have tabs: "budgets db' = budgets db3" "threads db' = threads db5" "dlq db' = dlq db5"
    and e: "ue_budget e = b" "ue_reason e = stopping" "ue_stopped e = (stopping \<noteq> None)"
    using fin stop_run_tables(1) [OF stop]
    by (auto simp: finish_in_tx_def Let_def and_then_Inr row_to_entry_def db4 find_Some_iff update_where_nth
        split: if_splits)
  have sum0: "b_used_wall b0 = counted b_used_wall db ?tid"
    by (simp add: b0_def sums base)
  show "get_budget db' ?tid = Some (ue_budget e)" using at3 tabs(1) by (simp add: e get_budget_def)
  show "x \<noteq> ?tid \<Longrightarrow> get_budget db' x = get_budget db x" using other3 tabs(1) by (simp add: get_budget_def)
  show "usage_fresh (nu_tokens new) = Inr (b_used_tokens (ue_budget e) - counted b_used_tokens db ?tid)"
    using sums(3) [of "unwrap_or (get_budget db ?tid) (fresh_budget ?tid)"]
    by (simp add: e w b0_def base)
  show "b_used_usd (ue_budget e) = counted b_used_usd db ?tid + nu_usd_micros new"
    "b_used_turns (ue_budget e) = counted b_used_turns db ?tid + nu_turns new"
    by (simp_all add: e w b0_def sums base)
  have "b0 = b\<lparr>b_used_wall := counted b_used_wall db ?tid\<rparr>" by (simp add: w sum0 [symmetric])
  then show "ue_reason e = exceeded ((ue_budget e)\<lparr>b_used_wall := counted b_used_wall db ?tid\<rparr>) (wall_of clk t)"
    using stopping at2 by (simp add: e)
  show "ue_stopped e \<longleftrightarrow> ue_reason e \<noteq> None" by (simp add: e)
  have t4: "threads db4 = threads db" "dlq db4 = dlq db" by (simp_all add: db4 db3 db2)
  show "ue_reason e = None \<Longrightarrow> threads db' = threads db \<and> dlq db' = dlq db \<and> length ids = 1"
    using stop_run_tables(2) [OF stop] tabs t4 by (simp add: e ids)
  show "ue_reason e = Some reason \<Longrightarrow> length ids = 2
      \<and> threads db' = update_where (\<lambda>t. t_id t = ?tid \<and> t_assignee t = Some (nu_reporter new)
          \<and> t_lease t = Some (nu_lease new)) (clear_claim clk) (threads db)
      \<and> (\<exists>d. dlq db' = dlq db @ [d] \<and> d_reason d = reason \<and> d_member d = nu_reporter new)"
    using stop_run_tables(3) [OF stop] tabs t4 by (simp add: e ids)
qed

text \<open>
  C16: An accepted report charges the thread and enforces its budget in one transaction.  The reporter
  holds the claim under the lease it named.  The thread's budget grows by the fresh tokens, the charge
  and the turns of the report and no other budget changes.  The reason it stopped for is the first
  exhausted limit of the charged budget with the time worked so far; without one the run goes on,
  with one the claim is cleared and the run is dead-lettered under that reason.
\<close>

theorem accounted_report_charges_and_stops:
  assumes "report_accounted_usage clk new db = Inr ((e, ids), db')" "ids \<noteq> []"
    and "distinct (map t_id (threads db))"
  shows "\<exists>t \<in> set (threads db). t_id t = nu_thread new \<and> live t
      \<and> t_assignee t = Some (nu_reporter new) \<and> t_lease t = Some (nu_lease new)
      \<and> get_budget db' (nu_thread new) = Some (ue_budget e)
      \<and> (\<forall>x. x \<noteq> nu_thread new \<longrightarrow> get_budget db' x = get_budget db x)
      \<and> usage_fresh (nu_tokens new) = Inr (b_used_tokens (ue_budget e) - counted b_used_tokens db (nu_thread new))
      \<and> b_used_usd (ue_budget e) = counted b_used_usd db (nu_thread new) + nu_usd_micros new
      \<and> b_used_turns (ue_budget e) = counted b_used_turns db (nu_thread new) + nu_turns new
      \<and> ue_reason e = exceeded ((ue_budget e)\<lparr>b_used_wall := counted b_used_wall db (nu_thread new)\<rparr>) (wall_of clk t)
      \<and> (ue_stopped e \<longleftrightarrow> ue_reason e \<noteq> None)
      \<and> (case ue_reason e of
           None \<Rightarrow> threads db' = threads db \<and> dlq db' = dlq db
         | Some reason \<Rightarrow>
             (\<forall>t' \<in> set (threads db'). t_id t' = nu_thread new \<longrightarrow> t_assignee t' = None \<and> t_lease t' = None)
             \<and> (\<exists>d. dlq db' = dlq db @ [d] \<and> d_reason d = reason \<and> d_member d = nu_reporter new))"
  using assms(1)
proof (cases rule: report_accounted_usage_cases)
  case (accepted t ws ch)
  note eff = settle_report_effect [OF accepted(7)]
  have t: "t \<in> set (threads db)" "t_id t = nu_thread new" "live t"
    using accepted(2) by (auto simp: find_Some_iff)
  have only: "u = t" if "u \<in> set (threads db)" "t_id u = nu_thread new" for u
    using that t assms(3) by (metis inj_on_eq_iff distinct_map)
  have cleared: "t_assignee t' = None \<and> t_lease t' = None"
    if r: "ue_reason e = Some reason" and t': "t' \<in> set (threads db')" "t_id t' = nu_thread new" for reason t'
  proof -
    have "t' \<in> set (update_where (\<lambda>t. t_id t = nu_thread new \<and> t_assignee t = Some (nu_reporter new)
          \<and> t_lease t = Some (nu_lease new)) (clear_claim clk) (threads db))"
      using t'(1) eff(9) [OF r] by simp
    then obtain u where u: "u \<in> set (threads db)" "t_id u = nu_thread new"
      "t' = u \<and> \<not> (t_assignee u = Some (nu_reporter new) \<and> t_lease u = Some (nu_lease new)) \<or> t' = clear_claim clk u"
      using t'(2) by (auto simp: set_update_where clear_claim_def)
    have "u = t" by (rule only [OF u(1,2)])
    then show ?thesis using u(3) accepted(5,6) by (auto simp: clear_claim_def)
  qed
  have "(case ue_reason e of
           None \<Rightarrow> threads db' = threads db \<and> dlq db' = dlq db
         | Some reason \<Rightarrow>
             (\<forall>t' \<in> set (threads db'). t_id t' = nu_thread new \<longrightarrow> t_assignee t' = None \<and> t_lease t' = None)
             \<and> (\<exists>d. dlq db' = dlq db @ [d] \<and> d_reason d = reason \<and> d_member d = nu_reporter new))"
  proof (cases "ue_reason e")
    case None
    show ?thesis using eff(8) [OF None] by (simp only: None option.case)
  next
    case (Some reason)
    have dead: "\<exists>d. dlq db' = dlq db @ [d] \<and> d_reason d = reason \<and> d_member d = nu_reporter new"
      using eff(9) [OF Some] by (elim conjE)
    show ?thesis
      unfolding Some option.case by (intro conjI [OF _ dead] ballI impI cleared [OF Some])
  qed
  moreover have "\<forall>x. x \<noteq> nu_thread new \<longrightarrow> get_budget db' x = get_budget db x"
    using eff(2) by blast
  ultimately show ?thesis
    using t(2,3) accepted(5,6) eff(1,3-7)
    by - (rule bexI [OF _ t(1)], (rule conjI, assumption)+, assumption)
qed (use assms(2) in simp)

theorem accounted_report_charges_and_stops_witness:
  "\<exists>e db'. report_accounted_usage (secs 10) (sample_report 2) after_one = Inr ((e, [2, 3]), db')
     \<and> ue_stopped e \<and> b_used_usd (ue_budget e) = counted b_used_usd after_one 1 + 22
     \<and> (\<forall>t' \<in> set (threads db'). t_id t' = 1 \<longrightarrow> t_assignee t' = None)"
proof -
  obtain e db' where run: "report_accounted_usage (secs 10) (sample_report 2) after_one = Inr ((e, [2, 3]), db')"
    and r: "ue_reason e = Some Usd"
    using sample_runs(2) by (auto split: sum.splits)
  have d: "distinct (map t_id (threads after_one))" by code_simp
  have n: "nu_thread (sample_report 2) = 1" "nu_usd_micros (sample_report 2) = 22"
    by (simp_all add: sample_report_def free_reads_def)
  show ?thesis
    using accounted_report_charges_and_stops [OF run _ d] run r by (auto simp: n)
qed

end
