(* ===== verification/Spec2Isabelle.thy ===== *)
theory Spec2Isabelle
  imports Queue_Discipline Claim_Endings Log_Service Landing_Safety Dependency_Safety Review_Rounds Evidence_Safety Egress_Safety Usage_Safety
begin

text \<open>
  \<^bold>\<open>A verification library for the maidan coordination server.\<close>

  Maidan is a Rust workspace (\<open>src/crates\<close>) in which agents and people share threads of work.  A thread is a
  task: it is claimed under a lease, worked, handed over for review with its evidence, and landed through
  gates; everything that happens is an event in a hash-chained log.  The library models the parts that decide
  these things, on the SQLite backend, and proves what they promise.

  \<^bold>\<open>Conventions.\<close>  A table is a list of records, in insertion order; the primary keys an operation relies on
  appear as \<open>distinct\<close> hypotheses or as refused inserts.  \<open>UPDATE ... WHERE\<close> is \<open>update_where\<close>, a keyed
  \<open>SELECT\<close> is \<open>find\<close>, \<open>ORDER BY\<close> is \<open>sort_key\<close>.  A transaction is a function from the store to
  \<open>store_error + (result \<times> store)\<close>: an error returns no store, so it rolls back.  Rust's \<open>?\<close> is \<open>and_then\<close>, an early
  return is \<open>ensure\<close> or a branch.  Identifiers are \<open>nat\<close>, instants are \<open>int\<close> microseconds, Rust strings are their
  UTF-8 bytes, \<open>i64\<close> and \<open>u64\<close> arithmetic that can wrap or saturate is written out.

  \<^bold>\<open>Parameters.\<close>  What is not in the repository, or not a function of the store, is an argument: \<open>clk\<close> is
  \<open>Utc::now()\<close>, \<open>lease\<close> a fresh lease token, \<open>scope\<close> the attribution of the request, \<open>jd\<close> SQLite's \<open>julianday\<close> in
  milliseconds, \<open>H\<close> the record of the SHA-256 digest and serde's string and number printers, \<open>W\<close> (record
  \<open>outside\<close>) adds the printing of identifiers, fresh identifiers, parsing of stored JSON and Unicode lower case,
  \<open>prepare\<close> seals a payload before it is logged.  What a theorem needs of them is a named hypothesis
  (\<open>string_literals\<close>, \<open>number_literals\<close>, \<open>digests\<close>, \<open>json_printers\<close>, injectivity of the digest on the values it
  is applied to), and the witnesses discharge it for concrete functions (\<open>plain_hashing\<close>, \<open>plain_outside\<close>).

  \<^bold>\<open>Ground.\<close>  \<open>Maidan_Prelude\<close> holds results, row lemmas and the two run locales: \<open>step_invariant\<close> (a property
  every step keeps) and \<open>step_order\<close> (an order every step respects), interpreted for every step relation below.
  \<open>Rust_Str\<close> and \<open>Rust_Num\<close> model the string and number functions the code calls.

  \<^bold>\<open>Threads and claims.\<close>
  \<^item> \<open>Thread_Fsm\<close>: \<open>maidan-fsm\<close>, the states, actions and parent rule; \<open>lifecycle_shape\<close>.
  \<^item> \<open>Store_Tables\<close>, \<open>Concrete_Store\<close>: the rows of \<open>maidan-types/src/models.rs\<close> and the events the modelled
    operations append; the records \<open>claim_db\<close>, \<open>queue_db\<close> and (in \<open>Review_Tables\<close>) \<open>review_db\<close> extend one another.
  \<^item> \<open>Budgets\<close>, \<open>Claims\<close>, \<open>Claim_Reports\<close>: \<open>sqlite/budget.rs\<close>, \<open>thread_workers.rs\<close>, \<open>threads.rs\<close>, \<open>claim_grace.rs\<close>,
    \<open>stall.rs\<close>.  The locale \<open>ledger\<close> is the contract of the worker record.
  \<^item> \<open>Usage_Types\<close>, \<open>Usage_Ledger\<close>, \<open>Usage_Safety\<close>: \<open>maidan-types/src/usage_ledger.rs\<close>, \<open>usage_sql.rs\<close>,
    \<open>sqlite/usage_ledger.rs\<close> and the accounted report of \<open>sqlite/budget.rs\<close>.  A charge is exact in the code and in
    the rollup's SQL; a report counts once however often it is sent; along every run of \<open>claim_step\<close> the token
    counters are the sums of the ledger; a report over budget ends the run in its transaction.
  \<^item> \<open>Footprint_Types\<close>, \<open>Footprint_Store\<close>, \<open>Claim_Next\<close>: \<open>footprint.rs\<close>, \<open>sqlite/footprints.rs\<close>,
    \<open>claimability.rs\<close>, \<open>claim_next\<close> and the queue counts.  \<open>claim_next\<close> hands out the best eligible thread, and the
    counts partition the open threads.
  \<^item> \<open>Claim_Frames\<close>, \<open>Claim_Safety\<close>, \<open>Claim_Endings\<close>, \<open>Queue_Discipline\<close>: what every operation may do to a claim
    (\<open>frame\<close>), then along every run (\<open>claim_step\<close>, \<open>queue_step\<close>): a lost lease never acts again, nobody who
    held a thread leaves the ledger, the reaper frees exactly the lapsed claims, and the queue never hands out
    overlapping footprints or overfills a slot.

  \<^bold>\<open>Reviews and landing.\<close>
  \<^item> \<open>Land_Gate\<close>: \<open>maidan-types/src/land_gate.rs\<close>, \<open>sqlite/land_gate.rs\<close>, the pass of \<open>attestation.rs\<close>; the standing
    shown is the gate enforced.
  \<^item> \<open>Review_Evidence\<close>: manifests, roots, tiers and packets (\<open>maidan-types/src/review.rs\<close>, \<open>attestation.rs\<close>,
    \<open>sqlite/review_packets.rs\<close>); a root names one manifest.
  \<^item> \<open>Close_Gate\<close>, \<open>Transitions\<close>, \<open>Reviews\<close>, \<open>Plan_Closes\<close>, \<open>Closing\<close>: \<open>sqlite/thread_transitions.rs\<close>,
    \<open>sqlite/reviews.rs\<close>, \<open>review_head.rs\<close>, \<open>sqlite/review_family.rs\<close> and the closing half of \<open>sqlite/plans.rs\<close>.  The
    walk up through nested plans is a total function: each turn that goes on closes one more plan.
  \<^item> \<open>Thread_Deps\<close>, \<open>Dependency_Safety\<close>: \<open>sqlite/thread_deps.rs\<close> and the repointing of an abandoned close.  The
    recursive query is the library's worklist search, which returns on every finite table; the locale
    \<open>edge_table\<close> is what the guarded writers rely on.  The edges stay acyclic.
  \<^item> \<open>Landing_Frames\<close>, \<open>Landing_Safety\<close>: every review operation keeps claims as \<open>extends\<close> says; along every run
    (\<open>thread_step\<close>) a close needs its independent approvals, and nobody lands their own work.
  \<^item> \<open>Evidence_Safety\<close>, \<open>Review_Rounds\<close>: a verdict is bound to the evidence it names, and the round cap holds a
    thread that has been sent back too often.

  \<^bold>\<open>Access.\<close>
  \<^item> \<open>Capability\<close>: \<open>maidan-auth\<close>, capability names, named sets, attenuation, delegated tokens and contexts.
  \<^item> \<open>Thread_Access\<close>: \<open>access.rs\<close>, \<open>event_visibility.rs\<close>, \<open>thread_access.rs\<close>; the SQL rule is the request rule, and
    the cached event filter answers as the uncached one.
  \<^item> \<open>Ip_Addr\<close>, \<open>Egress_Guard\<close>, \<open>Egress_Safety\<close>: \<open>maidan-auth/src/egress.rs\<close>, over a model of Rust's address parser and
    printer, which are inverse.  What the guard lets through is public or was named by the operator; its patterns
    are the special-purpose address blocks.  \<open>url_parse\<close> (the \<open>url\<close> crate), \<open>lookup\<close> (the resolver) and \<open>env\<close> are
    parameters, and no theorem assumes anything of them.

  \<^bold>\<open>The log.\<close>
  \<^item> \<open>Hex_Codec\<close>, \<open>Canonical_Json\<close>: \<open>signed_export.rs\<close> and the number normalisation of \<open>event_chain.rs\<close>; canonical bytes
    decide equality of documents.
  \<^item> \<open>Event_Chain\<close>, \<open>Log_Snapshot\<close>: \<open>event_chain.rs\<close>, \<open>log_snapshot.rs\<close>, \<open>catch_up.rs\<close>; one verified head means one
    history.
  \<^item> \<open>Event_Log\<close>, \<open>Log_Integrity\<close>, \<open>Log_Service\<close>: \<open>sqlite/events.rs\<close>, \<open>outbox.rs\<close>, \<open>delivery_cursor.rs\<close>, retention.
    Along every run (\<open>log_step\<close>) each workspace's chain verifies and the outbox is complete.

  \<^bold>\<open>Bounds.\<close>  No definition uses fuel: loops over rows are structural, and the others (\<open>after_close\<close>, the byte
  loops of \<open>Capability\<close>, the search of \<open>Thread_Deps\<close>) come with a termination proof or a proof that they return.

  \<^bold>\<open>Not modelled.\<close>  The Postgres backend (the same operations in another dialect, with row locks); the HTTP, gRPC,
  MCP and A2A servers, the CLI and the web client (routing and serialisation around the store); the message bus,
  search, artifact blobs, WASI handlers, observability and environment parsing; GitHub and Linear deliveries;
  signatures, sealing and key rotation (cryptography is a parameter); plan submission and amendment, the
  listings and rollups of the usage ledger and the reading of telemetry attributes into a report, messages,
  members and channels beyond what access reads.  Concurrent transactions are
  not interleaved: SQLite runs one writer at a time, and a step is a whole transaction.
\<close>

end
